(* ===== verification/Prelude.thy ===== *)
theory Prelude
  imports Main "HOL-Library.Word" "HOL-Library.Monad_Syntax"
begin

text \<open>
  What every component shares: the error values the Go code compares by identity, the
  outcome of code that may panic, the shape of operations on a shared state, and the
  generic facts on lists, options and counting that the component proofs rest on.

  An operation that reads or writes state has type \<open>'s \<Rightarrow> 'a \<times> 's\<close>: the value
  it returns and the state it leaves. A Go pair \<open>(x, err)\<close> is a pair whose second part
  is \<open>None\<close> for \<open>nil\<close>, or the sum \<open>goerr + 'a\<close> where the code never looks at
  \<open>x\<close> beside a non-nil error.
\<close>

section \<open>Errors and outcomes\<close>

text \<open>
  The sentinel errors are package variables compared with \<open>==\<close>, so each is a
  constructor of its own. \<open>ErrBlockserviceNotFound\<close> is \<open>ErrNotFound\<close> of the package
  go-blockservice, which mdag.go imports as \<open>bserv\<close>; \<open>ErrBserviceNotFound\<close> is the
  variable that bitswap/bservice/bserv.go declares: two different values. An error made by
  \<open>fmt.Errorf\<close> or \<open>errors.New\<close> at the place it is returned is \<open>Errorf\<close> with its
  fixed text and the error it mentions, if any; every other error of code outside the
  repository is \<open>ErrExternal\<close>.
\<close>

datatype goerr =
    ErrBlockserviceNotFound
  | ErrBserviceNotFound
  | ErrFormatNotFound
  | ErrBlockstoreNotFound
  | ErrCtxDone
  | ErrShortBuffer
  | ErrEOF
  | Errorf string "goerr option"
  | ErrExternal string

text \<open>Code that may panic ends in \<open>Panic\<close> with the text passed to \<open>panic\<close>.\<close>

datatype 'a outcome = Ret 'a | Panic string

fun returned :: "'a outcome \<Rightarrow> bool" where
  "returned (Ret _) = True"
| "returned (Panic _) = False"

type_synonym ('s, 'a) action = "'s \<Rightarrow> 'a \<times> 's"

named_theorems graph_intros \<open>introduction rules for edges and reachability of link graphs\<close>
named_theorems step_intros \<open>rules that build a step of one of the machines\<close>

section \<open>Lists and counting\<close>

definition count_if :: "('a \<Rightarrow> bool) \<Rightarrow> 'a list \<Rightarrow> nat" where
  "count_if P xs = length (filter P xs)"

lemma count_if_Nil [simp]: "count_if P [] = 0"
  by (simp add: count_if_def)

lemma count_if_Cons [simp]: "count_if P (x # xs) = (if P x then 1 else 0) + count_if P xs"
  by (simp add: count_if_def)

lemma count_if_update:
  "i < length xs \<Longrightarrow>
   count_if P (xs[i := y]) + (if P (xs ! i) then 1 else 0) = count_if P xs + (if P y then 1 else 0)"
proof (induction xs arbitrary: i)
  case Nil
  then show ?case by simp
next
  case (Cons x xs)
  then show ?case by (cases i) auto
qed

lemma count_if_pos: "i < length xs \<Longrightarrow> P (xs ! i) \<Longrightarrow> 0 < count_if P xs"
  by (auto simp: count_if_def filter_empty_conv)

lemma count_if_0_iff: "count_if P xs = 0 \<longleftrightarrow> (\<forall>x \<in> set xs. \<not> P x)"
  by (simp add: count_if_def filter_empty_conv)

lemma sum_list_update_nat:
  "i < length xs \<Longrightarrow> sum_list (map f (xs[i := y])) + f (xs ! i) = sum_list (map f xs) + (f y :: nat)"
proof (induction xs arbitrary: i)
  case Nil
  then show ?case by simp
next
  case (Cons x xs)
  then show ?case by (cases i) auto
qed

lemma ex_update_iff:
  assumes "i < length xs"
  shows "x \<in> set (xs[i := y]) \<longleftrightarrow> x = y \<or> (\<exists>j < length xs. j \<noteq> i \<and> xs ! j = x)"
  using assms by (auto simp: in_set_conv_nth nth_list_update)

lemma fold_insert_is_set: "fold insert ks X = X \<union> set ks"
  by (induction ks arbitrary: X) auto

section \<open>Link graphs\<close>

text \<open>
  A block links to other blocks. \<open>edges succs\<close> is the link relation and \<open>reach succs r\<close>
  the set of everything a walk from \<open>r\<close> has to see.
\<close>

definition edges :: "('c \<Rightarrow> 'c list) \<Rightarrow> ('c \<times> 'c) set" where
  "edges succs = {(a, b). b \<in> set (succs a)}"

definition reach :: "('c \<Rightarrow> 'c list) \<Rightarrow> 'c \<Rightarrow> 'c set" where
  "reach succs r = {c. (r, c) \<in> (edges succs)\<^sup>*}"

lemma edges_iff [simp]: "(a, b) \<in> edges succs \<longleftrightarrow> b \<in> set (succs a)"
  by (simp add: edges_def)

lemma reach_refl [simp, graph_intros]: "r \<in> reach succs r"
  by (simp add: reach_def)

lemma reach_step [graph_intros]: "a \<in> reach succs r \<Longrightarrow> b \<in> set (succs a) \<Longrightarrow> b \<in> reach succs r"
  unfolding reach_def using rtrancl_into_rtrancl [of r a "edges succs" b] by simp

lemma reach_trans [graph_intros]: "a \<in> reach succs r \<Longrightarrow> b \<in> reach succs a \<Longrightarrow> b \<in> reach succs r"
  unfolding reach_def by auto

lemma reach_succ [graph_intros]: "b \<in> set (succs a) \<Longrightarrow> x \<in> reach succs b \<Longrightarrow> x \<in> reach succs a"
  using reach_trans [OF reach_step [OF reach_refl]] by metis

lemma reach_least:
  assumes "r \<in> X" and "\<And>a b. a \<in> X \<Longrightarrow> b \<in> set (succs a) \<Longrightarrow> b \<in> X"
  shows "reach succs r \<subseteq> X"
proof
  fix c assume "c \<in> reach succs r"
  then have "(r, c) \<in> (edges succs)\<^sup>*" by (simp add: reach_def)
  then show "c \<in> X" by induction (use assms in auto)
qed

section \<open>Runs that end\<close>

text \<open>A step relation that keeps \<open>I\<close> and decreases \<open>m\<close> on it comes to rest from every state.\<close>

lemma measure_run_ends:
  fixes m :: "'s \<Rightarrow> nat"
  assumes "\<And>s s'. I s \<Longrightarrow> step s s' \<Longrightarrow> I s' \<and> m s' < m s" and "I s"
  shows "\<exists>s'. step\<^sup>*\<^sup>* s s' \<and> I s' \<and> (\<nexists>t. step s' t)"
  using assms(2)
proof (induction "m s" arbitrary: s rule: less_induct)
  case less
  show ?case
  proof (cases "\<exists>t. step s t")
    case True
    then obtain t where t: "step s t" by blast
    then obtain s' where "step\<^sup>*\<^sup>* t s'" "I s'" "\<nexists>t. step s' t" using less.hyps [of t] assms(1) [OF less.prems t] by blast
    then show ?thesis using converse_rtranclp_into_rtranclp [of step, OF t] by blast
  next
    case False
    then show ?thesis using less.prems by blast
  qed
qed

lemma measure_run_finite:
  fixes m :: "'s \<Rightarrow> nat"
  assumes "\<And>s s'. I s \<Longrightarrow> step s s' \<Longrightarrow> I s' \<and> m s' < m s" and "I (f 0)"
  shows "\<exists>n. \<not> step (f n) (f (Suc n))"
proof (rule ccontr)
  assume "\<nexists>n. \<not> step (f n) (f (Suc n))"
  then have st: "\<And>n. step (f n) (f (Suc n))" by blast
  have "I (f n) \<and> m (f n) + n \<le> m (f 0)" for n
  proof (induction n)
    case (Suc n)
    then show ?case using assms(1) [OF _ st [of n]] by fastforce
  qed (use assms(2) in simp)
  from this [of "Suc (m (f 0))"] show False by simp
qed

end
