(* ===== verification/WalkOptions.thy ===== *)
theory WalkOptions
  imports Prelude
begin

text \<open>
  The options of a graph walk (bitswap/mdag/mdag.go, lines 302 to 395): the struct
  \<open>walkOptions\<close>, the setters that build it, and the error handler closures they install.
  The lemmas say what a walk does with an error under each option, and that a second
  handler makes the installed closure call itself for ever.
\<close>

section \<open>Handlers and options\<close>

text \<open>
  A handler is called with the CID and an error, either of which may come from another
  handler, and may change the state its closure captures (\<open>OnMissing\<close> runs a callback).
\<close>

type_synonym ('c, 's) errorHandler = "'c \<Rightarrow> goerr option \<Rightarrow> 's \<Rightarrow> goerr option \<times> 's"

text \<open>
  What \<open>addHandler\<close> stores in the field \<open>ErrorHandler\<close>: the handler itself, or a closure
  that first calls \<open>wo.ErrorHandler\<close> and passes its result on. The closure captures the
  pointer \<open>wo\<close>, so it reads the field when it is called, not when it is made.
\<close>

datatype ('c, 's) handlerClosure =
    Direct "('c, 's) errorHandler"
  | Chained "('c, 's) errorHandler"

record ('c, 's) walkOptions =
  optSkipRoot :: bool
  optConcurrency :: int
  optErrorHandler :: "('c, 's) handlerClosure option"

type_synonym ('c, 's) WalkOption = "('c, 's) walkOptions \<Rightarrow> ('c, 's) walkOptions"

definition emptyWalkOptions :: "('c, 's) walkOptions" where
  "emptyWalkOptions = \<lparr>optSkipRoot = False, optConcurrency = 0, optErrorHandler = None\<rparr>"

definition defaultConcurrentFetch :: int where
  "defaultConcurrentFetch = 32"

definition addHandler :: "('c, 's) errorHandler \<Rightarrow> ('c, 's) WalkOption" where
  "addHandler handler wo =
     (case optErrorHandler wo of
        Some _ \<Rightarrow> wo\<lparr>optErrorHandler := Some (Chained handler)\<rparr>
      | None \<Rightarrow> wo\<lparr>optErrorHandler := Some (Direct handler)\<rparr>)"

definition SkipRoot :: "('c, 's) WalkOption" where
  "SkipRoot wo = wo\<lparr>optSkipRoot := True\<rparr>"

definition Concurrent :: "('c, 's) WalkOption" where
  "Concurrent wo = wo\<lparr>optConcurrency := defaultConcurrentFetch\<rparr>"

definition Concurrency :: "int \<Rightarrow> ('c, 's) WalkOption" where
  "Concurrency worker wo = wo\<lparr>optConcurrency := worker\<rparr>"

definition ignoreErrorsHandler :: "('c, 's) errorHandler" where
  "ignoreErrorsHandler c err s = (None, s)"

definition IgnoreErrors :: "('c, 's) WalkOption" where
  "IgnoreErrors = addHandler ignoreErrorsHandler"

definition ignoreMissingHandler :: "('c, 's) errorHandler" where
  "ignoreMissingHandler c err s = (if err = Some ErrFormatNotFound then None else err, s)"

definition IgnoreMissing :: "('c, 's) WalkOption" where
  "IgnoreMissing = addHandler ignoreMissingHandler"

definition onMissingHandler :: "('c \<Rightarrow> 's \<Rightarrow> 's) \<Rightarrow> ('c, 's) errorHandler" where
  "onMissingHandler callback c err s =
     (err, if err = Some ErrFormatNotFound then callback c s else s)"

definition OnMissing :: "('c \<Rightarrow> 's \<Rightarrow> 's) \<Rightarrow> ('c, 's) WalkOption" where
  "OnMissing callback = addHandler (onMissingHandler callback)"

definition OnError :: "('c, 's) errorHandler \<Rightarrow> ('c, 's) WalkOption" where
  "OnError handler = addHandler handler"

text \<open>\<open>for _, opt := range options { opt(opts) }\<close> in \<open>WalkDepth\<close>.\<close>

definition applyOptions :: "('c, 's) WalkOption list \<Rightarrow> ('c, 's) walkOptions" where
  "applyOptions options = fold (\<lambda>opt wo. opt wo) options emptyWalkOptions"

text \<open>
  Calling \<open>wo.ErrorHandler(c, err)\<close>. \<open>None\<close> is a call that never returns (in Go the
  goroutine's stack overflows, which ends the process). The callers test the field first,
  so a nil field is never called.
\<close>

partial_function (option) callErrorHandler ::
    "('c, 's) walkOptions \<Rightarrow> 'c \<Rightarrow> goerr option \<Rightarrow> 's \<Rightarrow> (goerr option \<times> 's) option" where
  "callErrorHandler wo c err s =
     (case optErrorHandler wo of
        None \<Rightarrow> Some (err, s)
      | Some (Direct h) \<Rightarrow> Some (h c err s)
      | Some (Chained h) \<Rightarrow>
          Option.bind (callErrorHandler wo c err s) (\<lambda>(err', s'). Some (h c err' s')))"

text \<open>
  \<open>if err != nil && options.ErrorHandler != nil { err = options.ErrorHandler(c, err) }\<close>,
  as both walks have it.
\<close>

definition handleErr ::
    "('c, 's) walkOptions \<Rightarrow> 'c \<Rightarrow> goerr option \<Rightarrow> 's \<Rightarrow> (goerr option \<times> 's) option" where
  "handleErr wo c err s =
     (if err \<noteq> None \<and> optErrorHandler wo \<noteq> None then callErrorHandler wo c err s
      else Some (err, s))"

section \<open>What the options do with an error\<close>

lemmas option_defs = emptyWalkOptions_def addHandler_def SkipRoot_def Concurrent_def
  Concurrency_def IgnoreErrors_def IgnoreMissing_def OnMissing_def OnError_def

lemmas handler_defs = ignoreErrorsHandler_def ignoreMissingHandler_def onMissingHandler_def

lemma callErrorHandler_Direct [simp]:
  "optErrorHandler wo = Some (Direct h) \<Longrightarrow> callErrorHandler wo c err s = Some (h c err s)"
  by (simp add: callErrorHandler.simps)

lemma handleErr_nil [simp]: "handleErr wo c None s = Some (None, s)"
  by (simp add: handleErr_def)

lemma handleErr_no_handler [simp]:
  "optErrorHandler wo = None \<Longrightarrow> handleErr wo c err s = Some (err, s)"
  by (simp add: handleErr_def)

lemma handleErr_Direct:
  "optErrorHandler wo = Some (Direct h) \<Longrightarrow>
   handleErr wo c (Some e) s = Some (h c (Some e) s)"
  by (simp add: handleErr_def)

text \<open>
  A chained closure calls the field it is stored in: if the call returned, a shorter
  call of the same closure with the same arguments would have returned first.
\<close>

lemma callErrorHandler_Chained:
  assumes chained: "optErrorHandler wo = Some (Chained h)"
  shows "callErrorHandler wo c err s = None"
proof (rule ccontr)
  assume "callErrorHandler wo c err s \<noteq> None"
  then obtain r where ret: "callErrorHandler wo c err s = Some r" by auto
  have "optErrorHandler wo \<noteq> Some (Chained h)"
  proof (rule callErrorHandler.raw_induct
      [where P = "\<lambda>wo c err s r. optErrorHandler wo \<noteq> Some (Chained h)", OF _ ret])
    fix f :: "('a, 'b) walkOptions \<Rightarrow> 'a \<Rightarrow> goerr option \<Rightarrow> 'b \<Rightarrow> (goerr option \<times> 'b) option"
      and wo c err s r
    assume IH: "\<And>wo c err s r. f wo c err s = Some r \<Longrightarrow> optErrorHandler wo \<noteq> Some (Chained h)"
      and eq: "(case optErrorHandler wo of
            None \<Rightarrow> Some (err, s)
          | Some (Direct h) \<Rightarrow> Some (h c err s)
          | Some (Chained h) \<Rightarrow>
              Option.bind (f wo c err s) (\<lambda>(err', s'). Some (h c err' s'))) = Some r"
    show "optErrorHandler wo \<noteq> Some (Chained h)"
      using IH eq by (auto simp: bind_eq_Some_conv)
  qed
  with chained show False by contradiction
qed

text \<open>An option list with one handler installs it directly; concurrency and root options
  do not touch it.\<close>

lemma applyOptions_Nil [simp]: "applyOptions [] = emptyWalkOptions"
  by (simp add: applyOptions_def)

lemma applyOptions_snoc: "applyOptions (opts @ [opt]) = opt (applyOptions opts)"
  by (simp add: applyOptions_def)

lemma handler_unchanged [simp]:
  "optErrorHandler (SkipRoot wo) = optErrorHandler wo"
  "optErrorHandler (Concurrent wo) = optErrorHandler wo"
  "optErrorHandler (Concurrency n wo) = optErrorHandler wo"
  "optErrorHandler emptyWalkOptions = None" "optSkipRoot emptyWalkOptions = False"
  "optConcurrency emptyWalkOptions = 0"
  by (simp_all add: option_defs)

lemma addHandler_field:
  "optErrorHandler (addHandler h wo) =
     Some (if optErrorHandler wo = None then Direct h else Chained h)"
  by (auto simp: addHandler_def split: option.splits)

lemma addHandler_other [simp]:
  "optSkipRoot (addHandler h wo) = optSkipRoot wo"
  "optConcurrency (addHandler h wo) = optConcurrency wo"
  by (simp_all add: addHandler_def split: option.splits)

section \<open>Properties\<close>

text \<open>
  C39: once two error handlers are installed, in whatever order and with whatever options
  before, the first error a walk meets is never answered: the closure that the second
  \<open>addHandler\<close> stores reads the field it is stored in and calls itself. The composition
  \<open>handler(c, previous(c, err))\<close> that the code spells out is never computed.
\<close>

theorem addHandler_twice_never_returns:
  "handleErr (addHandler h2 (addHandler h1 wo)) c (Some e) s = None"
proof -
  have "optErrorHandler (addHandler h2 (addHandler h1 wo)) = Some (Chained h2)"
    by (simp add: addHandler_field)
  then show ?thesis by (simp add: handleErr_def callErrorHandler_Chained)
qed

text \<open>
  A single \<open>IgnoreMissing\<close>, on top of any options that install no handler, drops
  exactly the not-found error of the format package and returns every other error as it
  is, without touching the state.
\<close>

theorem IgnoreMissing_drops_only_missing:
  assumes "optErrorHandler wo = None"
  shows "handleErr (IgnoreMissing wo) c (Some e) s =
           Some (if e = ErrFormatNotFound then None else Some e, s)"
proof -
  have "optErrorHandler (IgnoreMissing wo) = Some (Direct ignoreMissingHandler)"
    using assms by (simp add: IgnoreMissing_def addHandler_field)
  then show ?thesis by (simp add: handleErr_Direct ignoreMissingHandler_def)
qed

theorem IgnoreMissing_drops_only_missing_witness:
  "handleErr (IgnoreMissing (SkipRoot emptyWalkOptions)) (7 :: nat) (Some ErrCtxDone) (0 :: nat) =
     Some (Some ErrCtxDone, 0)"
  using IgnoreMissing_drops_only_missing
    [of "SkipRoot emptyWalkOptions" "7 :: nat" ErrCtxDone "0 :: nat"] by simp

end
