(* ===== verification/SeqWalk.thy ===== *)
theory SeqWalk
  imports WalkOptions
begin

text \<open>
  The sequential walk of mdag.go (\<open>sequentialWalkDepth\<close>, lines 422 to 445), the visit
  functions the repository passes to it, and the contract between the two: a visit
  function says yes to a CID exactly once. Under that contract the walk returns, sees
  exactly what the root reaches, and in the order of a depth-first search.
\<close>

section \<open>The walk\<close>

text \<open>
  \<open>getLinks\<close> returns the links and an error together, as in Go: after an error handler
  has turned the error into nil the walk goes on with whatever links came with it.
\<close>

type_synonym ('c, 's) getLinks = "'c \<Rightarrow> 's \<Rightarrow> ('c list \<times> goerr option) \<times> 's"
type_synonym ('c, 's) visitFun = "'c \<Rightarrow> int \<Rightarrow> 's \<Rightarrow> bool \<times> 's"

text \<open>
  The loop over the links of a node: it stops at the first error, and \<open>None\<close> is an
  inner call that has not returned.
\<close>

primrec walkLinks ::
    "('c \<Rightarrow> 's \<Rightarrow> (goerr option \<times> 's) option) \<Rightarrow> 'c list \<Rightarrow> 's \<Rightarrow> (goerr option \<times> 's) option" where
  "walkLinks walk [] s = Some (None, s)"
| "walkLinks walk (lnk # links) s =
     (case walk lnk s of
        None \<Rightarrow> None
      | Some (Some e, s') \<Rightarrow> Some (Some e, s')
      | Some (None, s') \<Rightarrow> walkLinks walk links s')"

text \<open>
  The first argument is the depth of the call stack that may still be used; \<open>None\<close> is a
  walk that needs more. The visit state and whatever \<open>getLinks\<close> touches are the state
  \<open>'s\<close> that is passed along. Depths are Go ints that start at 0 and grow by one per
  stack frame, so they stay far from the word bound and are integers here.
\<close>

primrec sequentialWalkDepth ::
    "nat \<Rightarrow> ('c, 's) getLinks \<Rightarrow> ('c, 's) visitFun \<Rightarrow> ('c, 's) walkOptions \<Rightarrow> 'c \<Rightarrow> int \<Rightarrow> 's
     \<Rightarrow> (goerr option \<times> 's) option" where
  "sequentialWalkDepth 0 getLinks visit options root depth s = None"
| "sequentialWalkDepth (Suc n) getLinks visit options root depth s =
     (let (go, s1) = (if \<not> (optSkipRoot options \<and> depth = 0) then visit root depth s else (True, s))
      in if \<not> go then Some (None, s1)
         else let ((links, err), s2) = getLinks root s1
              in case handleErr options root err s2 of
                   None \<Rightarrow> None
                 | Some (Some e, s3) \<Rightarrow> Some (Some e, s3)
                 | Some (None, s3) \<Rightarrow>
                     walkLinks (\<lambda>lnk. sequentialWalkDepth n getLinks visit options lnk (depth + 1))
                       links s3)"

text \<open>One frame of the walk, by the way it ends: the visit refuses, the error is not handled,
  or the links are walked.\<close>

abbreviation enterNode :: "('c, 's) visitFun \<Rightarrow> ('c, 's) walkOptions \<Rightarrow> 'c \<Rightarrow> int \<Rightarrow> 's \<Rightarrow> bool \<times> 's" where
  "enterNode visit options root depth s \<equiv>
     (if \<not> (optSkipRoot options \<and> depth = 0) then visit root depth s else (True, s))"

abbreviation nodeErr :: "('c, 's) getLinks \<Rightarrow> ('c, 's) walkOptions \<Rightarrow> 'c \<Rightarrow> 's \<Rightarrow> (goerr option \<times> 's) option" where
  "nodeErr getLinks options root s \<equiv>
     handleErr options root (snd (fst (getLinks root s))) (snd (getLinks root s))"

lemma walk_frame:
  "sequentialWalkDepth (Suc n) getLinks visit options r d s =
     (if \<not> fst (enterNode visit options r d s) then Some (None, snd (enterNode visit options r d s))
      else case nodeErr getLinks options r (snd (enterNode visit options r d s)) of
             None \<Rightarrow> None
           | Some (Some e, s3) \<Rightarrow> Some (Some e, s3)
           | Some (None, s3) \<Rightarrow>
               walkLinks (\<lambda>lnk. sequentialWalkDepth n getLinks visit options lnk (d + 1))
                 (fst (fst (getLinks r (snd (enterNode visit options r d s))))) s3)"
  by (cases "optSkipRoot options \<and> d = 0") (auto simp: split_beta cong: option.case_cong)

lemma walk_SucE:
  assumes "sequentialWalkDepth (Suc n) getLinks visit options r d s = Some x"
  obtains (refused) "\<not> fst (enterNode visit options r d s)" "x = (None, snd (enterNode visit options r d s))"
  | (failed) e s3 where "fst (enterNode visit options r d s)" "x = (Some e, s3)"
      "nodeErr getLinks options r (snd (enterNode visit options r d s)) = Some (Some e, s3)"
  | (links) s3 where "fst (enterNode visit options r d s)"
      "nodeErr getLinks options r (snd (enterNode visit options r d s)) = Some (None, s3)"
      "walkLinks (\<lambda>lnk. sequentialWalkDepth n getLinks visit options lnk (d + 1))
         (fst (fst (getLinks r (snd (enterNode visit options r d s))))) s3 = Some x"
proof (cases "fst (enterNode visit options r d s)")
  case False
  with assms that(1) show ?thesis unfolding walk_frame by simp
next
  case True
  then obtain e1 s3 where h: "nodeErr getLinks options r (snd (enterNode visit options r d s)) = Some (e1, s3)"
    using assms unfolding walk_frame
    by (cases "nodeErr getLinks options r (snd (enterNode visit options r d s))") auto
  show ?thesis
  proof (cases e1)
    case None
    then show ?thesis using that(3) True h assms unfolding walk_frame h by simp
  next
    case (Some e)
    then have "x = (Some e, s3)" using True h assms unfolding walk_frame h by simp
    with that(2) True h Some show ?thesis by blast
  qed
qed

section \<open>The contract of a visit function\<close>

text \<open>
  \<open>seen s\<close> is the set of CIDs the visit function has said yes to. Every set-based visit
  function of the repository keeps this contract: \<open>visitProgress\<close> of bitswap.go,
  walk2.go and manifetch.go, and \<open>visit\<close> of \<open>FetchGraphWithDepthLimit\<close> without a limit.
\<close>

locale visitor =
  fixes visit :: "('c, 's) visitFun" and seen :: "'s \<Rightarrow> 'c set"
  assumes visit_new: "fst (visit c d s) \<longleftrightarrow> c \<notin> seen s"
    and visit_seen: "seen (snd (visit c d s)) = insert c (seen s)"
begin

lemma visit_again: "fst (visit c d (snd (visit c d' s))) = False"
  by (simp add: visit_new visit_seen)

end

text \<open>
  A block graph that is completely available: \<open>nodes\<close> is closed under links, and
  \<open>getLinks\<close> returns the links of each node without an error and without touching what
  has been seen.
\<close>

locale graph_visitor = visitor visit seen
  for visit :: "('c, 's) visitFun" and seen :: "'s \<Rightarrow> 'c set" +
  fixes getLinks :: "('c, 's) getLinks" and succs :: "'c \<Rightarrow> 'c list" and nodes :: "'c set"
  assumes finite_nodes: "finite nodes"
    and nodes_closed: "c \<in> nodes \<Longrightarrow> set (succs c) \<subseteq> nodes"
    and links_ok: "c \<in> nodes \<Longrightarrow> fst (getLinks c s) = (succs c, None)"
    and links_seen: "seen (snd (getLinks c s)) = seen s"
begin

lemma reach_nodes: "r \<in> nodes \<Longrightarrow> reach succs r \<subseteq> nodes"
  using nodes_closed by (intro reach_least) auto

text \<open>
  What a walk over the set of start CIDs \<open>X\<close> achieves between two states: it covers
  \<open>X\<close>, sees nothing that \<open>X\<close> does not reach, and has seen the links of everything new.
\<close>

definition covers :: "'c set \<Rightarrow> 's \<Rightarrow> 's \<Rightarrow> bool" where
  "covers X s s' \<longleftrightarrow> seen s \<subseteq> seen s' \<and> X \<subseteq> seen s' \<and>
     seen s' \<subseteq> seen s \<union> (\<Union>x \<in> X. reach succs x) \<and>
     (\<forall>c \<in> seen s' - seen s. set (succs c) \<subseteq> seen s')"

lemma covers_empty [simp]: "covers {} s s"
  by (simp add: covers_def)

lemma covers_mono: "covers X s s' \<Longrightarrow> seen s \<subseteq> seen s'"
  by (simp add: covers_def)

lemma covers_closed:
  "covers X s s' \<Longrightarrow> c \<in> seen s' \<Longrightarrow> c \<notin> seen s \<Longrightarrow> set (succs c) \<subseteq> seen s'"
  by (simp add: covers_def)

lemma covers_Un:
  assumes "covers X s s'" and "covers Y s' s''"
  shows "covers (X \<union> Y) s s''"
proof -
  have "set (succs c) \<subseteq> seen s''" if "c \<in> seen s'' - seen s" for c
    using covers_closed [OF assms(1), of c] covers_closed [OF assms(2), of c]
      covers_mono [OF assms(2)] that by (cases "c \<in> seen s'") auto
  then show ?thesis using assms unfolding covers_def by auto
qed

lemma covers_seen: "c \<in> seen s \<Longrightarrow> seen s' = seen s \<Longrightarrow> covers {c} s s'"
  unfolding covers_def by auto

lemma covers_visit:
  assumes "seen s1 = insert c (seen s)" and "covers (set (succs c)) s1 s'"
  shows "covers {c} s s'"
proof -
  have "seen s' \<subseteq> seen s \<union> reach succs c"
  proof
    fix x assume "x \<in> seen s'"
    then consider "x = c" | "x \<in> seen s" | y where "y \<in> set (succs c)" "x \<in> reach succs y"
      using assms unfolding covers_def by blast
    then show "x \<in> seen s \<union> reach succs c"
      by cases (auto intro: graph_intros)
  qed
  with assms show ?thesis unfolding covers_def by auto
qed

lemma covers_reach:
  assumes "seen s = {}" and "covers {r} s s'"
  shows "seen s' = reach succs r"
proof
  show "seen s' \<subseteq> reach succs r" using assms unfolding covers_def by auto
  show "reach succs r \<subseteq> seen s'"
    using assms by (intro reach_least) (auto simp: covers_def)
qed

lemma walkLinks_covers:
  assumes "\<And>c s. c \<in> set links \<Longrightarrow> card (nodes - seen s) < n \<Longrightarrow>
      \<exists>s'. walk c s = Some (None, s') \<and> covers {c} s s'"
    and "card (nodes - seen s) < n"
  shows "\<exists>s'. walkLinks walk links s = Some (None, s') \<and> covers (set links) s s'"
  using assms
proof (induction links arbitrary: s)
  case Nil
  then show ?case by simp
next
  case (Cons c links)
  obtain s1 where s1: "walk c s = Some (None, s1)" "covers {c} s s1"
    using Cons.prems by (metis list.set_intros(1))
  have "card (nodes - seen s1) \<le> card (nodes - seen s)"
    using s1(2) finite_nodes by (intro card_mono) (auto simp: covers_def)
  then obtain s2 where "walkLinks walk links s1 = Some (None, s2)" "covers (set links) s1 s2"
    using Cons.IH [of s1] Cons.prems by force
  with s1 show ?case using covers_Un [OF s1(2), of "set links" s2] by auto
qed

theorem walk_covers:
  assumes "r \<in> nodes" and "\<not> optSkipRoot options" and "card (nodes - seen s) < n"
  shows "\<exists>s'. sequentialWalkDepth n getLinks visit options r d s = Some (None, s') \<and> covers {r} s s'"
  using assms
proof (induction n arbitrary: r d s)
  case 0
  then show ?case by simp
next
  case (Suc n)
  obtain go s1 where v: "visit r d s = (go, s1)" by (cases "visit r d s")
  have go: "go \<longleftrightarrow> r \<notin> seen s" and s1: "seen s1 = insert r (seen s)"
    using visit_new [of r d s] visit_seen [of r d s] v by simp_all
  show ?case
  proof (cases "r \<in> seen s")
    case True
    then have "covers {r} s s1" using s1 by (intro covers_seen) auto
    with True show ?thesis using Suc.prems(2) v go by simp
  next
    case False
    obtain s2 where l: "getLinks r s1 = ((succs r, None), s2)"
      using links_ok [OF Suc.prems(1), of s1] by (cases "getLinks r s1") auto
    have s2: "seen s2 = insert r (seen s)" using links_seen [of r s1] l s1 by simp
    have "nodes - seen s2 \<subset> nodes - seen s" using False Suc.prems(1) s2 by auto
    then have "card (nodes - seen s2) < card (nodes - seen s)"
      using finite_nodes by (intro psubset_card_mono) auto
    then have small: "card (nodes - seen s2) < n" using Suc.prems(3) by simp
    have "\<exists>s'. walkLinks (\<lambda>lnk. sequentialWalkDepth n getLinks visit options lnk (d + 1)) (succs r) s2
        = Some (None, s') \<and> covers (set (succs r)) s2 s'"
      using nodes_closed [OF Suc.prems(1)] Suc.prems(2) Suc.IH
      by (intro walkLinks_covers [OF _ small]) auto
    then obtain s' where
      "walkLinks (\<lambda>lnk. sequentialWalkDepth n getLinks visit options lnk (d + 1)) (succs r) s2
        = Some (None, s')" "covers (set (succs r)) s2 s'" by blast
    with covers_visit [OF s2] False show ?thesis
      using Suc.prems(2) v go l by auto
  qed
qed

end

section \<open>Depth-first order\<close>

text \<open>
  The textbook search with an explicit stack: \<open>dfs succs vs stack vs'\<close> starts with the
  visit sequence \<open>vs\<close>, takes CIDs from the stack, and ends with the sequence \<open>vs'\<close>.
\<close>

inductive dfs :: "('c \<Rightarrow> 'c list) \<Rightarrow> 'c list \<Rightarrow> 'c list \<Rightarrow> 'c list \<Rightarrow> bool"
  for succs :: "'c \<Rightarrow> 'c list" where
  dfs_empty: "dfs succs vs [] vs"
| dfs_skip: "x \<in> set vs \<Longrightarrow> dfs succs vs stack vs' \<Longrightarrow> dfs succs vs (x # stack) vs'"
| dfs_visit: "x \<notin> set vs \<Longrightarrow> dfs succs (vs @ [x]) (succs x @ stack) vs' \<Longrightarrow> dfs succs vs (x # stack) vs'"

inductive_cases dfs_NilE: "dfs succs vs [] vs'"
inductive_cases dfs_ConsE: "dfs succs vs (x # stack) vs'"

lemma dfs_append: "dfs succs vs xs vs1 \<Longrightarrow> dfs succs vs1 ys vs2 \<Longrightarrow> dfs succs vs (xs @ ys) vs2"
  by (induction rule: dfs.induct) (auto intro: dfs.intros)

lemma dfs_functional: "dfs succs vs stack a \<Longrightarrow> dfs succs vs stack b \<Longrightarrow> a = b"
proof (induction arbitrary: b rule: dfs.induct)
  case (dfs_empty vs)
  then show ?case by (rule dfs_NilE) simp
next
  case (dfs_skip x vs stack vs')
  from dfs_skip.prems have "dfs succs vs stack b" by (rule dfs_ConsE) (use dfs_skip.hyps in auto)
  then show ?case by (rule dfs_skip.IH)
next
  case (dfs_visit x vs stack vs')
  from dfs_visit.prems have "dfs succs (vs @ [x]) (succs x @ stack) b"
    by (rule dfs_ConsE) (use dfs_visit.hyps in auto)
  then show ?case by (rule dfs_visit.IH)
qed

text \<open>A visit function whose accepted CIDs are also kept in a sequence.\<close>

definition recordVisits :: "('c, 's) visitFun \<Rightarrow> ('c, 's \<times> 'c list) visitFun" where
  "recordVisits visit c d sl =
     (let (b, s') = visit c d (fst sl) in (b, (s', if b then snd sl @ [c] else snd sl)))"

definition recordLinks :: "('c, 's) getLinks \<Rightarrow> ('c, 's \<times> 'c list) getLinks" where
  "recordLinks getLinks c sl = (let (r, s') = getLinks c (fst sl) in (r, (s', snd sl)))"

lemma recordVisits_proj [simp]:
  "fst (recordVisits visit c d sl) = fst (visit c d (fst sl))"
  "fst (snd (recordVisits visit c d sl)) = snd (visit c d (fst sl))"
  "snd (snd (recordVisits visit c d sl)) = (if fst (visit c d (fst sl)) then snd sl @ [c] else snd sl)"
  by (simp_all add: recordVisits_def split_beta)

lemma recordLinks_proj [simp]:
  "fst (recordLinks getLinks c sl) = fst (getLinks c (fst sl))"
  "fst (snd (recordLinks getLinks c sl)) = snd (getLinks c (fst sl))"
  "snd (snd (recordLinks getLinks c sl)) = snd sl"
  by (simp_all add: recordLinks_def split_beta)

context graph_visitor
begin

text \<open>The sequence starts in step with what has been seen and stays so.\<close>

definition in_step :: "'s \<times> 'c list \<Rightarrow> bool" where
  "in_step sl \<longleftrightarrow> set (snd sl) = seen (fst sl)"

lemma recordVisits_eq:
  "in_step (s, l) \<Longrightarrow> recordVisits visit c d (s, l) =
     (c \<notin> set l, (snd (visit c d s), if c \<in> set l then l else l @ [c]))"
  by (simp add: prod_eq_iff in_step_def visit_new)

lemma in_step_visit: "in_step sl \<Longrightarrow> in_step (snd (recordVisits visit c d sl))"
  by (auto simp: in_step_def visit_new visit_seen)

lemma in_step_links: "in_step sl \<Longrightarrow> in_step (snd (recordLinks getLinks c sl))"
  by (simp add: in_step_def links_seen)

lemma walkLinks_dfs:
  assumes "\<And>c sl sl'. c \<in> set links \<Longrightarrow> in_step sl \<Longrightarrow> walk c sl = Some (None, sl') \<Longrightarrow>
      in_step sl' \<and> dfs succs (snd sl) [c] (snd sl')"
    and "in_step sl" and "walkLinks walk links sl = Some (None, sl')"
  shows "in_step sl' \<and> dfs succs (snd sl) links (snd sl')"
  using assms
proof (induction links arbitrary: sl)
  case Nil
  then show ?case by (auto intro: dfs_empty)
next
  case (Cons c links)
  obtain sl1 where sl1: "walk c sl = Some (None, sl1)" "walkLinks walk links sl1 = Some (None, sl')"
    using Cons.prems(3) by (auto split: option.splits)
  have 1: "in_step sl1 \<and> dfs succs (snd sl) [c] (snd sl1)"
    using Cons.prems(1) [OF _ Cons.prems(2) sl1(1)] by simp
  have "in_step sl' \<and> dfs succs (snd sl1) links (snd sl')"
    using Cons.prems(1) by (intro Cons.IH [OF _ conjunct1 [OF 1] sl1(2)]) (meson list.set_intros(2))
  with 1 show ?case using dfs_append [of succs "snd sl" "[c]"] by auto
qed

lemma walk_dfs:
  assumes "r \<in> nodes" and "\<not> optSkipRoot options" and "in_step sl"
    and "sequentialWalkDepth n (recordLinks getLinks) (recordVisits visit) options r d sl = Some (None, sl')"
  shows "in_step sl' \<and> dfs succs (snd sl) [r] (snd sl')"
  using assms
proof (induction n arbitrary: r d sl sl')
  case 0
  then show ?case by simp
next
  case (Suc n)
  obtain s l where sl: "sl = (s, l)" by (cases sl)
  let ?s1 = "snd (visit r d s)"
  have step: "in_step (snd (recordVisits visit r d (s, l)))"
    using in_step_visit Suc.prems(3) sl by simp
  have rv: "recordVisits visit r d (s, l) = (r \<notin> set l, (?s1, if r \<in> set l then l else l @ [r]))"
    using recordVisits_eq Suc.prems(3) sl by simp
  show ?case
  proof (cases "r \<in> set l")
    case True
    then have "sl' = (?s1, l)" using Suc.prems(2,4) sl rv by simp
    with True step rv sl show ?thesis by (auto intro: dfs.intros)
  next
    case False
    have l2: "recordLinks getLinks r (?s1, l @ [r]) = ((succs r, None), (snd (getLinks r ?s1), l @ [r]))"
      using links_ok [OF Suc.prems(1), of ?s1] by (simp add: prod_eq_iff)
    have run: "walkLinks (\<lambda>lnk. sequentialWalkDepth n (recordLinks getLinks) (recordVisits visit) options
        lnk (d + 1)) (succs r) (snd (getLinks r ?s1), l @ [r]) = Some (None, sl')"
      using Suc.prems(2,4) sl rv False l2 by simp
    have ok: "in_step (snd (getLinks r ?s1), l @ [r])"
      using step rv False by (simp add: in_step_def links_seen)
    have "in_step sl' \<and> dfs succs (snd (snd (getLinks r ?s1), l @ [r])) (succs r) (snd sl')"
    proof (rule walkLinks_dfs [OF _ ok run])
      fix c sl1 sl2
      assume "c \<in> set (succs r)" "in_step sl1"
        "sequentialWalkDepth n (recordLinks getLinks) (recordVisits visit) options c (d + 1) sl1 = Some (None, sl2)"
      then show "in_step sl2 \<and> dfs succs (snd sl1) [c] (snd sl2)"
        using Suc.IH [of c sl1 "d + 1" sl2] nodes_closed [OF Suc.prems(1)] Suc.prems(2) by auto
    qed
    with False sl show ?thesis by (auto intro: dfs_visit)
  qed
qed

text \<open>The recorded walk is again a walk under the contract, so it returns.\<close>

lemma recorded_visitor:
  "graph_visitor (recordVisits visit) (\<lambda>sl. seen (fst sl)) (recordLinks getLinks) succs nodes"
  by unfold_locales
    (simp_all add: visit_new visit_seen finite_nodes nodes_closed links_ok links_seen)

end

section \<open>Errors of a walk\<close>

text \<open>Every error a walk returns is one that \<open>getLinks\<close> reported for some CID and that the
  handler, if there is one, let through.\<close>

lemma walkLinks_error:
  "walkLinks walk links s = Some (Some e, s') \<Longrightarrow> \<exists>c s0. walk c s0 = Some (Some e, s')"
  by (induction links arbitrary: s) (fastforce split: option.splits)+

lemma walk_error:
  "sequentialWalkDepth n getLinks visit options r d s = Some (Some e, s') \<Longrightarrow>
   \<exists>c s1. nodeErr getLinks options c s1 = Some (Some e, s')"
proof (induction n arbitrary: r d s s')
  case 0
  then show ?case by simp
next
  case (Suc n)
  from Suc.prems show ?case
  proof (cases rule: walk_SucE)
    case (links s3)
    from walkLinks_error [OF links(3)] show ?thesis using Suc.IH by blast
  qed auto
qed

section \<open>Fuel and invariants\<close>

text \<open>More stack never changes a result, so the result of a walk does not depend on it.\<close>

lemma walkLinks_mono:
  assumes "\<And>c s x. walk c s = Some x \<Longrightarrow> walk' c s = Some x" and "walkLinks walk links s = Some x"
  shows "walkLinks walk' links s = Some x"
  using assms(2)
proof (induction links arbitrary: s)
  case (Cons c links)
  then obtain e s1 where c: "walk c s = Some (e, s1)" by (auto split: option.splits)
  with assms(1) have "walk' c s = Some (e, s1)" by blast
  with c Cons show ?case by (cases e) auto
qed simp

lemma walk_fuel_Suc:
  "sequentialWalkDepth n getLinks visit options r d s = Some x \<Longrightarrow>
   sequentialWalkDepth (Suc n) getLinks visit options r d s = Some x"
proof (induction n arbitrary: r d s x)
  case 0
  then show ?case by simp
next
  case (Suc n)
  from Suc.prems show ?case
  proof (cases rule: walk_SucE)
    case (links s3)
    have "walkLinks (\<lambda>lnk. sequentialWalkDepth (Suc n) getLinks visit options lnk (d + 1))
        (fst (fst (getLinks r (snd (enterNode visit options r d s))))) s3 = Some x"
      by (rule walkLinks_mono [OF Suc.IH links(3)])
    with links(1,2) show ?thesis by (subst walk_frame) simp
  qed (subst walk_frame, simp)+
qed

lemma walk_fuel_unique:
  assumes "sequentialWalkDepth m getLinks visit options r d s = Some x"
    and "sequentialWalkDepth n getLinks visit options r d s = Some y"
  shows "x = y"
proof -
  have more: "sequentialWalkDepth (k + j) getLinks visit options r d s = Some z"
    if "sequentialWalkDepth k getLinks visit options r d s = Some z" for k j z
    using that by (induction j) (auto simp del: sequentialWalkDepth.simps intro: walk_fuel_Suc)
  show ?thesis using more [OF assms(1), of n] more [OF assms(2), of m] by (simp add: add.commute)
qed

text \<open>A property of the state that visits, fetches and handlers keep is kept by the walk.\<close>

lemma walkLinks_inv:
  assumes "\<And>c s e s'. I s \<Longrightarrow> walk c s = Some (e, s') \<Longrightarrow> I s'"
    and "I s" and "walkLinks walk links s = Some (e, s')"
  shows "I s'"
  using assms(2,3)
proof (induction links arbitrary: s)
  case (Cons c links)
  then obtain e1 s1 where c: "walk c s = Some (e1, s1)" by (auto split: option.splits)
  then have "I s1" using assms(1) Cons.prems(1) by blast
  with c Cons show ?case by (cases e1) auto
qed simp

lemma walk_inv:
  assumes "\<And>c d s. I s \<Longrightarrow> I (snd (visit c d s))" and "\<And>c s. I s \<Longrightarrow> I (snd (getLinks c s))"
    and "\<And>c e s e' s'. I s \<Longrightarrow> handleErr options c e s = Some (e', s') \<Longrightarrow> I s'"
    and "I s" and "sequentialWalkDepth n getLinks visit options r d s = Some (e, s')"
  shows "I s'"
  using assms(4,5)
proof (induction n arbitrary: r d s e s')
  case 0
  then show ?case by simp
next
  case (Suc n)
  have I1: "I (snd (enterNode visit options r d s))" using Suc.prems(1) assms(1) by simp
  note I2 = assms(3) [OF assms(2) [OF I1]]
  from Suc.prems(2) show ?case
  proof (cases rule: walk_SucE)
    case refused
    with I1 show ?thesis by simp
  next
    case (failed e s3)
    with I2 show ?thesis by blast
  next
    case (links s3)
    show ?thesis by (rule walkLinks_inv [of I, OF Suc.IH I2 [OF links(2)] links(3)])
  qed
qed

text \<open>
  Two link functions whose links and handled errors agree on the states and CIDs a walk meets
  give the same walk: \<open>I\<close> holds of those states, \<open>N\<close> contains those CIDs.
\<close>

lemma walkLinks_cong_on:
  assumes "\<And>c s. c \<in> set links \<Longrightarrow> I s \<Longrightarrow> walk' c s = walk c s \<and> (\<forall>e s'. walk c s = Some (e, s') \<longrightarrow> I s')" and "I s"
  shows "walkLinks walk' links s = walkLinks walk links s \<and> (\<forall>e s'. walkLinks walk links s = Some (e, s') \<longrightarrow> I s')"
  using assms
proof (induction links arbitrary: s)
  case (Cons c links)
  show ?case
  proof (cases "walk c s")
    case None
    then show ?thesis using Cons.prems by simp
  next
    case (Some x)
    obtain e1 s1 where x: "x = (e1, s1)" by (cases x)
    then have "I s1" "walk' c s = Some (e1, s1)" using Cons.prems(1) [of c s] Cons.prems(2) Some by auto
    then show ?thesis using Cons.IH [of s1] Cons.prems(1) Some x by (cases e1) auto
  qed
qed simp

lemma walk_cong_handled:
  assumes "\<And>c s. c \<in> N \<Longrightarrow> I s \<Longrightarrow> fst (fst (getLinks' c s)) = fst (fst (getLinks c s)) \<and> set (fst (fst (getLinks c s))) \<subseteq> N
      \<and> nodeErr getLinks' options c s = nodeErr getLinks options c s"
    and "\<And>c s e s'. c \<in> N \<Longrightarrow> I s \<Longrightarrow> nodeErr getLinks options c s = Some (e, s') \<Longrightarrow> I s'"
    and "\<And>c d s. I s \<Longrightarrow> I (snd (visit c d s))" and "r \<in> N" and "I s"
  shows "sequentialWalkDepth n getLinks' visit options r d s = sequentialWalkDepth n getLinks visit options r d s
    \<and> (\<forall>e s'. sequentialWalkDepth n getLinks visit options r d s = Some (e, s') \<longrightarrow> I s')"
  using assms(4,5)
proof (induction n arbitrary: r d s)
  case 0
  then show ?case by simp
next
  case (Suc n)
  let ?s1 = "snd (enterNode visit options r d s)"
  have I1: "I ?s1" using Suc.prems(2) assms(3) by simp
  note g = assms(1) [OF Suc.prems(1) I1]
  have links: "walkLinks (\<lambda>lnk. sequentialWalkDepth n getLinks' visit options lnk (d + 1)) (fst (fst (getLinks r ?s1))) s3 =
      walkLinks (\<lambda>lnk. sequentialWalkDepth n getLinks visit options lnk (d + 1)) (fst (fst (getLinks r ?s1))) s3 \<and>
      (\<forall>e s'. walkLinks (\<lambda>lnk. sequentialWalkDepth n getLinks visit options lnk (d + 1)) (fst (fst (getLinks r ?s1))) s3 = Some (e, s')
         \<longrightarrow> I s')" if "I s3" for s3
    by (rule walkLinks_cong_on [of _ I]) (use g Suc.IH that in blast)+
  show ?case
  proof (cases "fst (enterNode visit options r d s)")
    case False
    then show ?thesis using I1 by (simp add: walk_frame del: sequentialWalkDepth.simps)
  next
    case True
    have same: "nodeErr getLinks' options r ?s1 = nodeErr getLinks options r ?s1" "fst (fst (getLinks' r ?s1)) = fst (fst (getLinks r ?s1))"
      using g by blast+
    show ?thesis
    proof (cases "nodeErr getLinks options r ?s1")
      case None
      then show ?thesis unfolding walk_frame same using True by simp
    next
      case (Some x)
      obtain e s3 where x: "x = (e, s3)" by (cases x)
      then have "I s3" using assms(2) [OF Suc.prems(1) I1] Some by blast
      then show ?thesis unfolding walk_frame same using True Some x links [of s3] by (cases e) simp_all
    qed
  qed
qed

lemma walk_cong_on:
  assumes "\<And>c s. c \<in> N \<Longrightarrow> I s \<Longrightarrow> getLinks' c s = getLinks c s \<and> set (fst (fst (getLinks c s))) \<subseteq> N \<and> I (snd (getLinks c s))"
    and "\<And>c d s. I s \<Longrightarrow> I (snd (visit c d s))"
    and "\<And>c e s e' s'. I s \<Longrightarrow> handleErr options c e s = Some (e', s') \<Longrightarrow> I s'" and "r \<in> N" and "I s"
  shows "sequentialWalkDepth n getLinks' visit options r d s = sequentialWalkDepth n getLinks visit options r d s
    \<and> (\<forall>e s'. sequentialWalkDepth n getLinks visit options r d s = Some (e, s') \<longrightarrow> I s')"
proof (rule walk_cong_handled [where N = N and I = I])
  fix c s e s' assume "c \<in> N" "I s" "nodeErr getLinks options c s = Some (e, s')"
  then show "I s'" using assms(1,3) by blast
qed (use assms in auto)

lemma dfs_distinct: "dfs succs vs stack vs' \<Longrightarrow> distinct vs \<Longrightarrow> distinct vs'"
  by (induction rule: dfs.induct) auto

end
