(* ===== verification/Visitors.thy ===== *)
theory Visitors
  imports SeqWalk
begin

text \<open>
  The visit functions of the repository with the state their closures capture: the
  progress tracker (mdag.go, lines 447 to 471), the visit functions of
  \<open>FetchGraphWithDepthLimit\<close> (mdag.go, lines 192 to 227) and of \<open>basicDAGWalker\<close>
  (bitswap.go, lines 301 to 321), and \<open>GetLinksDirect\<close> (mdag.go, lines 115 to 129). Each
  set-based visit function is shown to keep the visitor contract of the walks.
\<close>

section \<open>Progress\<close>

record ProgressTracker =
  Total :: int

definition Increment :: "ProgressTracker \<Rightarrow> ProgressTracker" where
  "Increment p = p\<lparr>Total := Total p + 1\<rparr>"

definition Value :: "ProgressTracker \<Rightarrow> int" where
  "Value p = Total p"

definition zeroTracker :: ProgressTracker where
  "zeroTracker = \<lparr>Total = 0\<rparr>"

lemmas tracker_defs = Increment_def Value_def zeroTracker_def

section \<open>Links of a node\<close>

text \<open>
  \<open>GetLinksDirect\<close> fetches the node and returns its links. The node getter and the node
  type are outside the repository: \<open>get\<close> fetches the node of a CID (it may change the
  environment \<open>'e\<close>) and \<open>nodeLinks\<close> is \<open>Node.Links()\<close> with the CID of each link.
\<close>

type_synonym ('c, 'n, 'e) nodeGet = "'c \<Rightarrow> 'e \<Rightarrow> (goerr + 'n) \<times> 'e"

definition GetLinksDirect :: "('n \<Rightarrow> 'c list) \<Rightarrow> ('c, 'n, 'e) nodeGet \<Rightarrow> ('c, 'e) getLinks" where
  "GetLinksDirect nodeLinks get c e =
     (case get c e of
        (Inl err, e') \<Rightarrow>
          (([], Some (if err = ErrBlockserviceNotFound then ErrFormatNotFound else err)), e')
      | (Inr nd, e') \<Rightarrow> ((nodeLinks nd, None), e'))"

section \<open>Fetching with a depth limit\<close>

text \<open>
  The state of \<open>FetchGraphWithDepthLimit\<close>: the map from CIDs to the least depth seen so
  far, the tracker of the context (nil when there is none), and the environment of the
  node getter.
\<close>

record ('c, 'e) fetchState =
  fsSet :: "'c \<rightharpoonup> int"
  fsTracker :: "ProgressTracker option"
  fsEnv :: 'e

definition fetchVisit :: "int \<Rightarrow> ('c, ('c, 'e) fetchState) visitFun" where
  "fetchVisit depthLim c depth s =
     (let oldDepth = fsSet s c
      in if (oldDepth \<noteq> None \<and> depthLim < 0) \<or> (depthLim \<ge> 0 \<and> depth > depthLim) then (False, s)
         else if (case oldDepth of None \<Rightarrow> True | Some d \<Rightarrow> d > depth)
         then (True, s\<lparr>fsSet := (fsSet s)(c \<mapsto> depth)\<rparr>)
         else (False, s))"

definition fetchVisitProgress :: "int \<Rightarrow> ('c, ('c, 'e) fetchState) visitFun" where
  "fetchVisitProgress depthLim c depth s =
     (case fetchVisit depthLim c depth s of
        (True, s') \<Rightarrow> (True, s'\<lparr>fsTracker := map_option Increment (fsTracker s')\<rparr>)
      | (False, s') \<Rightarrow> (False, s'))"

definition fetchGraphVisit :: "int \<Rightarrow> ('c, ('c, 'e) fetchState) visitFun" where
  "fetchGraphVisit depthLim c depth s =
     (if fsTracker s = None then fetchVisit depthLim c depth s
      else fetchVisitProgress depthLim c depth s)"

definition fetchLinks ::
    "('n \<Rightarrow> 'c list) \<Rightarrow> ('c, 'n, 'e) nodeGet \<Rightarrow> ('c, ('c, 'e) fetchState) getLinks" where
  "fetchLinks nodeLinks get c s =
     (let (r, e') = GetLinksDirect nodeLinks get c (fsEnv s) in (r, s\<lparr>fsEnv := e'\<rparr>))"

definition fetchInit :: "ProgressTracker option \<Rightarrow> 'e \<Rightarrow> ('c, 'e) fetchState" where
  "fetchInit tracker env = \<lparr>fsSet = Map.empty, fsTracker = tracker, fsEnv = env\<rparr>"

section \<open>Walking with a CID set\<close>

text \<open>
  \<open>cid.Set\<close> is a type of the package go-cid. What the code relies on: a new set is empty,
  \<open>Visit\<close> adds a CID and says whether it was new, \<open>Has\<close> tests for one.
\<close>

locale cid_set =
  fixes csNew :: 'cs and csVisit :: "'c \<Rightarrow> 'cs \<Rightarrow> bool \<times> 'cs"
    and csHas :: "'cs \<Rightarrow> 'c \<Rightarrow> bool" and csElems :: "'cs \<Rightarrow> 'c set"
  assumes cs_new: "csElems csNew = {}"
    and cs_visit_new: "fst (csVisit c cs) \<longleftrightarrow> c \<notin> csElems cs"
    and cs_visit_elems: "csElems (snd (csVisit c cs)) = insert c (csElems cs)"
    and cs_has: "csHas cs c \<longleftrightarrow> c \<in> csElems cs"

text \<open>The state of \<open>basicDAGWalker\<close>'s walk: the set, the tracker, the getter's environment.\<close>

record ('cs, 'e) walkerState =
  wsSet :: 'cs
  wsPt :: ProgressTracker
  wsEnv :: 'e

definition visitProgress :: "('c \<Rightarrow> 'cs \<Rightarrow> bool \<times> 'cs) \<Rightarrow> 'c \<Rightarrow> ('cs, 'e) walkerState
    \<Rightarrow> bool \<times> ('cs, 'e) walkerState" where
  "visitProgress csVisit c s =
     (let (new, cs') = csVisit c (wsSet s)
      in if new then (True, s\<lparr>wsSet := cs', wsPt := Increment (wsPt s)\<rparr>)
         else (False, s\<lparr>wsSet := cs'\<rparr>))"

text \<open>\<open>Walk\<close> (mdag.go, line 398) turns a visit function without a depth into one with it.\<close>

definition visitDepth :: "('c \<Rightarrow> 's \<Rightarrow> bool \<times> 's) \<Rightarrow> ('c, 's) visitFun" where
  "visitDepth visit c depth s = visit c s"

definition walkerLinks ::
    "('n \<Rightarrow> 'c list) \<Rightarrow> ('c, 'n, 'e) nodeGet \<Rightarrow> ('c, ('cs, 'e) walkerState) getLinks" where
  "walkerLinks nodeLinks get c s =
     (let (r, e') = GetLinksDirect nodeLinks get c (wsEnv s) in (r, s\<lparr>wsEnv := e'\<rparr>))"

definition walkerInit :: "'cs \<Rightarrow> 'e \<Rightarrow> ('cs, 'e) walkerState" where
  "walkerInit csNew env = \<lparr>wsSet = csNew, wsPt = zeroTracker, wsEnv = env\<rparr>"

section \<open>The contract holds\<close>

lemma GetLinksDirect_Inr:
  "get c e = (Inr nd, e') \<Longrightarrow> GetLinksDirect nodeLinks get c e = ((nodeLinks nd, None), e')"
  by (simp add: GetLinksDirect_def)

lemma GetLinksDirect_Inl:
  "get c e = (Inl err, e') \<Longrightarrow> GetLinksDirect nodeLinks get c e =
     (([], Some (if err = ErrBlockserviceNotFound then ErrFormatNotFound else err)), e')"
  by (simp add: GetLinksDirect_def)

lemma fetchLinks_proj [simp]:
  "fst (fetchLinks nodeLinks get c s) = fst (GetLinksDirect nodeLinks get c (fsEnv s))"
  "fsSet (snd (fetchLinks nodeLinks get c s)) = fsSet s"
  "fsTracker (snd (fetchLinks nodeLinks get c s)) = fsTracker s"
  by (simp_all add: fetchLinks_def split_beta)

lemma walkerLinks_proj [simp]:
  "fst (walkerLinks nodeLinks get c s) = fst (GetLinksDirect nodeLinks get c (wsEnv s))"
  "wsSet (snd (walkerLinks nodeLinks get c s)) = wsSet s"
  "wsPt (snd (walkerLinks nodeLinks get c s)) = wsPt s"
  by (simp_all add: walkerLinks_def split_beta)

lemma fetchVisit_proj:
  "fst (fetchVisit depthLim c d s) \<longleftrightarrow>
     (depthLim < 0 \<or> d \<le> depthLim) \<and>
     (case fsSet s c of None \<Rightarrow> True | Some d0 \<Rightarrow> depthLim \<ge> 0 \<and> d < d0)"
  "snd (fetchVisit depthLim c d s) =
     (if fst (fetchVisit depthLim c d s) then s\<lparr>fsSet := (fsSet s)(c \<mapsto> d)\<rparr> else s)"
  by (auto simp: fetchVisit_def Let_def split: option.splits)

lemma fetchGraphVisit_proj [simp]:
  "fst (fetchGraphVisit depthLim c d s) = fst (fetchVisit depthLim c d s)"
  "fsSet (snd (fetchGraphVisit depthLim c d s)) = fsSet (snd (fetchVisit depthLim c d s))"
  by (auto simp: fetchGraphVisit_def fetchVisitProgress_def split: prod.splits bool.splits)

lemma fetchGraphVisit_tracker:
  "fsTracker (snd (fetchGraphVisit depthLim c d s)) =
     (if fst (fetchVisit depthLim c d s) then map_option Increment (fsTracker s) else fsTracker s)"
  using fetchVisit_proj(2) [of depthLim c d s]
  by (auto simp: fetchGraphVisit_def fetchVisitProgress_def split: prod.splits bool.splits)

text \<open>Without a depth limit the map is a visited set, and the visit function keeps the
  contract of a visitor.\<close>

interpretation fetch_all: visitor "fetchGraphVisit (-1)" "\<lambda>s. dom (fsSet s)"
  by unfold_locales (auto simp: fetchVisit_proj split: option.splits if_splits)

context cid_set
begin

lemma visitProgress_new: "fst (visitProgress csVisit c s) \<longleftrightarrow> c \<notin> csElems (wsSet s)"
  using cs_visit_new [of c "wsSet s"] by (simp add: visitProgress_def split_beta)

lemma visitProgress_elems:
  "csElems (wsSet (snd (visitProgress csVisit c s))) = insert c (csElems (wsSet s))"
  using cs_visit_elems [of c "wsSet s"] by (simp add: visitProgress_def split_beta)

lemma visitProgress_total:
  "Total (wsPt (snd (visitProgress csVisit c s))) =
     Total (wsPt s) + (if c \<in> csElems (wsSet s) then 0 else 1)"
  using cs_visit_new [of c "wsSet s"] by (simp add: visitProgress_def split_beta tracker_defs)

end

text \<open>\<open>visitProgress\<close> of \<open>basicDAGWalker\<close> keeps the visitor contract for every CID set.\<close>

sublocale cid_set \<subseteq> progress: visitor "visitDepth (visitProgress csVisit)" "\<lambda>s. csElems (wsSet s)"
  by unfold_locales (simp_all add: visitDepth_def visitProgress_new visitProgress_elems)

text \<open>The CID set of HOL sets, on which the properties are instantiated.\<close>

definition setVisit :: "'c \<Rightarrow> 'c set \<Rightarrow> bool \<times> 'c set" where
  "setVisit c S = (c \<notin> S, insert c S)"

definition setHas :: "'c set \<Rightarrow> 'c \<Rightarrow> bool" where
  "setHas S c = (c \<in> S)"

interpretation hol_set: cid_set "{}" setVisit setHas "\<lambda>S. S"
  by unfold_locales (simp_all add: setVisit_def setHas_def)

end
