(* ===== verification/ParWalk.thy ===== *)
theory ParWalk
  imports Visitors
begin

text \<open>
  The concurrent walk of mdag.go (\<open>parallelWalkDepth\<close>, lines 473 to 596) as a step relation
  over the main loop and its workers, and \<open>WalkDepth\<close> and \<open>Walk\<close> (lines 397 to 420),
  which choose between the two walks. A step is one rendezvous on an unbuffered channel,
  one call of \<open>visit\<close> under its mutex, one call of \<open>getLinks\<close> with the error handling
  behind it, one taken \<open>Done\<close> branch, or the end of the deferred calls. The ticker only
  logs and has no step.
\<close>

section \<open>The machine\<close>

record 'c cidDepth =
  cdCid :: 'c
  cdDepth :: int

text \<open>
  Where a worker stands: at the \<open>range feed\<close>, holding a received item before \<open>visit\<close>,
  before \<open>getLinks\<close>, at one of the three selects, or after its return.
\<close>

datatype 'c worker =
    AtFeed
  | AtVisit "'c cidDepth"
  | AtFetch "'c cidDepth"
  | AtOut "'c list" int
  | AtErr goerr
  | AtDone
  | Exited

text \<open>
  The main goroutine is in its loop, or has evaluated a return value and runs the deferred
  calls (\<open>close(feed)\<close>, \<open>cancel()\<close>, \<open>wg.Wait()\<close>), or has returned.
\<close>

datatype phase = Running | Returning "goerr option" | Returned "goerr option"

text \<open>
  \<open>parSend\<close> is \<open>send != nil\<close>. \<open>parVisits\<close> is a history variable: the calls of \<open>visit\<close>
  that returned true, in order; no step reads it.
\<close>

record ('c, 's) parState =
  parWorkers :: "'c worker list"
  parNext :: "'c cidDepth"
  parSend :: bool
  parTodo :: "'c cidDepth list"
  parInProgress :: int
  parPhase :: phase
  parCtxDone :: bool
  parVst :: 's
  parVisits :: "'c cidDepth list"

definition parInit :: "'c \<Rightarrow> ('c, 's) walkOptions \<Rightarrow> 's \<Rightarrow> ('c, 's) parState" where
  "parInit root options s =
     \<lparr>parWorkers = replicate (nat (optConcurrency options)) AtFeed,
      parNext = \<lparr>cdCid = root, cdDepth = 0\<rparr>, parSend = True, parTodo = [], parInProgress = 0,
      parPhase = Running, parCtxDone = False, parVst = s, parVisits = []\<rparr>"

text \<open>\<open>fetchersCtx.Done()\<close>: the walk's own context is cancelled with its parent, or by the
  deferred \<open>cancel()\<close>.\<close>

definition fetchersDone :: "('c, 's) parState \<Rightarrow> bool" where
  "fetchersDone p \<longleftrightarrow> parCtxDone p \<or> parPhase p \<noteq> Running"

definition setWorker :: "nat \<Rightarrow> 'c worker \<Rightarrow> ('c, 's) parState \<Rightarrow> ('c, 's) parState" where
  "setWorker i w p = p\<lparr>parWorkers := (parWorkers p)[i := w]\<rparr>"

text \<open>\<open>case send <- next\<close> (lines 559 to 567); \<open>undef\<close> is the CID of \<open>cidDepth{}\<close>.\<close>

definition takeNext :: "'c \<Rightarrow> ('c, 's) parState \<Rightarrow> ('c, 's) parState" where
  "takeNext undef p =
     (case parTodo p of
        cd # rest \<Rightarrow> p\<lparr>parInProgress := parInProgress p + 1, parNext := cd, parTodo := rest\<rparr>
      | [] \<Rightarrow> p\<lparr>parInProgress := parInProgress p + 1,
               parNext := \<lparr>cdCid = undef, cdDepth = 0\<rparr>, parSend := False\<rparr>)"

text \<open>\<open>case linksDepth := <-out\<close> (lines 575 to 588).\<close>

definition enqueue :: "('c \<Rightarrow> bool) \<Rightarrow> int \<Rightarrow> 'c \<Rightarrow> ('c, 's) parState \<Rightarrow> ('c, 's) parState" where
  "enqueue defined depth lnk p =
     (if \<not> defined (cdCid (parNext p))
      then p\<lparr>parNext := \<lparr>cdCid = lnk, cdDepth = depth\<rparr>, parSend := True\<rparr>
      else p\<lparr>parTodo := parTodo p @ [\<lparr>cdCid = lnk, cdDepth = depth\<rparr>]\<rparr>)"

definition enqueueAll :: "('c \<Rightarrow> bool) \<Rightarrow> 'c list \<Rightarrow> int \<Rightarrow> ('c, 's) parState \<Rightarrow> ('c, 's) parState" where
  "enqueueAll defined links depth p = fold (enqueue defined depth) links p"

text \<open>\<open>case <-done\<close> (lines 570 to 574).\<close>

definition noteDone :: "('c \<Rightarrow> bool) \<Rightarrow> ('c, 's) parState \<Rightarrow> ('c, 's) parState" where
  "noteDone defined p =
     (let n = parInProgress p - 1
      in p\<lparr>parInProgress := n,
           parPhase := if n = 0 \<and> \<not> defined (cdCid (parNext p)) then Returning None
                       else parPhase p\<rparr>)"

text \<open>The worker between the receive and the fetch (lines 500 to 512).\<close>

definition callVisit :: "('c, 's) visitFun \<Rightarrow> ('c, 's) walkOptions \<Rightarrow> nat \<Rightarrow> 'c cidDepth
    \<Rightarrow> ('c, 's) parState \<Rightarrow> ('c, 's) parState" where
  "callVisit visit options i cd p =
     (if \<not> (optSkipRoot options \<and> cdDepth cd = 0)
      then let (shouldVisit, s') = visit (cdCid cd) (cdDepth cd) (parVst p)
           in setWorker i (if shouldVisit then AtFetch cd else AtDone)
                (p\<lparr>parVst := s',
                   parVisits := if shouldVisit then parVisits p @ [cd] else parVisits p\<rparr>)
      else setWorker i (AtFetch cd) p)"

text \<open>
  The fetch with its error handling (lines 515 to 530): the handler is called with the
  root of the walk, not with the CID that failed.
\<close>

definition fetchLinksOf :: "('c, 's) getLinks \<Rightarrow> ('c, 's) walkOptions \<Rightarrow> 'c \<Rightarrow> 'c cidDepth \<Rightarrow> 's
    \<Rightarrow> ('c worker \<times> 's) option" where
  "fetchLinksOf getLinks options root cd s =
     (let ((links, err), s1) = getLinks (cdCid cd) s
      in case handleErr options root err s1 of
           None \<Rightarrow> None
         | Some (Some e, s2) \<Rightarrow> Some (AtErr e, s2)
         | Some (None, s2) \<Rightarrow> Some (AtOut links (cdDepth cd + 1), s2))"

inductive parStep :: "('c \<Rightarrow> bool) \<Rightarrow> 'c \<Rightarrow> ('c, 's) getLinks \<Rightarrow> ('c, 's) visitFun \<Rightarrow>
    ('c, 's) walkOptions \<Rightarrow> 'c \<Rightarrow> ('c, 's) parState \<Rightarrow> ('c, 's) parState \<Rightarrow> bool"
  for defined :: "'c \<Rightarrow> bool" and undef :: 'c and getLinks :: "('c, 's) getLinks"
    and visit :: "('c, 's) visitFun" and options :: "('c, 's) walkOptions" and root :: 'c where
  feed: "parPhase p = Running \<Longrightarrow> parSend p \<Longrightarrow> i < length (parWorkers p) \<Longrightarrow>
    parWorkers p ! i = AtFeed \<Longrightarrow>
    parStep defined undef getLinks visit options root p
      (takeNext undef (setWorker i (AtVisit (parNext p)) p))"
| visit: "i < length (parWorkers p) \<Longrightarrow> parWorkers p ! i = AtVisit cd \<Longrightarrow>
    parStep defined undef getLinks visit options root p (callVisit visit options i cd p)"
| fetch: "i < length (parWorkers p) \<Longrightarrow> parWorkers p ! i = AtFetch cd \<Longrightarrow>
    fetchLinksOf getLinks options root cd (parVst p) = Some (w, s') \<Longrightarrow>
    parStep defined undef getLinks visit options root p (setWorker i w (p\<lparr>parVst := s'\<rparr>))"
| out: "parPhase p = Running \<Longrightarrow> i < length (parWorkers p) \<Longrightarrow> parWorkers p ! i = AtOut links d \<Longrightarrow>
    parStep defined undef getLinks visit options root p
      (enqueueAll defined links d (setWorker i AtDone p))"
| out_cancelled: "fetchersDone p \<Longrightarrow> i < length (parWorkers p) \<Longrightarrow> parWorkers p ! i = AtOut links d \<Longrightarrow>
    parStep defined undef getLinks visit options root p (setWorker i Exited p)"
| err: "parPhase p = Running \<Longrightarrow> i < length (parWorkers p) \<Longrightarrow> parWorkers p ! i = AtErr e \<Longrightarrow>
    parStep defined undef getLinks visit options root p
      ((setWorker i Exited p)\<lparr>parPhase := Returning (Some e)\<rparr>)"
| err_cancelled: "fetchersDone p \<Longrightarrow> i < length (parWorkers p) \<Longrightarrow> parWorkers p ! i = AtErr e \<Longrightarrow>
    parStep defined undef getLinks visit options root p (setWorker i Exited p)"
| notify: "parPhase p = Running \<Longrightarrow> i < length (parWorkers p) \<Longrightarrow> parWorkers p ! i = AtDone \<Longrightarrow>
    parStep defined undef getLinks visit options root p (noteDone defined (setWorker i AtFeed p))"
| notify_cancelled: "fetchersDone p \<Longrightarrow> i < length (parWorkers p) \<Longrightarrow> parWorkers p ! i = AtDone \<Longrightarrow>
    parStep defined undef getLinks visit options root p (setWorker i AtFeed p)"
| feed_closed: "parPhase p \<noteq> Running \<Longrightarrow> i < length (parWorkers p) \<Longrightarrow> parWorkers p ! i = AtFeed \<Longrightarrow>
    parStep defined undef getLinks visit options root p (setWorker i Exited p)"
| ctx_done: "parPhase p = Running \<Longrightarrow> parCtxDone p \<Longrightarrow>
    parStep defined undef getLinks visit options root p (p\<lparr>parPhase := Returning (Some ErrCtxDone)\<rparr>)"
| wait: "parPhase p = Returning r \<Longrightarrow> set (parWorkers p) \<subseteq> {Exited} \<Longrightarrow>
    parStep defined undef getLinks visit options root p (p\<lparr>parPhase := Returned r\<rparr>)"

text \<open>The environment may cancel the context at any time: the only step that is not the
  walk's own.\<close>

inductive parReach :: "('c \<Rightarrow> bool) \<Rightarrow> 'c \<Rightarrow> ('c, 's) getLinks \<Rightarrow> ('c, 's) visitFun \<Rightarrow>
    ('c, 's) walkOptions \<Rightarrow> 'c \<Rightarrow> 's \<Rightarrow> ('c, 's) parState \<Rightarrow> bool"
  for defined :: "'c \<Rightarrow> bool" and undef :: 'c and getLinks :: "('c, 's) getLinks"
    and visit :: "('c, 's) visitFun" and options :: "('c, 's) walkOptions" and root :: 'c and s :: 's where
  start: "parReach defined undef getLinks visit options root s (parInit root options s)"
| step: "parReach defined undef getLinks visit options root s p \<Longrightarrow>
    parStep defined undef getLinks visit options root p p' \<Longrightarrow>
    parReach defined undef getLinks visit options root s p'"
| cancel: "parReach defined undef getLinks visit options root s p \<Longrightarrow>
    parReach defined undef getLinks visit options root s (p\<lparr>parCtxDone := True\<rparr>)"

text \<open>
  \<open>WalkDepth\<close> applies the options in order and runs the parallel walk when more than one
  worker is asked for, the sequential one otherwise. The relation holds between the
  state before, the returned error and the state after.
\<close>

inductive WalkDepth :: "('c \<Rightarrow> bool) \<Rightarrow> 'c \<Rightarrow> ('c, 's) getLinks \<Rightarrow> 'c \<Rightarrow> ('c, 's) visitFun \<Rightarrow>
    ('c, 's) WalkOption list \<Rightarrow> 's \<Rightarrow> goerr option \<Rightarrow> 's \<Rightarrow> bool"
  for defined :: "'c \<Rightarrow> bool" and undef :: 'c and getLinks :: "('c, 's) getLinks" and c :: 'c
    and visit :: "('c, 's) visitFun" and options :: "('c, 's) WalkOption list" where
  parallel: "optConcurrency (applyOptions options) > 1 \<Longrightarrow>
    parReach defined undef getLinks visit (applyOptions options) c s p \<Longrightarrow>
    parPhase p = Returned r \<Longrightarrow>
    WalkDepth defined undef getLinks c visit options s r (parVst p)"
| sequential: "\<not> optConcurrency (applyOptions options) > 1 \<Longrightarrow>
    sequentialWalkDepth n getLinks visit (applyOptions options) c 0 s = Some (r, s') \<Longrightarrow>
    WalkDepth defined undef getLinks c visit options s r s'"

definition Walk :: "('c \<Rightarrow> bool) \<Rightarrow> 'c \<Rightarrow> ('c, 's) getLinks \<Rightarrow> 'c \<Rightarrow> ('c \<Rightarrow> 's \<Rightarrow> bool \<times> 's) \<Rightarrow>
    ('c, 's) WalkOption list \<Rightarrow> 's \<Rightarrow> goerr option \<Rightarrow> 's \<Rightarrow> bool" where
  "Walk defined undef getLinks c visit options =
     WalkDepth defined undef getLinks c (visitDepth visit) options"

inductive_cases WalkDepthE: "WalkDepth defined undef getLinks c visit options s r s'"

end
