(* ===== verification/ParWalkInv.thy ===== *)
theory ParWalkInv
  imports ParWalk
begin

text \<open>
  The invariants of the concurrent walk. The walk is correct for every visit function that
  \<^emph>\<open>covers\<close> what it is asked about: after \<open>visit c d\<close> the pair is covered, and covered
  pairs stay covered. Counting busy workers shows that a nil return finds nothing pending,
  so everything the accepted calls link to is covered; the path facts show that nothing
  else was ever visited.
\<close>

section \<open>Fields\<close>

lemma setWorker_fields [simp]:
  "parWorkers (setWorker i w p) = (parWorkers p)[i := w]"
  "parNext (setWorker i w p) = parNext p" "parSend (setWorker i w p) = parSend p"
  "parTodo (setWorker i w p) = parTodo p" "parInProgress (setWorker i w p) = parInProgress p"
  "parPhase (setWorker i w p) = parPhase p" "parCtxDone (setWorker i w p) = parCtxDone p"
  "parVst (setWorker i w p) = parVst p" "parVisits (setWorker i w p) = parVisits p"
  by (simp_all add: setWorker_def)

lemma parInit_running [simp]:
  "parPhase (parInit root options s) = Running" "parCtxDone (parInit root options s) = False"
  by (simp_all add: parInit_def)

lemma takeNext_fields [simp]:
  "parWorkers (takeNext undef p) = parWorkers p"
  "parInProgress (takeNext undef p) = parInProgress p + 1"
  "parPhase (takeNext undef p) = parPhase p" "parCtxDone (takeNext undef p) = parCtxDone p"
  "parVst (takeNext undef p) = parVst p" "parVisits (takeNext undef p) = parVisits p"
  by (simp_all add: takeNext_def split: list.splits)

lemma noteDone_fields [simp]:
  "parWorkers (noteDone defined p) = parWorkers p"
  "parNext (noteDone defined p) = parNext p" "parSend (noteDone defined p) = parSend p"
  "parTodo (noteDone defined p) = parTodo p"
  "parInProgress (noteDone defined p) = parInProgress p - 1"
  "parPhase (noteDone defined p) =
     (if parInProgress p = 1 \<and> \<not> defined (cdCid (parNext p)) then Returning None else parPhase p)"
  "parCtxDone (noteDone defined p) = parCtxDone p"
  "parVst (noteDone defined p) = parVst p" "parVisits (noteDone defined p) = parVisits p"
  by (simp_all add: noteDone_def Let_def)

lemma enqueue_fields [simp]:
  "parWorkers (enqueue defined d k p) = parWorkers p"
  "parInProgress (enqueue defined d k p) = parInProgress p"
  "parPhase (enqueue defined d k p) = parPhase p" "parCtxDone (enqueue defined d k p) = parCtxDone p"
  "parVst (enqueue defined d k p) = parVst p" "parVisits (enqueue defined d k p) = parVisits p"
  by (simp_all add: enqueue_def)

lemma enqueueAll_Nil [simp]: "enqueueAll defined [] d p = p"
  by (simp add: enqueueAll_def)

lemma enqueueAll_Cons [simp]:
  "enqueueAll defined (k # ks) d p = enqueueAll defined ks d (enqueue defined d k p)"
  by (simp add: enqueueAll_def)

lemma enqueueAll_fields [simp]:
  "parWorkers (enqueueAll defined ks d p) = parWorkers p"
  "parInProgress (enqueueAll defined ks d p) = parInProgress p"
  "parPhase (enqueueAll defined ks d p) = parPhase p"
  "parCtxDone (enqueueAll defined ks d p) = parCtxDone p"
  "parVst (enqueueAll defined ks d p) = parVst p"
  "parVisits (enqueueAll defined ks d p) = parVisits p"
  by (induction ks arbitrary: p) simp_all

section \<open>What is queued\<close>

text \<open>The items the main loop holds, and those a worker holds before its visit.\<close>

definition queued :: "('c, 's) parState \<Rightarrow> 'c cidDepth set" where
  "queued p = (if parSend p then {parNext p} else {}) \<union> set (parTodo p)"

definition pending :: "('c, 's) parState \<Rightarrow> 'c cidDepth set" where
  "pending p = queued p \<union> {cd. AtVisit cd \<in> set (parWorkers p)}"

text \<open>\<open>send\<close> is the feed exactly when \<open>next\<close> is a defined CID, and then only are there
  further items.\<close>

definition wfQueue :: "('c \<Rightarrow> bool) \<Rightarrow> ('c, 's) parState \<Rightarrow> bool" where
  "wfQueue defined p \<longleftrightarrow>
     parSend p = defined (cdCid (parNext p)) \<and> (\<not> parSend p \<longrightarrow> parTodo p = []) \<and>
     (\<forall>cd \<in> set (parTodo p). defined (cdCid cd))"

fun busy :: "'c worker \<Rightarrow> bool" where
  "busy AtFeed = False"
| "busy Exited = False"
| "busy _ = True"

lemma busy_iff: "busy w \<longleftrightarrow> w \<noteq> AtFeed \<and> w \<noteq> Exited"
  by (cases w) simp_all

lemma queued_setWorker [simp]: "queued (setWorker i w p) = queued p"
  by (simp add: queued_def)

lemma wfQueue_setWorker [simp]: "wfQueue defined (setWorker i w p) = wfQueue defined p"
  by (simp add: wfQueue_def)

lemma takeNext_queued:
  "parSend p \<Longrightarrow> \<not> defined undef \<Longrightarrow> wfQueue defined p \<Longrightarrow>
   insert (parNext p) (queued (takeNext undef p)) = queued p"
  by (auto simp: takeNext_def queued_def wfQueue_def split: list.splits)

lemma takeNext_wf: "parSend p \<Longrightarrow> \<not> defined undef \<Longrightarrow> wfQueue defined p \<Longrightarrow> wfQueue defined (takeNext undef p)"
  by (auto simp: takeNext_def wfQueue_def split: list.splits)

lemma enqueue_wf: "defined k \<Longrightarrow> wfQueue defined p \<Longrightarrow> wfQueue defined (enqueue defined d k p)"
  by (auto simp: enqueue_def wfQueue_def)

lemma enqueue_queued:
  "wfQueue defined p \<Longrightarrow> queued (enqueue defined d k p) = insert \<lparr>cdCid = k, cdDepth = d\<rparr> (queued p)"
  by (auto simp: enqueue_def wfQueue_def queued_def)

lemma enqueueAll_wf:
  "\<forall>k \<in> set ks. defined k \<Longrightarrow> wfQueue defined p \<Longrightarrow> wfQueue defined (enqueueAll defined ks d p)"
  by (induction ks arbitrary: p) (simp_all add: enqueue_wf)

lemma enqueueAll_queued:
  "\<forall>k \<in> set ks. defined k \<Longrightarrow> wfQueue defined p \<Longrightarrow>
   queued (enqueueAll defined ks d p) = queued p \<union> {\<lparr>cdCid = k, cdDepth = d\<rparr> | k. k \<in> set ks}"
  by (induction ks arbitrary: p) (auto simp: enqueue_wf enqueue_queued)

lemma enqueueAll_send: "parSend p \<Longrightarrow> parSend (enqueueAll defined ks d p)"
  by (induction ks arbitrary: p) (simp_all add: enqueue_def)

section \<open>Workers\<close>

lemma set_update_cases: "w \<in> set (ws[i := v]) \<Longrightarrow> w = v \<or> w \<in> set ws"
  using set_update_subset_insert [of ws i v] by blast

lemma set_update_keep: "w \<in> set ws \<Longrightarrow> w \<noteq> ws ! i \<Longrightarrow> w \<in> set (ws[i := v])"
  by (metis in_set_conv_nth length_list_update nth_list_update_neq)

lemma set_update_new: "i < length ws \<Longrightarrow> v \<in> set (ws[i := v])"
  by (rule set_update_memI)

text \<open>Paths of links with their length.\<close>

inductive pathTo :: "('c \<Rightarrow> 'c list) \<Rightarrow> 'c \<Rightarrow> 'c \<Rightarrow> int \<Rightarrow> bool" for succs :: "'c \<Rightarrow> 'c list" and r :: 'c where
  path_here: "pathTo succs r r 0"
| path_link: "pathTo succs r c d \<Longrightarrow> k \<in> set (succs c) \<Longrightarrow> pathTo succs r k (d + 1)"

lemma pathTo_reach: "pathTo succs r c d \<Longrightarrow> c \<in> reach succs r"
  by (induction rule: pathTo.induct) (auto intro: graph_intros)

lemma pathTo_nonneg: "pathTo succs r c d \<Longrightarrow> 0 \<le> d"
  by (induction rule: pathTo.induct) auto

lemma reach_pathTo: "c \<in> reach succs r \<Longrightarrow> \<exists>d. pathTo succs r c d"
proof -
  assume "c \<in> reach succs r"
  then have "(r, c) \<in> (edges succs)\<^sup>*" by (simp add: reach_def)
  then show ?thesis by induction (auto intro: pathTo.intros)
qed

section \<open>The covering contract\<close>

locale coverage =
  fixes visit :: "('c, 's) visitFun" and cov :: "'s \<Rightarrow> 'c \<Rightarrow> int \<Rightarrow> bool"
  assumes visit_cov: "cov (snd (visit c d s)) c d"
    and visit_mono: "cov s c' d' \<Longrightarrow> cov (snd (visit c d s)) c' d'"

text \<open>Every visitor covers: a CID is covered, at any depth, once it has been seen.\<close>

sublocale visitor \<subseteq> seen_cov: coverage visit "\<lambda>s c d. c \<in> seen s"
  by unfold_locales (simp_all add: visit_seen)

text \<open>
  A concurrent walk over a graph of defined CIDs. The links of a node are found, or fetching
  them gives an error; an error is not handled.
\<close>

locale par_walk = coverage visit cov
  for visit :: "('c, 's) visitFun" and cov :: "'s \<Rightarrow> 'c \<Rightarrow> int \<Rightarrow> bool" +
  fixes defined :: "'c \<Rightarrow> bool" and undef :: 'c and getLinks :: "('c, 's) getLinks"
    and succs :: "'c \<Rightarrow> 'c list" and nodes :: "'c set" and options :: "('c, 's) walkOptions" and root :: 'c
  assumes undef: "\<not> defined undef"
    and root_node: "root \<in> nodes"
    and nodes_closed: "c \<in> nodes \<Longrightarrow> set (succs c) \<subseteq> nodes"
    and nodes_defined: "c \<in> nodes \<Longrightarrow> defined c"
    and links_cases: "c \<in> nodes \<Longrightarrow> fst (getLinks c s) = (succs c, None) \<or>
      snd (fst (getLinks c s)) \<noteq> None \<and> optErrorHandler options = None"
    and links_cov: "cov (snd (getLinks c s)) = cov s"
    and no_skip: "\<not> optSkipRoot options"
begin

definition onPath :: "'c cidDepth \<Rightarrow> bool" where
  "onPath cd \<longleftrightarrow> cdCid cd \<in> nodes \<and> pathTo succs root (cdCid cd) (cdDepth cd)"

lemma onPath_child: "onPath cd \<Longrightarrow> k \<in> set (succs (cdCid cd)) \<Longrightarrow> onPath \<lparr>cdCid = k, cdDepth = cdDepth cd + 1\<rparr>"
  using nodes_closed by (auto simp: onPath_def intro: path_link)

text \<open>The errors that fetching gives.\<close>

definition reported :: "goerr \<Rightarrow> bool" where
  "reported e \<longleftrightarrow> (\<exists>c \<in> nodes. \<exists>s. snd (fst (getLinks c s)) = Some e)"

fun okWorker :: "'c cidDepth list \<Rightarrow> 'c worker \<Rightarrow> bool" where
  "okWorker visits (AtVisit cd) = onPath cd"
| "okWorker visits (AtFetch cd) = (cd \<in> set visits)"
| "okWorker visits (AtOut ls d) = (\<exists>cd \<in> set visits. ls = succs (cdCid cd) \<and> d = cdDepth cd + 1)"
| "okWorker visits (AtErr e) = reported e"
| "okWorker visits w = True"

text \<open>Nothing but paths from the root is ever queued, held or accepted.\<close>

definition pathInv :: "('c, 's) parState \<Rightarrow> bool" where
  "pathInv p \<longleftrightarrow> wfQueue defined p \<and> (\<forall>cd \<in> queued p \<union> set (parVisits p). onPath cd) \<and>
     (\<forall>w \<in> set (parWorkers p). okWorker (parVisits p) w)"

text \<open>The counter is at least the number of busy workers; a surplus is a worker that left
  without reporting, which only cancellation causes.\<close>

definition countInv :: "('c, 's) parState \<Rightarrow> bool" where
  "countInv p \<longleftrightarrow> (parPhase p = Running \<longrightarrow>
     int (count_if busy (parWorkers p)) \<le> parInProgress p \<and> (parSend p \<or> 0 < parInProgress p))"

definition complete :: "('c, 's) parState \<Rightarrow> bool" where
  "complete p \<longleftrightarrow> parInProgress p = int (count_if busy (parWorkers p))"

text \<open>An accepted call is handled: it is being fetched, its links are on the way to the
  main loop, or each link is covered or pending.\<close>

definition handled :: "('c, 's) parState \<Rightarrow> 'c cidDepth \<Rightarrow> bool" where
  "handled p cd \<longleftrightarrow> AtFetch cd \<in> set (parWorkers p) \<or>
     AtOut (succs (cdCid cd)) (cdDepth cd + 1) \<in> set (parWorkers p) \<or>
     (\<forall>k \<in> set (succs (cdCid cd)). cov (parVst p) k (cdDepth cd + 1) \<or>
        \<lparr>cdCid = k, cdDepth = cdDepth cd + 1\<rparr> \<in> pending p)"

definition closedInv :: "('c, 's) parState \<Rightarrow> bool" where
  "closedInv p \<longleftrightarrow> (\<forall>cd \<in> set (parVisits p). handled p cd) \<and>
     (cov (parVst p) root 0 \<or> \<lparr>cdCid = root, cdDepth = 0\<rparr> \<in> pending p)"

text \<open>What holds after the nil return: no worker is busy and every link is covered.\<close>

definition allCovered :: "('c, 's) parState \<Rightarrow> bool" where
  "allCovered p \<longleftrightarrow> cov (parVst p) root 0 \<and>
     (\<forall>cd \<in> set (parVisits p). \<forall>k \<in> set (succs (cdCid cd)). cov (parVst p) k (cdDepth cd + 1))"

definition finalInv :: "('c, 's) parState \<Rightarrow> bool" where
  "finalInv p \<longleftrightarrow> (parPhase p \<in> {Returning None, Returned None} \<longrightarrow>
     (\<forall>w \<in> set (parWorkers p). \<not> busy w) \<and> allCovered p)"

lemma callVisit_eq:
  "callVisit visit options i cd p =
     (let r = visit (cdCid cd) (cdDepth cd) (parVst p)
      in setWorker i (if fst r then AtFetch cd else AtDone)
           (p\<lparr>parVst := snd r, parVisits := if fst r then parVisits p @ [cd] else parVisits p\<rparr>))"
  using no_skip by (simp add: callVisit_def split_beta)

lemma fetch_cases:
  assumes "cdCid cd \<in> nodes"
  obtains (found) "fetchLinksOf getLinks options root cd s =
      Some (AtOut (succs (cdCid cd)) (cdDepth cd + 1), snd (getLinks (cdCid cd) s))"
  | (failed) e where "reported e" and "fetchLinksOf getLinks options root cd s = Some (AtErr e, snd (getLinks (cdCid cd) s))"
proof (cases "snd (fst (getLinks (cdCid cd) s))")
  case None
  then show ?thesis using links_cases [OF assms, of s] found by (auto simp: fetchLinksOf_def split_beta)
next
  case (Some e)
  then have "reported e" using assms by (auto simp: reported_def)
  then show ?thesis using links_cases [OF assms, of s] Some failed by (auto simp: fetchLinksOf_def split_beta)
qed

lemma fetch_result:
  assumes "cdCid cd \<in> nodes" and "fetchLinksOf getLinks options root cd s = Some (w, s')"
  shows "s' = snd (getLinks (cdCid cd) s)" and "w = AtOut (succs (cdCid cd)) (cdDepth cd + 1) \<or> (\<exists>e. w = AtErr e \<and> reported e)"
  using assms by (auto elim!: fetch_cases [of cd s])

lemma okWorker_mono: "okWorker vs w \<Longrightarrow> set vs \<subseteq> set vs' \<Longrightarrow> okWorker vs' w"
  by (cases w) auto

abbreviation pstep :: "('c, 's) parState \<Rightarrow> ('c, 's) parState \<Rightarrow> bool" where
  "pstep \<equiv> parStep defined undef getLinks visit options root"

abbreviation preach :: "'s \<Rightarrow> ('c, 's) parState \<Rightarrow> bool" where
  "preach \<equiv> parReach defined undef getLinks visit options root"

end

end
