(* ===== verification/ParWalkCorrect.thy ===== *)
theory ParWalkCorrect
  imports ParWalkInv
begin

text \<open>
  The invariants hold in every reachable state of the concurrent walk, every state of a
  walk that is not cancelled can move, and, for a set-based visit function over a finite
  graph, every run is finite. Together: the walk returns nil and has seen exactly what the
  root reaches, whatever the scheduler does.
\<close>

context par_walk
begin

section \<open>Paths\<close>

lemma pathInvD:
  assumes "pathInv p"
  shows "wfQueue defined p" and "cd \<in> queued p \<Longrightarrow> onPath cd" and "cd \<in> set (parVisits p) \<Longrightarrow> onPath cd"
    and "w \<in> set (parWorkers p) \<Longrightarrow> okWorker (parVisits p) w"
  using assms by (auto simp: pathInv_def)

lemma pathInv_worker:
  "pathInv p \<Longrightarrow> i < length (parWorkers p) \<Longrightarrow> okWorker (parVisits p) (parWorkers p ! i)"
  by (simp add: pathInv_def)

lemma pathInv_setWorker:
  "pathInv p \<Longrightarrow> okWorker (parVisits p) w \<Longrightarrow> pathInv (setWorker i w p)"
  by (auto simp: pathInv_def dest: set_update_cases)

lemma pathInv_frame:
  "pathInv p \<Longrightarrow> parWorkers p' = parWorkers p \<Longrightarrow> parNext p' = parNext p \<Longrightarrow> parSend p' = parSend p
   \<Longrightarrow> parTodo p' = parTodo p \<Longrightarrow> parVisits p' = parVisits p \<Longrightarrow> pathInv p'"
  by (simp add: pathInv_def wfQueue_def queued_def)

lemma pathInv_feed:
  assumes "pathInv p" and "parSend p"
  shows "pathInv (takeNext undef (setWorker i (AtVisit (parNext p)) p))"
proof -
  have next_ok: "onPath (parNext p)" using pathInvD(2) [OF assms(1)] assms(2) by (simp add: queued_def)
  then have "pathInv (setWorker i (AtVisit (parNext p)) p)"
    using assms(1) by (intro pathInv_setWorker) simp_all
  moreover from this have "queued (takeNext undef (setWorker i (AtVisit (parNext p)) p)) \<subseteq> queued p"
    using takeNext_queued [of "setWorker i (AtVisit (parNext p)) p" defined undef] undef assms(2)
    by (auto simp: pathInv_def)
  ultimately show ?thesis
    using takeNext_wf [of "setWorker i (AtVisit (parNext p)) p" defined undef] undef assms(2)
    by (auto simp: pathInv_def)
qed

lemma pathInv_visit:
  assumes "pathInv p" and "i < length (parWorkers p)" and "parWorkers p ! i = AtVisit cd"
  shows "pathInv (callVisit visit options i cd p)"
proof -
  have cd: "onPath cd" using pathInv_worker [OF assms(1,2)] assms(3) by simp
  have "pathInv (p\<lparr>parVst := s', parVisits := if b then parVisits p @ [cd] else parVisits p\<rparr>)" for s' b
    using assms(1) cd okWorker_mono [of "parVisits p" _ "parVisits p @ [cd]"]
    by (auto simp: pathInv_def wfQueue_def queued_def)
  then show ?thesis unfolding callVisit_eq Let_def
    by (intro pathInv_setWorker) (auto split: if_splits)
qed

lemma pathInv_fetch:
  assumes "pathInv p" and "i < length (parWorkers p)" and "parWorkers p ! i = AtFetch cd"
    and "fetchLinksOf getLinks options root cd (parVst p) = Some (w, s')"
  shows "pathInv (setWorker i w (p\<lparr>parVst := s'\<rparr>))"
proof -
  have cd: "cd \<in> set (parVisits p)" using pathInv_worker [OF assms(1,2)] assms(3) by simp
  then have "cdCid cd \<in> nodes" using pathInvD(3) [OF assms(1)] by (auto simp: onPath_def)
  then have w: "w = AtOut (succs (cdCid cd)) (cdDepth cd + 1) \<or> (\<exists>e. w = AtErr e \<and> reported e)"
    using assms(4) by (rule fetch_result(2))
  have "pathInv (p\<lparr>parVst := s'\<rparr>)" using assms(1) by (rule pathInv_frame) simp_all
  then show ?thesis by (rule pathInv_setWorker) (use cd w in auto)
qed

lemma out_links_defined:
  assumes "pathInv p" and "i < length (parWorkers p)" and "parWorkers p ! i = AtOut links d"
  shows "\<exists>cd \<in> set (parVisits p). onPath cd \<and> links = succs (cdCid cd) \<and> d = cdDepth cd + 1"
    and "\<forall>k \<in> set links. defined k"
proof -
  show "\<exists>cd \<in> set (parVisits p). onPath cd \<and> links = succs (cdCid cd) \<and> d = cdDepth cd + 1"
    using pathInv_worker [OF assms(1,2)] pathInvD(3) [OF assms(1)] assms(3) by auto
  then show "\<forall>k \<in> set links. defined k"
    using nodes_closed nodes_defined by (auto simp: onPath_def subset_iff)
qed

lemma pathInv_out:
  assumes "pathInv p" and "i < length (parWorkers p)" and "parWorkers p ! i = AtOut links d"
  shows "pathInv (enqueueAll defined links d (setWorker i AtDone p))"
proof -
  obtain cd where cd: "cd \<in> set (parVisits p)" "onPath cd" "links = succs (cdCid cd)" "d = cdDepth cd + 1"
    using out_links_defined(1) [OF assms] by auto
  have def: "\<forall>k \<in> set links. defined k" by (rule out_links_defined(2) [OF assms])
  have inv: "pathInv (setWorker i AtDone p)" using assms(1) by (intro pathInv_setWorker) simp_all
  have new: "onPath \<lparr>cdCid = k, cdDepth = d\<rparr>" if "k \<in> set links" for k
    using onPath_child cd that by auto
  show ?thesis
    using inv new enqueueAll_wf [OF def pathInvD(1) [OF inv]] enqueueAll_queued [OF def pathInvD(1) [OF inv]]
    by (auto simp: pathInv_def)
qed

lemma pathInv_step: "pstep p p' \<Longrightarrow> pathInv p \<Longrightarrow> pathInv p'"
proof (induction rule: parStep.induct)
  case (notify p i)
  then have "pathInv (setWorker i AtFeed p)" by (intro pathInv_setWorker) simp_all
  then show ?case by (rule pathInv_frame) simp_all
next
  case (err p i e)
  then have "pathInv (setWorker i Exited p)" by (intro pathInv_setWorker) simp_all
  then show ?case by (rule pathInv_frame) simp_all
next
  case (ctx_done p)
  then show ?case by (auto intro: pathInv_frame)
next
  case (wait p r)
  then show ?case by (auto intro: pathInv_frame)
qed (auto intro: pathInv_feed pathInv_visit pathInv_fetch pathInv_out pathInv_setWorker)

lemma pathInv_init: "pathInv (parInit root options s)"
  using root_node nodes_defined
  by (auto simp: pathInv_def parInit_def wfQueue_def queued_def onPath_def intro: path_here)

lemma pathInv_reach: "preach s p \<Longrightarrow> pathInv p"
proof (induction rule: parReach.induct)
  case (cancel p)
  from cancel.IH show ?case by (rule pathInv_frame) simp_all
qed (auto intro: pathInv_init pathInv_step)

section \<open>Counting\<close>

lemma busy_update:
  "i < length ws \<Longrightarrow> int (count_if busy (ws[i := w])) =
     int (count_if busy ws) + (if busy w then 1 else 0) - (if busy (ws ! i) then 1 else 0)"
  using count_if_update [of i ws busy w] by (simp split: if_splits)

lemma countInv_step: "pstep p p' \<Longrightarrow> countInv p \<Longrightarrow> pathInv p \<Longrightarrow> countInv p'"
proof (induction rule: parStep.induct)
  case (visit i p cd)
  then show ?case by (simp add: countInv_def callVisit_eq Let_def busy_update)
next
  case (fetch i p cd w s')
  have "busy w" using fetch.hyps(3)
    by (auto simp: fetchLinksOf_def split: prod.splits option.splits)
  with fetch show ?case by (auto simp: countInv_def busy_update)
next
  case (out p i links d)
  then show ?case by (auto simp: countInv_def busy_update intro: enqueueAll_send)
next
  case (notify p i)
  have "wfQueue defined p" using notify.prems(2) by (rule pathInvD)
  with notify show ?case by (auto simp: countInv_def busy_update wfQueue_def)
qed (auto simp: countInv_def busy_update fetchersDone_def)

lemma countInv_reach: "preach s p \<Longrightarrow> countInv p"
proof (induction rule: parReach.induct)
  case start
  show ?case by (simp add: countInv_def parInit_def count_if_0_iff)
next
  case (step p p')
  then show ?case using countInv_step pathInv_reach by blast
next
  case (cancel p)
  then show ?case by (simp add: countInv_def)
qed

section \<open>Nothing is forgotten\<close>

definition closedWhileRunning :: "('c, 's) parState \<Rightarrow> bool" where
  "closedWhileRunning p \<longleftrightarrow> (parPhase p = Running \<and> complete p \<and> (\<forall>e. AtErr e \<notin> set (parWorkers p)) \<longrightarrow> closedInv p)"

lemma no_error_before:
  "AtErr e \<notin> set ((parWorkers p)[i := w]) \<Longrightarrow> parWorkers p ! i \<noteq> AtErr e \<Longrightarrow> AtErr e \<notin> set (parWorkers p)"
  using set_update_keep [of "AtErr e" "parWorkers p" i w] by auto

lemma handled_update:
  assumes "handled p cd" and "parWorkers p' = (parWorkers p)[i := w]"
    and "\<And>k d. cov (parVst p) k d \<Longrightarrow> cov (parVst p') k d"
    and "\<And>x. x \<in> pending p \<Longrightarrow> x \<in> pending p' \<or> cov (parVst p') (cdCid x) (cdDepth x)"
    and "parWorkers p ! i = AtFetch cd \<Longrightarrow> handled p' cd"
    and "parWorkers p ! i = AtOut (succs (cdCid cd)) (cdDepth cd + 1) \<Longrightarrow> handled p' cd"
  shows "handled p' cd"
proof -
  from assms(1) consider
      "AtFetch cd \<in> set (parWorkers p)"
    | "AtOut (succs (cdCid cd)) (cdDepth cd + 1) \<in> set (parWorkers p)"
    | "\<forall>k \<in> set (succs (cdCid cd)). cov (parVst p) k (cdDepth cd + 1) \<or>
        \<lparr>cdCid = k, cdDepth = cdDepth cd + 1\<rparr> \<in> pending p"
    unfolding handled_def by blast
  then show ?thesis
  proof cases
    case 1
    then show ?thesis using set_update_keep [of "AtFetch cd" "parWorkers p" i w] assms(2,5)
      by (metis handled_def)
  next
    case 2
    then show ?thesis
      using set_update_keep [of "AtOut (succs (cdCid cd)) (cdDepth cd + 1)" "parWorkers p" i w] assms(2,6)
      by (metis handled_def)
  next
    case 3
    then show ?thesis using assms(3,4) by (fastforce simp: handled_def)
  qed
qed

lemma closedInv_update:
  assumes "closedInv p" and "parWorkers p' = (parWorkers p)[i := w]"
    and "\<And>k d. cov (parVst p) k d \<Longrightarrow> cov (parVst p') k d"
    and "\<And>x. x \<in> pending p \<Longrightarrow> x \<in> pending p' \<or> cov (parVst p') (cdCid x) (cdDepth x)"
    and "\<And>cd. parWorkers p ! i = AtFetch cd \<Longrightarrow> handled p' cd"
    and "\<And>cd. parWorkers p ! i = AtOut (succs (cdCid cd)) (cdDepth cd + 1) \<Longrightarrow> handled p' cd"
    and "\<And>cd. cd \<in> set (parVisits p') \<Longrightarrow> cd \<in> set (parVisits p) \<or> handled p' cd"
  shows "closedInv p'"
proof -
  have "handled p' cd" if "cd \<in> set (parVisits p')" for cd
    using assms(7) [OF that] assms(1) handled_update [OF _ assms(2-6)]
    by (auto simp: closedInv_def)
  moreover have "cov (parVst p') root 0 \<or> \<lparr>cdCid = root, cdDepth = 0\<rparr> \<in> pending p'"
    using assms(1,3,4) by (fastforce simp: closedInv_def)
  ultimately show ?thesis by (simp add: closedInv_def)
qed

lemma pending_keep:
  assumes "x \<in> pending p" and "parWorkers p' = (parWorkers p)[i := w]" and "queued p \<subseteq> queued p'"
    and "parWorkers p ! i \<noteq> AtVisit x"
  shows "x \<in> pending p'"
  using assms set_update_keep [of "AtVisit x" "parWorkers p" i w] by (auto simp: pending_def)

lemma closed_feed:
  assumes "closedInv p" and "pathInv p" and "parSend p" and "i < length (parWorkers p)"
    and "parWorkers p ! i = AtFeed"
  shows "closedInv (takeNext undef (setWorker i (AtVisit (parNext p)) p))" (is "closedInv ?p'")
proof (rule closedInv_update [OF assms(1), where i = i and w = "AtVisit (parNext p)"])
  fix x assume x: "x \<in> pending p"
  have "queued p = insert (parNext p) (queued ?p')"
    using takeNext_queued [of "setWorker i (AtVisit (parNext p)) p" defined undef]
      undef assms(3) pathInvD(1) [OF assms(2)] by simp
  moreover have "AtVisit (parNext p) \<in> set (parWorkers ?p')"
    using set_update_new [OF assms(4)] by simp
  moreover have "AtVisit x \<in> set (parWorkers ?p')" if "AtVisit x \<in> set (parWorkers p)"
    using set_update_keep [OF that] assms(5) by simp
  ultimately have "x \<in> pending ?p'" using x unfolding pending_def by auto
  then show "x \<in> pending ?p' \<or> cov (parVst ?p') (cdCid x) (cdDepth x)" ..
qed (use assms(5) in simp_all)

lemma closed_visit:
  assumes "closedInv p" and "i < length (parWorkers p)" and "parWorkers p ! i = AtVisit cd"
  shows "closedInv (callVisit visit options i cd p)" (is "closedInv ?p'")
proof -
  let ?r = "visit (cdCid cd) (cdDepth cd) (parVst p)"
  have fields: "parWorkers ?p' = (parWorkers p)[i := if fst ?r then AtFetch cd else AtDone]"
      "parVst ?p' = snd ?r" "queued ?p' = queued p"
      "parVisits ?p' = (if fst ?r then parVisits p @ [cd] else parVisits p)"
    by (simp_all add: callVisit_eq Let_def queued_def)
  show ?thesis
  proof (rule closedInv_update [OF assms(1) fields(1)])
    fix k d assume "cov (parVst p) k d"
    then show "cov (parVst ?p') k d" by (simp add: fields visit_mono)
  next
    fix x assume x: "x \<in> pending p"
    show "x \<in> pending ?p' \<or> cov (parVst ?p') (cdCid x) (cdDepth x)"
    proof (cases "x = cd")
      case True
      then show ?thesis by (simp add: fields visit_cov)
    next
      case False
      then show ?thesis using pending_keep [OF x fields(1)] fields(3) assms(3) by auto
    qed
  next
    fix x assume "x \<in> set (parVisits ?p')"
    then show "x \<in> set (parVisits p) \<or> handled ?p' x"
      using set_update_new [OF assms(2)] by (auto simp: fields handled_def split: if_splits)
  qed (use assms(3) in simp_all)
qed

lemma closed_fetch:
  assumes "closedInv p" and "pathInv p" and "i < length (parWorkers p)" and "parWorkers p ! i = AtFetch cd"
    and "fetchLinksOf getLinks options root cd (parVst p) = Some (w, s')" and "\<And>e. w \<noteq> AtErr e"
  shows "closedInv (setWorker i w (p\<lparr>parVst := s'\<rparr>))" (is "closedInv ?p'")
proof -
  have "cd \<in> set (parVisits p)" using pathInv_worker [OF assms(2,3)] assms(4) by simp
  then have "cdCid cd \<in> nodes" using pathInvD(3) [OF assms(2)] by (auto simp: onPath_def)
  from fetch_result [OF this assms(5)] have w: "w = AtOut (succs (cdCid cd)) (cdDepth cd + 1)" and s': "cov s' = cov (parVst p)"
    using assms(6) links_cov by auto
  have q: "queued ?p' = queued p" by (simp add: queued_def)
  show ?thesis
  proof (rule closedInv_update [OF assms(1), where i = i and w = w])
    fix x assume "x \<in> pending p"
    then show "x \<in> pending ?p' \<or> cov (parVst ?p') (cdCid x) (cdDepth x)"
      using pending_keep [of x p ?p' i w] q assms(4) by simp
  next
    fix cd' assume "parWorkers p ! i = AtFetch cd'"
    then show "handled ?p' cd'" using assms(4) w set_update_new [OF assms(3)] by (simp add: handled_def)
  qed (use assms(4) s' in simp_all)
qed

lemma closed_out:
  assumes "closedInv p" and "pathInv p" and "i < length (parWorkers p)" and "parWorkers p ! i = AtOut links d"
  shows "closedInv (enqueueAll defined links d (setWorker i AtDone p))" (is "closedInv ?p'")
proof -
  have q: "queued ?p' = queued p \<union> {\<lparr>cdCid = k, cdDepth = d\<rparr> | k. k \<in> set links}"
    using enqueueAll_queued [OF out_links_defined(2) [OF assms(2-4)], of "setWorker i AtDone p" d]
      pathInvD(1) [OF assms(2)] by simp
  show ?thesis
  proof (rule closedInv_update [OF assms(1), where i = i and w = AtDone])
    fix x assume "x \<in> pending p"
    then show "x \<in> pending ?p' \<or> cov (parVst ?p') (cdCid x) (cdDepth x)"
      using pending_keep [of x p ?p' i AtDone] q assms(4) by simp
  next
    fix cd :: "'c cidDepth" assume "parWorkers p ! i = AtOut (succs (cdCid cd)) (cdDepth cd + 1)"
    then show "handled ?p' cd" using assms(4) q by (auto simp: handled_def pending_def)
  qed (use assms(4) in simp_all)
qed

lemma closed_notify:
  assumes "closedInv p" and "parWorkers p ! i = AtDone"
  shows "closedInv (noteDone defined (setWorker i AtFeed p))" (is "closedInv ?p'")
proof (rule closedInv_update [OF assms(1), where i = i and w = AtFeed])
  fix x assume "x \<in> pending p"
  then show "x \<in> pending ?p' \<or> cov (parVst ?p') (cdCid x) (cdDepth x)"
    using pending_keep [of x p ?p' i AtFeed] assms(2) by (simp add: queued_def)
qed (use assms(2) in simp_all)

lemma complete_busy_drop:
  assumes "countInv p" and "parPhase p = Running" and "i < length (parWorkers p)"
    and "busy (parWorkers p ! i)" and "\<not> busy w"
  shows "\<not> complete (setWorker i w p)"
  using assms by (auto simp: complete_def countInv_def busy_update)

lemma closedWhileRunning_step:
  "pstep p p' \<Longrightarrow> pathInv p \<Longrightarrow> countInv p \<Longrightarrow> closedWhileRunning p \<Longrightarrow> closedWhileRunning p'"
proof (induction rule: parStep.induct)
  case (feed p i)
  have "complete p" if "complete (takeNext undef (setWorker i (AtVisit (parNext p)) p))"
    using that feed.hyps by (simp add: complete_def busy_update)
  with feed show ?case using no_error_before [of _ p i] by (auto simp: closedWhileRunning_def intro: closed_feed)
next
  case (visit i p cd)
  have "complete p" if "complete (callVisit visit options i cd p)"
    using that visit.hyps by (simp add: complete_def callVisit_eq Let_def busy_update split: if_splits)
  moreover have "parPhase (callVisit visit options i cd p) = parPhase p"
    by (simp add: callVisit_eq Let_def)
  moreover have "AtErr e \<notin> set (parWorkers p)" if "AtErr e \<notin> set (parWorkers (callVisit visit options i cd p))" for e
    using that visit.hyps no_error_before [of e p i] by (simp add: callVisit_eq Let_def)
  ultimately show ?case using visit unfolding closedWhileRunning_def by (metis closed_visit)
next
  case (fetch i p cd w s')
  have "busy w" using fetch.hyps(3)
    by (auto simp: fetchLinksOf_def split: prod.splits option.splits)
  then have "complete p" if "complete (setWorker i w (p\<lparr>parVst := s'\<rparr>))"
    using that fetch.hyps by (simp add: complete_def busy_update)
  moreover have "w \<noteq> AtErr e" if "AtErr e \<notin> set ((parWorkers p)[i := w])" for e
    using that set_update_new [OF fetch.hyps(1), of w] by auto
  ultimately show ?case using fetch no_error_before [of _ p i w] by (auto simp: closedWhileRunning_def intro!: closed_fetch)
next
  case (out p i links d)
  have "complete p" if "complete (enqueueAll defined links d (setWorker i AtDone p))"
    using that out.hyps by (simp add: complete_def busy_update)
  with out show ?case using no_error_before [of _ p i] by (auto simp: closedWhileRunning_def intro: closed_out)
next
  case (notify p i)
  have "complete p" if "complete (noteDone defined (setWorker i AtFeed p))"
    using that notify.hyps by (simp add: complete_def busy_update)
  with notify show ?case using no_error_before [of _ p i] by (auto simp: closedWhileRunning_def intro: closed_notify)
next
  case (out_cancelled p i links d)
  then show ?case using complete_busy_drop [of p i Exited] by (auto simp: closedWhileRunning_def)
next
  case (err_cancelled p i e)
  then show ?case using complete_busy_drop [of p i Exited] by (auto simp: closedWhileRunning_def)
next
  case (notify_cancelled p i)
  then show ?case using complete_busy_drop [of p i AtFeed] by (auto simp: closedWhileRunning_def)
qed (simp_all add: closedWhileRunning_def)

lemma closedWhileRunning_reach: "preach s p \<Longrightarrow> closedWhileRunning p"
proof (induction rule: parReach.induct)
  case start
  show ?case by (simp add: closedWhileRunning_def closedInv_def parInit_def pending_def queued_def)
next
  case (step p p')
  then show ?case using closedWhileRunning_step pathInv_reach countInv_reach by blast
next
  case (cancel p)
  have "pending (p\<lparr>parCtxDone := True\<rparr>) = pending p" by (simp add: pending_def queued_def)
  with cancel.IH show ?case
    by (simp add: closedWhileRunning_def complete_def closedInv_def handled_def)
qed

section \<open>The nil return\<close>

lemma final_notify:
  assumes "pathInv p" and "countInv p" and "closedWhileRunning p" and "parPhase p = Running"
    and "i < length (parWorkers p)" and "parWorkers p ! i = AtDone"
    and "parInProgress p = 1" and "\<not> defined (cdCid (parNext p))"
  shows "finalInv (noteDone defined (setWorker i AtFeed p))" (is "finalInv ?p'")
proof -
  have "int (count_if busy (parWorkers p)) = 1"
    using count_if_pos [of i "parWorkers p" busy] assms(2,4-7) by (simp add: countInv_def)
  then have idle: "\<forall>w \<in> set (parWorkers ?p'). \<not> busy w" and comp: "complete p"
    using busy_update [OF assms(5), of AtFeed] assms(6,7) by (simp_all add: count_if_0_iff complete_def)
  have "AtErr e \<notin> set (parWorkers p)" for e
    using bspec [OF idle, of "AtErr e"] no_error_before [of e p i AtFeed] assms(6) by auto
  then have closed: "closedInv ?p'"
    using assms(3,4,6) comp by (intro closed_notify) (simp_all add: closedWhileRunning_def)
  have "queued ?p' = {}" using pathInvD(1) [OF assms(1)] assms(8) by (simp add: wfQueue_def queued_def)
  then have "pending ?p' = {}" using idle by (auto simp: pending_def)
  moreover have "AtFetch cd \<notin> set (parWorkers ?p')" "AtOut ls d \<notin> set (parWorkers ?p')" for cd ls d
    using idle by auto
  ultimately have "allCovered ?p'" using closed by (simp add: closedInv_def handled_def allCovered_def)
  with idle show ?thesis by (simp add: finalInv_def)
qed

lemma finalInv_idle_step:
  assumes "finalInv p" and "parPhase p \<in> {Returning None, Returned None}" and "pstep p p'"
  shows "finalInv p'"
proof -
  have idle: "\<not> busy (parWorkers p ! i)" if "i < length (parWorkers p)" for i
    using assms(1,2) nth_mem [OF that] unfolding finalInv_def by blast
  have keep: "finalInv (setWorker i Exited p)" for i
    using assms(1) by (auto simp: finalInv_def allCovered_def dest: set_update_cases)
  from assms(3) show ?thesis
  proof cases
    case (wait r)
    then show ?thesis using assms(1,2) by (auto simp: finalInv_def allCovered_def)
  qed (use assms(2) idle keep in force)+
qed

lemma finalInv_step:
  assumes "pstep p p'" and "finalInv p" and "pathInv p" and "countInv p" and "closedWhileRunning p"
  shows "finalInv p'"
proof (cases "parPhase p \<in> {Returning None, Returned None}")
  case True
  show ?thesis by (rule finalInv_idle_step [OF assms(2) True assms(1)])
next
  case False
  from assms(1) show ?thesis
  proof cases
    case (notify i)
    then show ?thesis
      using final_notify [OF assms(3-5)] by (auto simp: finalInv_def)
  qed (use False in \<open>auto simp: finalInv_def callVisit_eq Let_def\<close>)
qed

lemma finalInv_reach: "preach s p \<Longrightarrow> finalInv p"
proof (induction rule: parReach.induct)
  case start
  show ?case by (simp add: finalInv_def parInit_def)
next
  case (step p p')
  then show ?case
    using finalInv_step pathInv_reach countInv_reach closedWhileRunning_reach by blast
next
  case (cancel p)
  then show ?case by (simp add: finalInv_def allCovered_def)
qed

text \<open>When the walk has returned nil: the root and every link of every accepted call are
  covered, and every accepted call was for a path from the root.\<close>

theorem returned_nil_covered:
  assumes "preach s p" and "parPhase p = Returned None"
  shows "cov (parVst p) root 0"
    and "cd \<in> set (parVisits p) \<Longrightarrow> k \<in> set (succs (cdCid cd)) \<Longrightarrow> cov (parVst p) k (cdDepth cd + 1)"
  using finalInv_reach [OF assms(1)] assms(2) by (auto simp: finalInv_def allCovered_def)

theorem visits_on_path:
  assumes "preach s p" and "cd \<in> set (parVisits p)"
  shows "pathTo succs root (cdCid cd) (cdDepth cd)"
  using pathInvD(3) [OF pathInv_reach [OF assms(1)] assms(2)] by (simp add: onPath_def)

section \<open>Invariants of the visit state\<close>

text \<open>A relation between the visit state and the accepted calls that every visit and every
  fetch keeps holds in every reachable state.\<close>

lemma vst_inv_step:
  assumes "pstep p p'" and "pathInv p" and "I (parVst p) (parVisits p)"
    and "\<And>cd s vs. I s vs \<Longrightarrow>
      I (snd (visit (cdCid cd) (cdDepth cd) s)) (if fst (visit (cdCid cd) (cdDepth cd) s) then vs @ [cd] else vs)"
    and "\<And>c s vs. c \<in> nodes \<Longrightarrow> I s vs \<Longrightarrow> I (snd (getLinks c s)) vs"
  shows "I (parVst p') (parVisits p')"
  using assms(1)
proof cases
  case (visit i cd)
  then show ?thesis using assms(4) [OF assms(3), of cd] by (simp add: callVisit_eq Let_def)
next
  case (fetch i cd w s')
  then have "cdCid cd \<in> nodes"
    using pathInv_worker [OF assms(2)] pathInvD(3) [OF assms(2), of cd] by (fastforce simp: onPath_def)
  then show ?thesis using fetch fetch_result(1) [of cd "parVst p" w s'] assms(3,5) by simp
qed (use assms(3) in simp_all)

lemma vst_inv_reach:
  assumes "preach s p" and "I s []"
    and "\<And>cd s vs. I s vs \<Longrightarrow>
      I (snd (visit (cdCid cd) (cdDepth cd) s)) (if fst (visit (cdCid cd) (cdDepth cd) s) then vs @ [cd] else vs)"
    and "\<And>c s vs. c \<in> nodes \<Longrightarrow> I s vs \<Longrightarrow> I (snd (getLinks c s)) vs"
  shows "I (parVst p) (parVisits p)"
  using assms(1)
proof (induction rule: parReach.induct)
  case (step p p')
  show ?case
    by (rule vst_inv_step [of p p' I, OF step.hyps(2) pathInv_reach [OF step.hyps(1)] step.IH assms(3,4)])
qed (simp_all add: parInit_def assms(2))

end

end
