(* ===== verification/ParWalkLive.thy ===== *)
theory ParWalkLive
  imports ParWalkCorrect
begin

text \<open>
  Progress and termination of the concurrent walk. As long as it has not returned, some
  goroutine can move; over a finite graph with a set-based visit function every step
  decreases a measure, so every schedule ends in the return.
\<close>

section \<open>Progress\<close>

context par_walk
begin

text \<open>Workers are never lost; before a cancellation none has left and the counter is exact.\<close>

definition aliveInv :: "('c, 's) parState \<Rightarrow> bool" where
  "aliveInv p \<longleftrightarrow> length (parWorkers p) = nat (optConcurrency options) \<and>
     (\<not> parCtxDone p \<longrightarrow> (\<forall>e. parPhase p \<in> {Returning (Some e), Returned (Some e)} \<longrightarrow> reported e) \<and>
       (parPhase p = Running \<longrightarrow> complete p \<and> Exited \<notin> set (parWorkers p)))"

lemma aliveInv_step: "pstep p p' \<Longrightarrow> pathInv p \<Longrightarrow> aliveInv p \<Longrightarrow> aliveInv p'"
proof (induction rule: parStep.induct)
  case (visit i p cd)
  then show ?case
    by (auto simp: aliveInv_def callVisit_eq Let_def complete_def busy_update dest: set_update_cases)
next
  case (fetch i p cd w s')
  have "busy w" using fetch.hyps(3)
    by (auto simp: fetchLinksOf_def split: prod.splits option.splits)
  with fetch show ?case
    by (auto simp: aliveInv_def complete_def busy_update dest: set_update_cases)
next
  case (err p i e)
  then show ?case using pathInv_worker [of p i] by (auto simp: aliveInv_def)
qed (auto simp: aliveInv_def complete_def busy_update fetchersDone_def dest: set_update_cases)

lemma aliveInv_reach: "preach s p \<Longrightarrow> aliveInv p"
proof (induction rule: parReach.induct)
  case start
  show ?case by (simp add: aliveInv_def parInit_def complete_def count_if_0_iff)
next
  case (step p p')
  then show ?case using aliveInv_step pathInv_reach by blast
next
  case (cancel p)
  then show ?case by (simp add: aliveInv_def)
qed

lemma busy_can_step:
  assumes "pathInv p" and "i < length (parWorkers p)" and "busy (parWorkers p ! i)"
    and "parPhase p = Running \<or> fetchersDone p"
  shows "\<exists>p'. pstep p p'"
proof (cases "parWorkers p ! i")
  case (AtVisit cd)
  then show ?thesis using parStep.visit [OF assms(2)] by blast
next
  case (AtFetch cd)
  then have "cd \<in> set (parVisits p)" using pathInv_worker [OF assms(1,2)] by simp
  then have "cdCid cd \<in> nodes" using pathInvD(3) [OF assms(1)] by (auto simp: onPath_def)
  then show ?thesis by (rule fetch_cases [of cd "parVst p"]) (use parStep.fetch [OF assms(2) AtFetch] in blast)+
next
  case (AtOut links d)
  then show ?thesis using parStep.out parStep.out_cancelled assms(2,4) by metis
next
  case (AtErr e)
  then show ?thesis using parStep.err parStep.err_cancelled assms(2,4) by metis
next
  case AtDone
  then show ?thesis using parStep.notify parStep.notify_cancelled assms(2,4) by metis
qed (use assms(3) in simp_all)

theorem par_progress:
  assumes "preach s p" and "0 < optConcurrency options" and "\<And>r. parPhase p \<noteq> Returned r"
  shows "\<exists>p'. pstep p p'"
proof (cases "\<exists>i < length (parWorkers p). busy (parWorkers p ! i)")
  case True
  then show ?thesis using busy_can_step [OF pathInv_reach [OF assms(1)]]
    by (auto simp: fetchersDone_def)
next
  case False
  then have idle: "w = AtFeed \<or> w = Exited" if "w \<in> set (parWorkers p)" for w
    using that by (auto simp: in_set_conv_nth busy_iff)
  have alive: "aliveInv p" by (rule aliveInv_reach [OF assms(1)])
  show ?thesis
  proof (cases "parPhase p")
    case Running
    show ?thesis
    proof (cases "parCtxDone p")
      case True
      then show ?thesis using parStep.ctx_done [OF Running] by blast
    next
      case ok: False
      have "0 < length (parWorkers p)" using alive assms(2) by (simp add: aliveInv_def)
      then have "parWorkers p ! 0 \<in> set (parWorkers p)" by (rule nth_mem)
      then have "parWorkers p ! 0 = AtFeed"
        using idle ok Running alive unfolding aliveInv_def by metis
      moreover have "parInProgress p = 0"
        using alive ok Running idle count_if_0_iff [of busy "parWorkers p"]
        by (fastforce simp: aliveInv_def complete_def)
      then have "parSend p" using countInv_reach [OF assms(1)] Running by (simp add: countInv_def)
      ultimately show ?thesis
        using parStep.feed [OF Running] \<open>0 < length (parWorkers p)\<close> by blast
    qed
  next
    case (Returning r)
    show ?thesis
    proof (cases "set (parWorkers p) \<subseteq> {Exited}")
      case True
      then show ?thesis using parStep.wait [OF Returning] by blast
    next
      case False
      then have "AtFeed \<in> set (parWorkers p)" using idle by auto
      then obtain i where "i < length (parWorkers p)" "parWorkers p ! i = AtFeed"
        by (auto simp: in_set_conv_nth)
      moreover have "parPhase p \<noteq> Running" using Returning by simp
      ultimately show ?thesis by (blast intro: parStep.feed_closed)
    qed
  next
    case (Returned r)
    with assms(3) show ?thesis by blast
  qed
qed

theorem par_uncancelled_error:
  assumes "preach s p" and "\<not> parCtxDone p" and "parPhase p = Returned (Some e)"
  shows "reported e"
  using aliveInv_reach [OF assms(1)] assms(2,3) by (simp add: aliveInv_def)

end

section \<open>Termination\<close>

text \<open>
  A walk is bounded when accepting calls is paid for: \<open>credit s\<close> limits the links that
  accepted calls may still put into the queue, and each accepted call gives up six units per
  link of its CID (one link costs at most six steps).
\<close>

locale par_bounded = par_walk visit cov defined undef getLinks succs nodes options root
  for visit :: "('c, 's) visitFun" and cov :: "'s \<Rightarrow> 'c \<Rightarrow> int \<Rightarrow> bool" and defined :: "'c \<Rightarrow> bool"
    and undef :: 'c and getLinks :: "('c, 's) getLinks" and succs :: "'c \<Rightarrow> 'c list" and nodes :: "'c set"
    and options :: "('c, 's) walkOptions" and root :: 'c +
  fixes credit :: "'s \<Rightarrow> nat"
  assumes credit_accept: "c \<in> nodes \<Longrightarrow> 0 \<le> d \<Longrightarrow> fst (visit c d s) \<Longrightarrow>
      credit (snd (visit c d s)) + 6 * length (succs c) \<le> credit s"
    and credit_reject: "\<not> fst (visit c d s) \<Longrightarrow> credit (snd (visit c d s)) \<le> credit s"
    and credit_links: "credit (snd (getLinks c s)) = credit s"
    and some_worker: "0 < optConcurrency options"
begin

fun weight :: "'c worker \<Rightarrow> nat" where
  "weight (AtVisit cd) = 5"
| "weight (AtFetch cd) = 4 + 6 * length (succs (cdCid cd))"
| "weight (AtOut ls d) = 3 + 6 * length ls"
| "weight AtDone = 2"
| "weight (AtErr e) = 1"
| "weight AtFeed = 1"
| "weight Exited = 0"

fun phaseWeight :: "phase \<Rightarrow> nat" where
  "phaseWeight Running = 2"
| "phaseWeight (Returning r) = 1"
| "phaseWeight (Returned r) = 0"

definition queueLength :: "('c, 's) parState \<Rightarrow> nat" where
  "queueLength p = length (parTodo p) + (if parSend p then 1 else 0)"

definition stepsLeft :: "('c, 's) parState \<Rightarrow> nat" where
  "stepsLeft p = credit (parVst p) + sum_list (map weight (parWorkers p)) +
     6 * queueLength p + phaseWeight (parPhase p)"

lemma weight_update:
  "i < length ws \<Longrightarrow> sum_list (map weight (ws[i := w])) + weight (ws ! i) = sum_list (map weight ws) + weight w"
  by (rule sum_list_update_nat)

lemma takeNext_length: "parSend p \<Longrightarrow> queueLength (takeNext undef p) + 1 = queueLength p"
  by (simp add: takeNext_def queueLength_def split: list.splits)

lemma enqueueAll_length:
  "\<forall>k \<in> set ks. defined k \<Longrightarrow> wfQueue defined p \<Longrightarrow>
   queueLength (enqueueAll defined ks d p) = queueLength p + length ks"
proof (induction ks arbitrary: p)
  case Nil
  then show ?case by simp
next
  case (Cons k ks)
  have "queueLength (enqueue defined d k p) = queueLength p + 1"
    using Cons.prems(2) by (auto simp: enqueue_def queueLength_def wfQueue_def)
  then show ?case using Cons.IH [of "enqueue defined d k p"] Cons.prems enqueue_wf [of defined k p d]
    by simp
qed

lemma stepsLeft_visit:
  assumes "pathInv p" and "i < length (parWorkers p)" and "parWorkers p ! i = AtVisit cd"
  shows "stepsLeft (callVisit visit options i cd p) < stepsLeft p"
proof -
  have "cdCid cd \<in> nodes" and "0 \<le> cdDepth cd"
    using pathInv_worker [OF assms(1,2)] assms(3) pathTo_nonneg by (auto simp: onPath_def)
  note credit = credit_accept [OF this, of "parVst p"] credit_reject [of "cdCid cd" "cdDepth cd" "parVst p"]
  show ?thesis
  proof (cases "fst (visit (cdCid cd) (cdDepth cd) (parVst p))")
    case True
    then show ?thesis using credit assms(3) weight_update [OF assms(2), of "AtFetch cd"]
      by (simp add: stepsLeft_def callVisit_eq Let_def queueLength_def)
  next
    case False
    then show ?thesis using credit assms(3) weight_update [OF assms(2), of AtDone]
      by (simp add: stepsLeft_def callVisit_eq Let_def queueLength_def)
  qed
qed

lemma stepsLeft_fetch:
  assumes "pathInv p" and "i < length (parWorkers p)" and "parWorkers p ! i = AtFetch cd"
    and "fetchLinksOf getLinks options root cd (parVst p) = Some (w, s')"
  shows "stepsLeft (setWorker i w (p\<lparr>parVst := s'\<rparr>)) < stepsLeft p"
proof -
  have "cd \<in> set (parVisits p)" using pathInv_worker [OF assms(1,2)] assms(3) by simp
  then have "cdCid cd \<in> nodes" using pathInvD(3) [OF assms(1)] by (auto simp: onPath_def)
  from fetch_result [OF this assms(4)] have "weight w < weight (AtFetch cd)" and "credit s' = credit (parVst p)"
    using credit_links by auto
  then show ?thesis using weight_update [OF assms(2), of w] assms(3)
    by (simp add: stepsLeft_def queueLength_def)
qed

lemma stepsLeft_setWorker:
  "i < length (parWorkers p) \<Longrightarrow> weight w < weight (parWorkers p ! i) \<Longrightarrow>
   stepsLeft (setWorker i w p) < stepsLeft p"
  using weight_update [of i "parWorkers p" w] by (simp add: stepsLeft_def queueLength_def)

lemma stepsLeft_step: "pstep p p' \<Longrightarrow> pathInv p \<Longrightarrow> stepsLeft p' < stepsLeft p"
proof (induction rule: parStep.induct)
  case (feed p i)
  then show ?case
    using weight_update [of i "parWorkers p" "AtVisit (parNext p)"]
      takeNext_length [of "setWorker i (AtVisit (parNext p)) p"]
    by (simp add: stepsLeft_def) (simp add: queueLength_def)
next
  case (out p i links d)
  have "queueLength (enqueueAll defined links d (setWorker i AtDone p)) = queueLength p + length links"
    using enqueueAll_length [OF out_links_defined(2) [OF out.prems out.hyps(2,3)]]
      pathInvD(1) [OF out.prems] by (simp add: queueLength_def)
  then show ?case using weight_update [of i "parWorkers p" AtDone] out.hyps by (simp add: stepsLeft_def)
next
  case (err p i e)
  then show ?case using weight_update [of i "parWorkers p" Exited] by (simp add: stepsLeft_def queueLength_def)
next
  case (notify p i)
  then show ?case using weight_update [of i "parWorkers p" AtFeed] by (simp add: stepsLeft_def queueLength_def)
next
  case (ctx_done p)
  then show ?case by (simp add: stepsLeft_def queueLength_def)
next
  case (wait p r)
  then show ?case by (simp add: stepsLeft_def queueLength_def)
qed (auto intro: stepsLeft_visit stepsLeft_fetch stepsLeft_setWorker)

theorem par_no_infinite_run:
  assumes "preach s (f 0)" and "\<And>n. pstep (f n) (f (Suc n))"
  shows False
proof -
  have reach: "preach s (f n)" for n
    by (induction n) (use assms in \<open>auto intro: parReach.step\<close>)
  have less: "stepsLeft (f (Suc n)) < stepsLeft (f n)" for n
    using stepsLeft_step [OF assms(2) pathInv_reach [OF reach]] .
  have "stepsLeft (f n) + n \<le> stepsLeft (f 0)" for n
  proof (induction n)
    case (Suc n)
    then show ?case using less [of n] by simp
  qed simp
  from this [of "Suc (stepsLeft (f 0))"] show False by simp
qed

theorem par_returns:
  "preach s p \<Longrightarrow> \<exists>p' r. pstep\<^sup>*\<^sup>* p p' \<and> preach s p' \<and> parCtxDone p' = parCtxDone p \<and> parPhase p' = Returned r"
proof (induction "stepsLeft p" arbitrary: p rule: less_induct)
  case less
  show ?case
  proof (cases "\<exists>r. parPhase p = Returned r")
    case True
    with less.prems show ?thesis by blast
  next
    case False
    then obtain p1 where p1: "pstep p p1"
      using par_progress [OF less.prems some_worker] by blast
    have "parCtxDone p1 = parCtxDone p" using p1
      by cases (simp_all add: callVisit_eq Let_def)
    moreover have "preach s p1" using less.prems p1 by (rule parReach.step)
    moreover have "stepsLeft p1 < stepsLeft p"
      using stepsLeft_step [OF p1 pathInv_reach [OF less.prems]] .
    ultimately show ?thesis
      using less.hyps [of p1] p1 by (metis converse_rtranclp_into_rtranclp)
  qed
qed

end

section \<open>A visited set over a finite graph\<close>

locale par_graph = visitor visit seen
  for visit :: "('c, 's) visitFun" and seen :: "'s \<Rightarrow> 'c set" +
  fixes getLinks :: "('c, 's) getLinks" and succs :: "'c \<Rightarrow> 'c list" and nodes :: "'c set"
    and defined :: "'c \<Rightarrow> bool" and undef :: 'c and options :: "('c, 's) walkOptions" and root :: 'c
  assumes finite_graph: "finite nodes"
    and graph_closed: "c \<in> nodes \<Longrightarrow> set (succs c) \<subseteq> nodes"
    and found_or_error: "c \<in> nodes \<Longrightarrow> fst (getLinks c s) = (succs c, None) \<or>
      snd (fst (getLinks c s)) \<noteq> None \<and> optErrorHandler options = None"
    and seen_links: "seen (snd (getLinks c s)) = seen s"
    and undef_cid: "\<not> defined undef"
    and root_in: "root \<in> nodes"
    and nodes_def: "c \<in> nodes \<Longrightarrow> defined c"
    and not_skipped: "\<not> optSkipRoot options"
    and has_worker: "0 < optConcurrency options"
begin

text \<open>The credit of a visited set: the links of what has not been seen.\<close>

definition unseenLinks :: "'s \<Rightarrow> nat" where
  "unseenLinks s = (\<Sum>c \<in> nodes - seen s. 6 * length (succs c))"

lemma unseenLinks_visit:
  assumes "c \<in> nodes" and "c \<notin> seen s" and "seen s' = insert c (seen s)"
  shows "unseenLinks s' + 6 * length (succs c) = unseenLinks s"
proof -
  have "nodes - seen s = insert c (nodes - seen s')" using assms by auto
  moreover have "c \<notin> nodes - seen s'" using assms by auto
  ultimately show ?thesis using finite_graph by (simp add: unseenLinks_def)
qed

end

sublocale par_graph \<subseteq> par_bounded visit "\<lambda>s c d. c \<in> seen s" defined undef getLinks succs nodes options root
    unseenLinks
proof (unfold_locales, goal_cases)
  case (8 c d s)
  then show ?case using unseenLinks_visit [of c s "snd (visit c d s)"] by (simp add: visit_new visit_seen)
next
  case (9 c d s)
  then show ?case by (simp add: visit_new visit_seen unseenLinks_def insert_absorb)
next
  case (10 c s)
  show ?case by (simp add: unseenLinks_def seen_links)
next
  case (5 c s)
  then show ?case by (rule found_or_error)
qed (use undef_cid root_in graph_closed nodes_def seen_links not_skipped has_worker in auto)

context par_graph
begin

lemma seen_visits: "preach s p \<Longrightarrow> seen (parVst p) = seen s \<union> cdCid ` set (parVisits p)"
  by (rule vst_inv_reach [where I = "\<lambda>s' vs. seen s' = seen s \<union> cdCid ` set vs"])
    (auto simp: visit_seen visit_new seen_links)

theorem par_seen_reach:
  assumes "preach s p" and "parPhase p = Returned None" and "seen s = {}"
  shows "seen (parVst p) = reach succs root"
proof
  have seen: "seen (parVst p) = cdCid ` set (parVisits p)" using seen_visits [OF assms(1)] assms(3) by simp
  show "seen (parVst p) \<subseteq> reach succs root"
    using seen visits_on_path [OF assms(1)] pathTo_reach by fastforce
  show "reach succs root \<subseteq> seen (parVst p)"
    using returned_nil_covered [OF assms(1,2)] seen by (intro reach_least) auto
qed

end

end
