(* ===== verification/FetchGraph.thy ===== *)
theory FetchGraph
  imports ParWalkLive
begin

text \<open>
  The walks as the repository runs them: \<open>FetchGraph\<close> and \<open>FetchGraphWithDepthLimit\<close>
  (mdag.go, lines 166 to 229) with the default number of workers, and the walk of
  \<open>basicDAGWalker\<close> (bitswap.go, lines 301 to 325) with one. The contract of the node getter
  they rely on is a locale; both walks are correct for every getter that keeps it.
\<close>

section \<open>The walks\<close>

definition FetchGraphWithDepthLimit :: "('c \<Rightarrow> bool) \<Rightarrow> 'c \<Rightarrow> ('n \<Rightarrow> 'c list) \<Rightarrow> ('c, 'n, 'e) nodeGet \<Rightarrow>
    'c \<Rightarrow> int \<Rightarrow> ProgressTracker option \<Rightarrow> 'e \<Rightarrow> goerr option \<Rightarrow> ('c, 'e) fetchState \<Rightarrow> bool" where
  "FetchGraphWithDepthLimit defined undef nodeLinks get root depthLim tracker env =
     WalkDepth defined undef (fetchLinks nodeLinks get) root (fetchGraphVisit depthLim) [Concurrent]
       (fetchInit tracker env)"

definition FetchGraph :: "('c \<Rightarrow> bool) \<Rightarrow> 'c \<Rightarrow> ('n \<Rightarrow> 'c list) \<Rightarrow> ('c, 'n, 'e) nodeGet \<Rightarrow>
    'c \<Rightarrow> ProgressTracker option \<Rightarrow> 'e \<Rightarrow> goerr option \<Rightarrow> ('c, 'e) fetchState \<Rightarrow> bool" where
  "FetchGraph defined undef nodeLinks get root =
     FetchGraphWithDepthLimit defined undef nodeLinks get root (-1)"

text \<open>The walk of \<open>basicDAGWalker\<close>: a new CID set, a new tracker, one worker.\<close>

definition basicWalk :: "('c \<Rightarrow> bool) \<Rightarrow> 'c \<Rightarrow> 'cs \<Rightarrow> ('c \<Rightarrow> 'cs \<Rightarrow> bool \<times> 'cs) \<Rightarrow> ('n \<Rightarrow> 'c list) \<Rightarrow>
    ('c, 'n, 'e) nodeGet \<Rightarrow> 'c \<Rightarrow> 'e \<Rightarrow> goerr option \<Rightarrow> ('cs, 'e) walkerState \<Rightarrow> bool" where
  "basicWalk defined undef csNew csVisit nodeLinks get root env =
     Walk defined undef (walkerLinks nodeLinks get) root (visitProgress csVisit) [Concurrency 1]
       (walkerInit csNew env)"

section \<open>The contract of a node getter\<close>

text \<open>
  What a walk needs from the node getter behind it: a finite set of defined CIDs, closed
  under links, whose nodes are all found. The getter itself is code outside the repository.
\<close>

locale dag_source =
  fixes get :: "('c, 'n, 'e) nodeGet" and nodeLinks :: "'n \<Rightarrow> 'c list"
    and succs :: "'c \<Rightarrow> 'c list" and nodes :: "'c set" and defined :: "'c \<Rightarrow> bool" and undef :: 'c
  assumes finite_dag: "finite nodes"
    and dag_closed: "c \<in> nodes \<Longrightarrow> set (succs c) \<subseteq> nodes"
    and dag_defined: "c \<in> nodes \<Longrightarrow> defined c"
    and undef_undefined: "\<not> defined undef"
    and get_found: "c \<in> nodes \<Longrightarrow> \<exists>nd e'. get c e = (Inr nd, e') \<and> nodeLinks nd = succs c"
begin

lemma links_found: "c \<in> nodes \<Longrightarrow> fst (GetLinksDirect nodeLinks get c e) = (succs c, None)"
  using get_found [of c e] by (auto simp: GetLinksDirect_Inr)

end

sublocale dag_source \<subseteq> fetch: graph_visitor "fetchGraphVisit (-1)" "\<lambda>s. dom (fsSet s)"
    "fetchLinks nodeLinks get" succs nodes
  by unfold_locales (simp_all add: finite_dag dag_closed links_found)

text \<open>The same with nodes that may be missing: a request finds the node or gives an error.\<close>

locale partial_dag =
  fixes get :: "('c, 'n, 'e) nodeGet" and nodeLinks :: "'n \<Rightarrow> 'c list" and succs :: "'c \<Rightarrow> 'c list"
    and nodes :: "'c set" and defined :: "'c \<Rightarrow> bool" and undef :: 'c and root :: 'c
  assumes part_finite: "finite nodes"
    and part_closed: "c \<in> nodes \<Longrightarrow> set (succs c) \<subseteq> nodes"
    and part_defined: "c \<in> nodes \<Longrightarrow> defined c"
    and part_undef: "\<not> defined undef"
    and part_root: "root \<in> nodes"
    and part_links: "c \<in> nodes \<Longrightarrow> fst (get c e) = Inr nd \<Longrightarrow> nodeLinks nd = succs c"
begin

lemma links_or_error:
  "c \<in> nodes \<Longrightarrow> fst (GetLinksDirect nodeLinks get c e) = (succs c, None) \<or> snd (fst (GetLinksDirect nodeLinks get c e)) \<noteq> None"
  using part_links [of c e] by (auto simp: GetLinksDirect_def split: prod.splits sum.splits)

end

locale rooted_dag = dag_source get nodeLinks succs nodes defined undef
  for get :: "('c, 'n, 'e) nodeGet" and nodeLinks :: "'n \<Rightarrow> 'c list" and succs :: "'c \<Rightarrow> 'c list"
    and nodes :: "'c set" and defined :: "'c \<Rightarrow> bool" and undef :: 'c +
  fixes root :: 'c
  assumes root_in_dag: "root \<in> nodes"

lemma applyOptions_Concurrent [simp]:
  "optConcurrency (applyOptions [Concurrent]) = 32" "optSkipRoot (applyOptions [Concurrent]) = False"
  "optErrorHandler (applyOptions [Concurrent]) = None"
  by (simp_all add: applyOptions_def option_defs defaultConcurrentFetch_def)

lemma applyOptions_Concurrency [simp]:
  "optConcurrency (applyOptions [Concurrency n]) = n" "optSkipRoot (applyOptions [Concurrency n]) = False"
  "optErrorHandler (applyOptions [Concurrency n]) = None"
  by (simp_all add: applyOptions_def option_defs)

sublocale partial_dag \<subseteq> fetch_par: par_graph "fetchGraphVisit (-1)" "\<lambda>s. dom (fsSet s)"
    "fetchLinks nodeLinks get" succs nodes defined undef "applyOptions [Concurrent]" root
  by unfold_locales (use links_or_error in \<open>simp_all add: part_finite part_closed part_defined part_undef part_root\<close>)

sublocale rooted_dag \<subseteq> partial_dag get nodeLinks succs nodes defined undef root
proof (unfold_locales, goal_cases)
  case (6 c e nd)
  then show ?case using get_found [of c e] by auto
qed (use finite_dag dag_closed dag_defined undef_undefined root_in_dag in auto)

context rooted_dag
begin

lemma as_partial: "partial_dag get nodeLinks succs nodes defined undef root"
  by (rule partial_dag_axioms)

end

section \<open>Depth limits\<close>

text \<open>With a limit a pair is covered when it is too deep, or recorded at most as deep.\<close>

definition limitCov :: "int \<Rightarrow> ('c, 'e) fetchState \<Rightarrow> 'c \<Rightarrow> int \<Rightarrow> bool" where
  "limitCov lim s c d \<longleftrightarrow> lim < d \<or> (\<exists>d0. fsSet s c = Some d0 \<and> d0 \<le> d)"

lemma limitCov_coverage:
  assumes "0 \<le> lim"
  shows "coverage (fetchGraphVisit lim :: ('c, ('c, 'e) fetchState) visitFun) (limitCov lim)"
proof (unfold_locales, goal_cases)
  case (1 c d s)
  then show ?case using assms by (auto simp: limitCov_def fetchVisit_proj split: option.splits)
next
  case (2 s c' d' c d)
  then show ?case using assms
    by (auto simp: limitCov_def fetchVisit_proj split: option.splits if_splits)
qed

context partial_dag
begin

lemma limited_par_walk:
  assumes "0 \<le> lim"
  shows "par_walk (fetchGraphVisit lim) (limitCov lim) defined undef (fetchLinks nodeLinks get)
     succs nodes (applyOptions [Concurrent]) root"
  by (intro par_walk.intro limitCov_coverage [OF assms] par_walk_axioms.intro)
    (use links_or_error in \<open>simp_all add: part_undef part_root part_closed part_defined limitCov_def fun_eq_iff\<close>)

text \<open>Each acceptance of a CID lowers its recorded depth, so the depth that is left pays for
  its links.\<close>

definition depthLeft :: "int \<Rightarrow> int option \<Rightarrow> nat" where
  "depthLeft lim old = (case old of None \<Rightarrow> nat (lim + 1) | Some d \<Rightarrow> nat d)"

definition limitCredit :: "int \<Rightarrow> ('c, 'e) fetchState \<Rightarrow> nat" where
  "limitCredit lim s = (\<Sum>c \<in> nodes. depthLeft lim (fsSet s c) * (6 * length (succs c)))"

lemma limitCredit_accept:
  assumes "0 \<le> lim" and "c \<in> nodes" and "0 \<le> d" and "fst (fetchVisit lim c d s)"
  shows "limitCredit lim (snd (fetchGraphVisit lim c d s)) + 6 * length (succs c) \<le> limitCredit lim s"
proof -
  let ?s' = "snd (fetchGraphVisit lim c d s)"
  let ?t = "\<lambda>s x. depthLeft lim (fsSet s x) * (6 * length (succs x))"
  have set': "fsSet ?s' = (fsSet s)(c \<mapsto> d)" using assms(4) by (simp add: fetchVisit_proj(2))
  have "depthLeft lim (Some d) + 1 \<le> depthLeft lim (fsSet s c)"
    using assms by (auto simp: fetchVisit_proj(1) depthLeft_def split: option.splits)
  then have "(depthLeft lim (Some d) + 1) * (6 * length (succs c)) \<le> ?t s c" by (rule mult_le_mono1)
  then have one: "?t ?s' c + 6 * length (succs c) \<le> ?t s c" unfolding set' by (simp add: algebra_simps)
  have rest: "sum (?t ?s') (nodes - {c}) = sum (?t s) (nodes - {c})"
    unfolding set' by (rule sum.cong) auto
  have split: "limitCredit lim x = ?t x c + sum (?t x) (nodes - {c})" for x
    unfolding limitCredit_def using assms(2) part_finite by (rule sum.remove [rotated])
  show ?thesis unfolding split using one rest by simp
qed

lemma limitCredit_frame: "fsSet s' = fsSet s \<Longrightarrow> limitCredit lim s' = limitCredit lim s"
  by (simp add: limitCredit_def)

lemma limited_par_bounded:
  assumes "0 \<le> lim"
  shows "par_bounded (fetchGraphVisit lim) (limitCov lim) defined undef (fetchLinks nodeLinks get)
     succs nodes (applyOptions [Concurrent]) root (limitCredit lim)"
proof (intro par_bounded.intro limited_par_walk [OF assms] par_bounded_axioms.intro, goal_cases)
  case (1 c d s)
  then show ?case using limitCredit_accept [OF assms] by simp
next
  case (2 c d s)
  then show ?case using limitCredit_frame [of "snd (fetchGraphVisit lim c d s)" s lim]
    by (simp add: fetchVisit_proj(2))
next
  case (3 c s)
  then show ?case by (rule limitCredit_frame) simp
qed simp

text \<open>Every recorded depth was accepted at that depth and lies within the limit.\<close>

lemma limited_recorded:
  assumes "0 \<le> lim"
    and "parReach defined undef (fetchLinks nodeLinks get) (fetchGraphVisit lim) (applyOptions [Concurrent])
           root (fetchInit tracker env) p"
    and "fsSet (parVst p) c = Some d"
  shows "\<lparr>cdCid = c, cdDepth = d\<rparr> \<in> set (parVisits p)" and "d \<le> lim"
proof -
  have "\<forall>c d. fsSet (parVst p) c = Some d \<longrightarrow> \<lparr>cdCid = c, cdDepth = d\<rparr> \<in> set (parVisits p) \<and> d \<le> lim"
    by (rule par_walk.vst_inv_reach [OF limited_par_walk [OF assms(1)] assms(2), where
          I = "\<lambda>s vs. \<forall>c d. fsSet s c = Some d \<longrightarrow> \<lparr>cdCid = c, cdDepth = d\<rparr> \<in> set vs \<and> d \<le> lim"])
      (use assms(1) in \<open>auto simp: fetchInit_def fetchVisit_proj split: if_splits\<close>)
  with assms(3) show "\<lparr>cdCid = c, cdDepth = d\<rparr> \<in> set (parVisits p)" and "d \<le> lim" by auto
qed

text \<open>Every path within the limit is recorded at most at its length.\<close>

lemma limited_covers_paths:
  assumes "0 \<le> lim"
    and "parReach defined undef (fetchLinks nodeLinks get) (fetchGraphVisit lim) (applyOptions [Concurrent])
           root (fetchInit tracker env) p"
    and "parPhase p = Returned None" and "pathTo succs root c d" and "d \<le> lim"
  shows "\<exists>d0 \<le> d. fsSet (parVst p) c = Some d0"
  using assms(4,5)
proof (induction rule: pathTo.induct)
  case path_here
  then show ?case
    using par_walk.returned_nil_covered(1) [OF limited_par_walk [OF assms(1)] assms(2,3)] assms(1)
    by (auto simp: limitCov_def)
next
  case (path_link c d k)
  then obtain d0 where d0: "d0 \<le> d" "fsSet (parVst p) c = Some d0" by auto
  then have "limitCov lim (parVst p) k (d0 + 1)"
    using par_walk.returned_nil_covered(2) [OF limited_par_walk [OF assms(1)] assms(2,3)
        limited_recorded(1) [OF assms(1,2)]] path_link.hyps(2) by auto
  then show ?case using d0 path_link.prems by (auto simp: limitCov_def)
qed

end

lemma fetchGraphVisit_negative: "lim < 0 \<Longrightarrow> fetchGraphVisit lim = fetchGraphVisit (-1)"
  by (simp add: fun_eq_iff fetchGraphVisit_def fetchVisitProgress_def fetchVisit_def)

text \<open>Whatever the limit, the walk is bounded: it returns, and no schedule goes on for ever.\<close>

context partial_dag
begin

abbreviation fetchStep :: "int \<Rightarrow> ('c, ('c, 'e) fetchState) parState \<Rightarrow> ('c, ('c, 'e) fetchState) parState \<Rightarrow> bool" where
  "fetchStep lim \<equiv> parStep defined undef (fetchLinks nodeLinks get) (fetchGraphVisit lim)
     (applyOptions [Concurrent]) root"

abbreviation fetchReach :: "int \<Rightarrow> ('c, 'e) fetchState \<Rightarrow> ('c, ('c, 'e) fetchState) parState \<Rightarrow> bool" where
  "fetchReach lim \<equiv> parReach defined undef (fetchLinks nodeLinks get) (fetchGraphVisit lim)
     (applyOptions [Concurrent]) root"

lemma fetch_bounded: "\<exists>cov credit. par_bounded (fetchGraphVisit lim) cov defined undef
    (fetchLinks nodeLinks get) succs nodes (applyOptions [Concurrent]) root credit"
proof (cases "lim < 0")
  case True
  then show ?thesis using fetch_par.par_bounded_axioms fetchGraphVisit_negative by metis
next
  case False
  then show ?thesis using limited_par_bounded [of lim] by auto
qed

text \<open>Whenever the walk has returned an error, it was cancelled or a node gave that error.\<close>

lemma fetch_error:
  assumes "fetchReach lim s p" and "parPhase p = Returned (Some err)" and "\<not> parCtxDone p"
  shows "\<exists>c \<in> nodes. \<exists>e. snd (fst (GetLinksDirect nodeLinks get c e)) = Some err"
proof -
  obtain cov credit where b: "par_bounded (fetchGraphVisit lim) cov defined undef
      (fetchLinks nodeLinks get) succs nodes (applyOptions [Concurrent]) root credit"
    using fetch_bounded by blast
  note w = par_bounded.axioms(1) [OF b]
  show ?thesis
    using par_walk.par_uncancelled_error [OF w assms(1)] assms(2,3) unfolding par_walk.reported_def [OF w] by fastforce
qed

lemma fetch_returns:
  assumes "fetchReach lim s p"
  shows "\<exists>p' r. (fetchStep lim)\<^sup>*\<^sup>* p p' \<and> fetchReach lim s p' \<and> parPhase p' = Returned r \<and>
    (\<forall>err. r = Some err \<longrightarrow> parCtxDone p \<or> (\<exists>c \<in> nodes. \<exists>e. snd (fst (GetLinksDirect nodeLinks get c e)) = Some err))"
proof -
  obtain cov credit where b: "par_bounded (fetchGraphVisit lim) cov defined undef
      (fetchLinks nodeLinks get) succs nodes (applyOptions [Concurrent]) root credit"
    using fetch_bounded by blast
  obtain p' r where p': "(fetchStep lim)\<^sup>*\<^sup>* p p'" "fetchReach lim s p'" "parCtxDone p' = parCtxDone p"
      "parPhase p' = Returned r"
    using par_bounded.par_returns [OF b assms] by blast
  then show ?thesis using fetch_error [OF p'(2)] by auto
qed

lemma fetch_no_infinite_run: "fetchReach lim s (f 0) \<Longrightarrow> \<exists>n. \<not> fetchStep lim (f n) (f (Suc n))"
proof (rule ccontr)
  assume reach: "fetchReach lim s (f 0)" and "\<nexists>n. \<not> fetchStep lim (f n) (f (Suc n))"
  then have steps: "\<And>n. fetchStep lim (f n) (f (Suc n))" by blast
  from fetch_bounded [of lim] show False
    by (elim exE) (rule par_bounded.par_no_infinite_run [OF _ reach steps])
qed

end

context rooted_dag
begin

lemma fetch_returns_nil:
  "\<exists>s'. FetchGraphWithDepthLimit defined undef nodeLinks get root lim tracker env None s'"
proof -
  obtain p' r where "fetchReach lim (fetchInit tracker env) p'" "parPhase p' = Returned r" "r = None"
    using fetch_returns [OF parReach.start, of lim "fetchInit tracker env"] links_found by auto
  then have "WalkDepth defined undef (fetchLinks nodeLinks get) root (fetchGraphVisit lim) [Concurrent]
      (fetchInit tracker env) None (parVst p')"
    by (intro WalkDepth.parallel) simp_all
  then show ?thesis unfolding FetchGraphWithDepthLimit_def by blast
qed

end

context rooted_dag
begin

lemma fetch_tracked: "par_graph (fetchGraphVisit (-1)) (\<lambda>s. dom (fsSet s)) (fetchLinks nodeLinks get)
    succs nodes defined undef (applyOptions [Concurrent]) root"
  by (rule fetch_par.par_graph_axioms)

text \<open>The tracker counts the visited CIDs.\<close>

lemma fetch_total:
  assumes "fetchReach (-1) (fetchInit tracker env) p"
  shows "fsTracker (parVst p) =
    map_option (\<lambda>pt. pt\<lparr>Total := Total pt + int (card (dom (fsSet (parVst p))))\<rparr>) tracker"
proof -
  have "finite (dom (fsSet (parVst p))) \<and> fsTracker (parVst p) =
      map_option (\<lambda>pt. pt\<lparr>Total := Total pt + int (card (dom (fsSet (parVst p))))\<rparr>) tracker"
    by (rule fetch_par.vst_inv_reach [OF assms, where I = "\<lambda>s vs. finite (dom (fsSet s)) \<and>
        fsTracker s = map_option (\<lambda>pt. pt\<lparr>Total := Total pt + int (card (dom (fsSet s)))\<rparr>) tracker"])
      (auto simp: fetchInit_def fetchGraphVisit_tracker fetchVisit_proj Increment_def option.map_comp
        comp_def option.map_ident card_insert_if algebra_simps split: option.splits)
  then show ?thesis by simp
qed

end

text \<open>The walk of \<open>basicDAGWalker\<close> under both contracts, the CID set's and the getter's.\<close>

context rooted_dag
begin

lemma basic_visitor:
  assumes "cid_set csNew csVisit csHas csElems"
  shows "graph_visitor (visitDepth (visitProgress csVisit)) (\<lambda>s. csElems (wsSet s))
     (walkerLinks nodeLinks get) succs nodes"
  by (intro graph_visitor.intro visitor.intro graph_visitor_axioms.intro)
    (simp_all add: visitDepth_def cid_set.visitProgress_new [OF assms]
      cid_set.visitProgress_elems [OF assms] finite_dag dag_closed links_found)

lemma basic_walk_run:
  assumes cs: "cid_set csNew csVisit csHas csElems"
  shows "\<exists>s'. sequentialWalkDepth (Suc (card nodes)) (walkerLinks nodeLinks get)
      (visitDepth (visitProgress csVisit)) (applyOptions [Concurrency 1]) root 0 (walkerInit csNew env)
        = Some (None, s') \<and>
      csElems (wsSet s') = reach succs root \<and> Value (wsPt s') = int (card (reach succs root))"
proof -
  note gv = basic_visitor [OF cs]
  have new: "csElems (wsSet (walkerInit csNew env)) = {}"
    using cid_set.cs_new [OF cs] by (simp add: walkerInit_def)
  obtain s' where run: "sequentialWalkDepth (Suc (card nodes)) (walkerLinks nodeLinks get)
      (visitDepth (visitProgress csVisit)) (applyOptions [Concurrency 1]) root 0 (walkerInit csNew env)
        = Some (None, s')"
    and cov: "graph_visitor.covers (\<lambda>s. csElems (wsSet s)) succs {root} (walkerInit csNew env) s'"
    using graph_visitor.walk_covers [OF gv root_in_dag, of "applyOptions [Concurrency 1]"
        "walkerInit csNew env" "Suc (card nodes)" 0] new by auto
  have elems: "csElems (wsSet s') = reach succs root"
    by (rule graph_visitor.covers_reach [OF gv new cov])
  have "finite (csElems (wsSet s')) \<and> Total (wsPt s') = int (card (csElems (wsSet s')))"
    by (rule walk_inv [where I = "\<lambda>s. finite (csElems (wsSet s)) \<and>
          Total (wsPt s) = int (card (csElems (wsSet s)))", OF _ _ _ _ run])
      (auto simp: visitDepth_def cid_set.visitProgress_elems [OF cs] cid_set.visitProgress_total [OF cs]
        cid_set.cs_new [OF cs] walkerInit_def zeroTracker_def card_insert_if)
  with run elems show ?thesis by (simp add: Value_def)
qed

end

lemma basicWalk_iff: "basicWalk defined undef csNew csVisit nodeLinks get root env r s' \<longleftrightarrow>
    (\<exists>n. sequentialWalkDepth n (walkerLinks nodeLinks get) (visitDepth (visitProgress csVisit))
       (applyOptions [Concurrency 1]) root 0 (walkerInit csNew env) = Some (r, s'))"
  by (auto simp: basicWalk_def Walk_def intro: WalkDepth.sequential elim: WalkDepthE)

text \<open>
  A getter may find the nodes only in the environments that a walk brings it into. Then the
  walk of \<open>basicDAGWalker\<close> is as complete, and leaves such an environment.
\<close>

lemma basic_walk_env:
  fixes get :: "('c, 'n, 'e) nodeGet"
  assumes cs: "cid_set csNew csVisit csHas csElems" and "finite nodes" and "root \<in> nodes"
    and closed: "\<And>c. c \<in> nodes \<Longrightarrow> set (succs c) \<subseteq> nodes"
    and found: "\<And>c e. c \<in> nodes \<Longrightarrow> J e \<Longrightarrow> \<exists>nd e'. get c e = (Inr nd, e') \<and> nodeLinks nd = succs c \<and> J e'"
    and "J env" and "\<And>c. c \<in> nodes \<Longrightarrow> defined c" and "\<not> defined undef"
  shows "\<exists>s'. sequentialWalkDepth (Suc (card nodes)) (walkerLinks nodeLinks get)
      (visitDepth (visitProgress csVisit)) (applyOptions [Concurrency 1]) root 0 (walkerInit csNew env) = Some (None, s') \<and>
      csElems (wsSet s') = reach succs root \<and> Value (wsPt s') = int (card (reach succs root)) \<and> J (wsEnv s')"
proof -
  define nodeOf where "nodeOf c = (SOME nd. nodeLinks nd = succs c)" for c
  define get' where "get' c e = (if c \<in> nodes \<and> \<not> J e then (Inr (nodeOf c), e) else get c e)" for c e
  have nodeOf: "nodeLinks (nodeOf c) = succs c" if "c \<in> nodes" for c
    unfolding nodeOf_def by (rule someI_ex) (use found [OF that \<open>J env\<close>] in blast)
  have "\<exists>nd e'. get' c e = (Inr nd, e') \<and> nodeLinks nd = succs c" if "c \<in> nodes" for c e
    using found [OF that, of e] nodeOf [OF that] that by (cases "J e") (auto simp: get'_def)
  then have dag: "rooted_dag get' nodeLinks succs nodes defined undef root"
    by unfold_locales (use assms in auto)
  let ?walk = "\<lambda>get. sequentialWalkDepth (Suc (card nodes)) (walkerLinks nodeLinks get)
      (visitDepth (visitProgress csVisit)) (applyOptions [Concurrency 1]) root 0 (walkerInit csNew env)"
  have links: "walkerLinks nodeLinks get c s = walkerLinks nodeLinks get' c s \<and>
      set (fst (fst (walkerLinks nodeLinks get' c s))) \<subseteq> nodes \<and> J (wsEnv (snd (walkerLinks nodeLinks get' c s)))"
    if "c \<in> nodes" "J (wsEnv s)" for c s
    using found [OF that] closed [OF that(1)] that by (auto simp: walkerLinks_def GetLinksDirect_def get'_def)
  have "?walk get = ?walk get' \<and> (\<forall>e s'. ?walk get' = Some (e, s') \<longrightarrow> J (wsEnv s'))"
  proof (rule walk_cong_on [where I = "\<lambda>s. J (wsEnv s)" and N = nodes], fact links)
    show "J (wsEnv (snd (visitDepth (visitProgress csVisit) c d s)))" if "J (wsEnv s)" for c d s
      using that by (simp add: visitDepth_def visitProgress_def split_beta)
  qed (use assms in \<open>auto simp: walkerInit_def handleErr_def\<close>)
  then show ?thesis using rooted_dag.basic_walk_run [OF dag cs, of env] by auto
qed

text \<open>The distance of a CID from the root: the length of a shortest path of links.\<close>

definition distance :: "('c \<Rightarrow> 'c list) \<Rightarrow> 'c \<Rightarrow> 'c \<Rightarrow> int \<Rightarrow> bool" where
  "distance succs root c d \<longleftrightarrow> pathTo succs root c d \<and> (\<forall>d'. pathTo succs root c d' \<longrightarrow> d \<le> d')"

end
