(* ===== verification/WalkProps.thy ===== *)
theory WalkProps
  imports FetchGraph
begin

text \<open>
  The properties of the walks: what the sequential and the concurrent walk visit, when they
  return, what they record, and which errors they return; with an example graph on which
  the hypotheses of each hold.
\<close>

section \<open>An example graph\<close>

definition demoLinks :: "nat \<Rightarrow> nat list" where
  "demoLinks c = (if c = 1 then [2, 3] else if c = 2 then [3] else [])"

definition demoGet :: "(nat, nat, unit) nodeGet" where
  "demoGet c e = (Inr c, e)"

interpretation demo: rooted_dag demoGet demoLinks demoLinks "{1, 2, 3}" "\<lambda>c. c \<noteq> 0" 0 1
  by unfold_locales (auto simp: demoLinks_def demoGet_def)

section \<open>Properties\<close>

text \<open>
  C22: the sequential walk is depth first. For every visit function that keeps the visitor
  contract, over a finite graph whose nodes are all found, the walk from an empty visited
  set returns nil within a stack of one frame more than there are nodes, and the CIDs it
  visits form exactly the sequence of the textbook depth-first search from the root: each
  CID that the root reaches, once.
\<close>

theorem sequentialWalkDepth_depth_first:
  assumes "graph_visitor visit seen getLinks succs nodes" and "r \<in> nodes"
    and "\<not> optSkipRoot options" and "seen s = {}" and "card nodes < n"
  shows "\<exists>s' order. sequentialWalkDepth n (recordLinks getLinks) (recordVisits visit) options r d (s, [])
             = Some (None, (s', order)) \<and>
           dfs succs [] [r] order \<and> distinct order \<and> set order = reach succs r"
proof -
  let ?seen = "\<lambda>sl. seen (fst sl)"
  note rec = graph_visitor.recorded_visitor [OF assms(1)]
  obtain sl where run: "sequentialWalkDepth n (recordLinks getLinks) (recordVisits visit) options r d (s, [])
        = Some (None, sl)"
      and cov: "graph_visitor.covers ?seen succs {r} (s, []) sl"
    using graph_visitor.walk_covers [OF rec assms(2,3), of "(s, [])" n d] assms(4,5) by auto
  have step: "graph_visitor.in_step seen (s, [])"
    using assms(4) by (simp add: graph_visitor.in_step_def [OF assms(1)])
  have "graph_visitor.in_step seen sl \<and> dfs succs [] [r] (snd sl)"
    using graph_visitor.walk_dfs [OF assms(1-3) step run] by simp
  moreover have "seen (fst sl) = reach succs r"
    using graph_visitor.covers_reach [OF rec, of "(s, [])" r sl] assms(4) cov by simp
  ultimately have "dfs succs [] [r] (snd sl)" "set (snd sl) = reach succs r"
    by (auto simp: graph_visitor.in_step_def [OF assms(1)])
  then show ?thesis using run dfs_distinct [of succs "[]"] by (metis distinct.simps(1) prod.collapse)
qed

theorem sequentialWalkDepth_depth_first_witness:
  "\<exists>s' order. sequentialWalkDepth 4 (recordLinks (fetchLinks demoLinks demoGet))
       (recordVisits (fetchGraphVisit (-1))) emptyWalkOptions 1 0 (fetchInit None (), [])
         = Some (None, (s', order)) \<and>
     dfs demoLinks [] [1] order \<and> distinct order \<and> set order = reach demoLinks 1"
  by (rule sequentialWalkDepth_depth_first [OF demo.fetch.graph_visitor_axioms])
    (simp_all add: emptyWalkOptions_def fetchInit_def)

text \<open>
  Without an error handler, an error that the sequential walk returns is one that
  \<open>getLinks\<close> reported, unchanged.
\<close>

theorem sequentialWalkDepth_error_origin:
  assumes "sequentialWalkDepth n getLinks visit options r d s = Some (Some e, s')"
    and "optErrorHandler options = None"
  shows "\<exists>c s1. snd (fst (getLinks c s1)) = Some e"
  using walk_error [OF assms(1)] assms(2) by auto

definition failingLinks :: "(nat, unit) getLinks" where
  "failingLinks c s = (([], Some ErrCtxDone), s)"

definition alwaysVisit :: "(nat, unit) visitFun" where
  "alwaysVisit c d s = (True, s)"

theorem sequentialWalkDepth_error_origin_witness:
  "sequentialWalkDepth 1 failingLinks alwaysVisit emptyWalkOptions 5 0 () = Some (Some ErrCtxDone, ()) \<and>
   (\<exists>c s1. snd (fst (failingLinks c s1)) = Some ErrCtxDone)"
proof -
  have run: "sequentialWalkDepth 1 failingLinks alwaysVisit emptyWalkOptions 5 0 () = Some (Some ErrCtxDone, ())"
    by (simp add: failingLinks_def alwaysVisit_def)
  show ?thesis using run sequentialWalkDepth_error_origin [OF run] by simp
qed

text \<open>
  With \<open>IgnoreErrors\<close> as the only handler the sequential walk never returns an error,
  whatever \<open>getLinks\<close> reports.
\<close>

theorem IgnoreErrors_walk_no_error:
  assumes "optErrorHandler options = None"
    and "sequentialWalkDepth n getLinks visit (IgnoreErrors options) r d s = Some (e, s')"
  shows "e = None"
proof (rule ccontr)
  assume "e \<noteq> None"
  then obtain e0 where "e = Some e0" by auto
  then obtain c s1 where h: "nodeErr getLinks (IgnoreErrors options) c s1 = Some (Some e0, s')"
    using walk_error [of n getLinks visit "IgnoreErrors options" r d s e0 s'] assms(2) by blast
  have "optErrorHandler (IgnoreErrors options) = Some (Direct ignoreErrorsHandler)"
    using assms(1) by (simp add: IgnoreErrors_def addHandler_field)
  with h show False
    by (cases "snd (fst (getLinks c s1))") (simp_all add: handleErr_Direct ignoreErrorsHandler_def)
qed

theorem IgnoreErrors_walk_no_error_witness:
  "\<exists>e. sequentialWalkDepth 1 failingLinks alwaysVisit (IgnoreErrors emptyWalkOptions) 5 0 () = Some (e, ()) \<and>
       e = None"
proof -
  have run: "sequentialWalkDepth 1 failingLinks alwaysVisit (IgnoreErrors emptyWalkOptions) 5 0 ()
      = Some (None, ())"
    by (simp add: failingLinks_def alwaysVisit_def handleErr_def IgnoreErrors_def addHandler_field
        ignoreErrorsHandler_def)
  show ?thesis using run IgnoreErrors_walk_no_error [OF _ run] by simp
qed

text \<open>
  The two walks tell the handler different CIDs. When the node of \<open>c\<close> is missing,
  the callback of \<open>OnMissing\<close> is called with \<open>c\<close> by the sequential walk, and with the
  root of the whole walk by the concurrent one.
\<close>

theorem OnMissing_cid_differs:
  assumes "getLinks c s = (([], Some ErrFormatNotFound), s1)" and "visit c d s0 = (True, s)"
  shows "sequentialWalkDepth (Suc n) getLinks visit (applyOptions [OnMissing callback]) c d s0
           = Some (Some ErrFormatNotFound, callback c s1) \<and>
         fetchLinksOf getLinks (applyOptions [OnMissing callback, Concurrent]) root \<lparr>cdCid = c, cdDepth = d\<rparr> s
           = Some (AtErr ErrFormatNotFound, callback root s1)"
  using assms
  by (simp add: applyOptions_def option_defs fetchLinksOf_def handleErr_def onMissingHandler_def)

theorem OnMissing_cid_differs_witness:
  "sequentialWalkDepth 1 (\<lambda>c s. (([], Some ErrFormatNotFound), s)) (\<lambda>c d s. (True, s))
     (applyOptions [OnMissing (\<lambda>c s. c # s)]) (7 :: nat) 3 [] = Some (Some ErrFormatNotFound, [7]) \<and>
   fetchLinksOf (\<lambda>c s. (([], Some ErrFormatNotFound), s)) (applyOptions [OnMissing (\<lambda>c s. c # s), Concurrent])
     (1 :: nat) \<lparr>cdCid = 7, cdDepth = 3\<rparr> [] = Some (AtErr ErrFormatNotFound, [1])"
  using OnMissing_cid_differs [of "\<lambda>c s. (([], Some ErrFormatNotFound), s)" "7 :: nat" "[]" "[]"
      "\<lambda>c d s. (True, s)" 3 "[]" 0 "\<lambda>c s. c # s" 1] by simp

text \<open>
  C5: when \<open>FetchGraphWithDepthLimit\<close> with a limit of 0 or more returns nil, whatever the
  schedule of its 32 workers was, its map holds exactly the CIDs whose distance from the
  root is within the limit, each with that distance: "maxDepth=0 means only fetch root,
  maxDepth=1 means fetch root and its direct children".
\<close>

theorem FetchGraphWithDepthLimit_distances:
  assumes "rooted_dag get nodeLinks succs nodes defined undef root"
    and "0 \<le> depthLim"
    and "FetchGraphWithDepthLimit defined undef nodeLinks get root depthLim tracker env None s'"
  shows "fsSet s' c = Some d \<longleftrightarrow> d \<le> depthLim \<and> distance succs root c d"
proof -
  obtain p where p: "parReach defined undef (fetchLinks nodeLinks get) (fetchGraphVisit depthLim)
        (applyOptions [Concurrent]) root (fetchInit tracker env) p"
      "parPhase p = Returned None" "s' = parVst p"
    using assms(3) unfolding FetchGraphWithDepthLimit_def by (cases rule: WalkDepth.cases) auto
  note rec = partial_dag.limited_recorded [OF rooted_dag.as_partial [OF assms(1)] assms(2) p(1)]
  note paths = partial_dag.limited_covers_paths [OF rooted_dag.as_partial [OF assms(1)] assms(2) p(1,2)]
  note on_path = par_walk.visits_on_path [OF partial_dag.limited_par_walk [OF rooted_dag.as_partial [OF assms(1)] assms(2)] p(1)]
  have found: "pathTo succs root c d \<and> d \<le> depthLim" if "fsSet s' c = Some d" for c d
    using rec [of c d] on_path [of "\<lparr>cdCid = c, cdDepth = d\<rparr>"] that p(3) by simp
  show ?thesis
  proof
    assume s: "fsSet s' c = Some d"
    have "d \<le> d'" if "pathTo succs root c d'" for d'
      using paths [OF that] s found [OF s] p(3) by (cases "d' \<le> depthLim") auto
    with found [OF s] show "d \<le> depthLim \<and> distance succs root c d" by (auto simp: distance_def)
  next
    assume d: "d \<le> depthLim \<and> distance succs root c d"
    then obtain d0 where "d0 \<le> d" "fsSet s' c = Some d0"
      using paths [of c d] p(3) by (auto simp: distance_def)
    with d found [of c d0] show "fsSet s' c = Some d" by (auto simp: distance_def)
  qed
qed

theorem FetchGraphWithDepthLimit_distances_witness:
  "\<exists>s' :: (nat, unit) fetchState.
     FetchGraphWithDepthLimit (\<lambda>c. c \<noteq> 0) 0 demoLinks demoGet 1 1 None () None s' \<and>
     (\<forall>c d. fsSet s' c = Some d \<longleftrightarrow> d \<le> 1 \<and> distance demoLinks 1 c d)"
proof -
  obtain s' :: "(nat, unit) fetchState" where
    "FetchGraphWithDepthLimit (\<lambda>c. c \<noteq> 0) 0 demoLinks demoGet 1 1 None () None s'"
    using demo.fetch_returns_nil by blast
  moreover from this have "\<forall>c d. fsSet s' c = Some d \<longleftrightarrow> d \<le> 1 \<and> distance demoLinks 1 c d"
    using FetchGraphWithDepthLimit_distances [OF demo.rooted_dag_axioms, of 1] by simp
  ultimately show ?thesis by blast
qed

text \<open>
  C6: \<open>FetchGraphWithDepthLimit\<close> always comes to an end, with and without a limit, over every
  finite graph of defined CIDs, also when nodes are missing or cannot be fetched: from every
  state its workers and its main loop can be in, the walk's own steps lead to the return, and
  no schedule of its steps goes on for ever. Whenever it returns an error the context was
  cancelled, or the error is one that fetching the links of a node of the graph gives; so it
  returns nil when every node is found and nobody cancels.
\<close>

theorem FetchGraphWithDepthLimit_returns:
  assumes "partial_dag get nodeLinks succs nodes defined undef root"
    and "parReach defined undef (fetchLinks nodeLinks get) (fetchGraphVisit depthLim)
           (applyOptions [Concurrent]) root (fetchInit tracker env) p"
  shows "(\<exists>p' r. (parStep defined undef (fetchLinks nodeLinks get) (fetchGraphVisit depthLim)
             (applyOptions [Concurrent]) root)\<^sup>*\<^sup>* p p' \<and> parPhase p' = Returned r \<and>
           (\<forall>err. r = Some err \<longrightarrow> parCtxDone p \<or> (\<exists>c \<in> nodes. \<exists>e. snd (fst (GetLinksDirect nodeLinks get c e)) = Some err))) \<and>
         (\<forall>err. parPhase p = Returned (Some err) \<longrightarrow> parCtxDone p \<or>
           (\<exists>c \<in> nodes. \<exists>e. snd (fst (GetLinksDirect nodeLinks get c e)) = Some err)) \<and>
         \<not> (\<exists>f. f 0 = p \<and> (\<forall>n. parStep defined undef (fetchLinks nodeLinks get) (fetchGraphVisit depthLim)
             (applyOptions [Concurrent]) root (f n) (f (Suc n))))"
proof (intro conjI)
  show "\<exists>p' r. (parStep defined undef (fetchLinks nodeLinks get) (fetchGraphVisit depthLim)
       (applyOptions [Concurrent]) root)\<^sup>*\<^sup>* p p' \<and> parPhase p' = Returned r \<and>
       (\<forall>err. r = Some err \<longrightarrow> parCtxDone p \<or> (\<exists>c \<in> nodes. \<exists>e. snd (fst (GetLinksDirect nodeLinks get c e)) = Some err))"
    using partial_dag.fetch_returns [OF assms] by blast
  show "\<forall>err. parPhase p = Returned (Some err) \<longrightarrow> parCtxDone p \<or>
       (\<exists>c \<in> nodes. \<exists>e. snd (fst (GetLinksDirect nodeLinks get c e)) = Some err)"
    using partial_dag.fetch_error [OF assms] by blast
  show "\<not> (\<exists>f. f 0 = p \<and> (\<forall>n. parStep defined undef (fetchLinks nodeLinks get) (fetchGraphVisit depthLim)
       (applyOptions [Concurrent]) root (f n) (f (Suc n))))"
    using partial_dag.fetch_no_infinite_run [OF assms(1)] assms(2) by blast
qed

text \<open>An example: node 2 is missing.\<close>

definition gapGet :: "(nat, nat, unit) nodeGet" where
  "gapGet c e = (if c = 2 then Inl ErrBlockserviceNotFound else Inr c, e)"

interpretation gap: partial_dag gapGet demoLinks demoLinks "{1, 2, 3}" "\<lambda>c. c \<noteq> 0" 0 1
  by unfold_locales (auto simp: gapGet_def demoLinks_def split: if_splits)

theorem FetchGraphWithDepthLimit_returns_witness:
  "\<exists>p' r. (parStep (\<lambda>c. c \<noteq> 0) 0 (fetchLinks demoLinks gapGet) (fetchGraphVisit 1) (applyOptions [Concurrent]) 1)\<^sup>*\<^sup>*
       (parInit 1 (applyOptions [Concurrent]) (fetchInit None ())) p' \<and> parPhase p' = Returned r \<and> r \<in> {None, Some ErrFormatNotFound}"
proof -
  have err: "err = ErrFormatNotFound" if "snd (fst (GetLinksDirect demoLinks gapGet c e)) = Some err" for c e err
    using that by (auto simp: GetLinksDirect_def gapGet_def split: if_splits)
  obtain p' r where p': "(parStep (\<lambda>c. c \<noteq> 0) 0 (fetchLinks demoLinks gapGet) (fetchGraphVisit 1) (applyOptions [Concurrent]) 1)\<^sup>*\<^sup>*
       (parInit 1 (applyOptions [Concurrent]) (fetchInit None ())) p'" "parPhase p' = Returned r"
    "\<forall>e. r = Some e \<longrightarrow> (\<exists>c \<in> {1, 2, 3}. \<exists>u. snd (fst (GetLinksDirect demoLinks gapGet c u)) = Some e)"
    using FetchGraphWithDepthLimit_returns [OF gap.partial_dag_axioms parReach.start, of 1 None "()", THEN conjunct1]
    by (elim exE conjE) (rule that, assumption+, simp)
  have "r \<in> {None, Some ErrFormatNotFound}" using p'(3) err by (cases r) auto
  then show ?thesis using p'(1,2) by blast
qed

text \<open>
  When \<open>FetchGraph\<close> returns nil it has visited exactly what the root reaches, and a
  progress tracker in its context has been incremented once per CID.
\<close>

theorem FetchGraph_complete:
  assumes "rooted_dag get nodeLinks succs nodes defined undef root"
    and "FetchGraph defined undef nodeLinks get root tracker env None s'"
  shows "dom (fsSet s') = reach succs root \<and>
         fsTracker s' = map_option (\<lambda>pt. pt\<lparr>Total := Total pt + int (card (reach succs root))\<rparr>) tracker"
proof -
  obtain p where p: "parReach defined undef (fetchLinks nodeLinks get) (fetchGraphVisit (-1))
        (applyOptions [Concurrent]) root (fetchInit tracker env) p"
      "parPhase p = Returned None" "s' = parVst p"
    using assms(2) unfolding FetchGraph_def FetchGraphWithDepthLimit_def
    by (cases rule: WalkDepth.cases) auto
  have dom: "dom (fsSet s') = reach succs root"
    using par_graph.par_seen_reach [OF rooted_dag.fetch_tracked [OF assms(1)] p(1,2)] p(3)
    by (simp add: fetchInit_def)
  show ?thesis using rooted_dag.fetch_total [OF assms(1) p(1)] dom p(3) by simp
qed

theorem FetchGraph_complete_witness:
  "\<exists>s' :: (nat, unit) fetchState.
     FetchGraph (\<lambda>c. c \<noteq> 0) 0 demoLinks demoGet 1 (Some zeroTracker) () None s' \<and>
     dom (fsSet s') = reach demoLinks 1"
proof -
  obtain s' :: "(nat, unit) fetchState" where
    "FetchGraph (\<lambda>c. c \<noteq> 0) 0 demoLinks demoGet 1 (Some zeroTracker) () None s'"
    unfolding FetchGraph_def using demo.fetch_returns_nil by blast
  then show ?thesis using FetchGraph_complete [OF demo.rooted_dag_axioms] by blast
qed

text \<open>
  The walk of \<open>basicDAGWalker\<close> (one worker, hence sequential) returns, with nil, and
  then its CID set is exactly what the root reaches and its progress counter the number of
  these CIDs.
\<close>

theorem basicWalk_complete:
  assumes "cid_set csNew csVisit csHas csElems"
    and "rooted_dag get nodeLinks succs nodes defined undef root"
  shows "(\<exists>s'. basicWalk defined undef csNew csVisit nodeLinks get root env None s') \<and>
         (\<forall>r s'. basicWalk defined undef csNew csVisit nodeLinks get root env r s' \<longrightarrow>
            r = None \<and> csElems (wsSet s') = reach succs root \<and>
            Value (wsPt s') = int (card (reach succs root)))"
proof -
  obtain s0 where s0: "sequentialWalkDepth (Suc (card nodes)) (walkerLinks nodeLinks get)
         (visitDepth (visitProgress csVisit)) (applyOptions [Concurrency 1]) root 0 (walkerInit csNew env)
           = Some (None, s0)"
      "csElems (wsSet s0) = reach succs root" "Value (wsPt s0) = int (card (reach succs root))"
    using rooted_dag.basic_walk_run [OF assms(2,1)] by blast
  show ?thesis unfolding basicWalk_iff using s0 walk_fuel_unique [OF s0(1)] by blast
qed

theorem basicWalk_complete_witness:
  "\<exists>s' :: (nat set, unit) walkerState.
     basicWalk (\<lambda>c. c \<noteq> 0) 0 {} setVisit demoLinks demoGet 1 () None s' \<and> wsSet s' = reach demoLinks 1"
  using basicWalk_complete [OF hol_set.cid_set_axioms demo.rooted_dag_axioms, of "()"] by blast

end
