(* ===== verification/Blockstores.thy ===== *)
theory Blockstores
  imports Prelude
begin

text \<open>
  The block store interface and the two wrappers the repository puts around a block store:
  \<open>DelayedBlockstore\<close> (generate.go, lines 246 to 289), which waits before each operation,
  and \<open>CountingBS\<close> (bitswap.go, lines 334 to 371), which records the CIDs it has stored.
  The stores themselves are code outside the repository: a parameter whose documented
  behaviour is the locale \<open>block_store\<close>. Both wrappers are shown to keep that contract.
\<close>

section \<open>The interface\<close>

text \<open>
  The methods of \<open>blockstore.Blockstore\<close> over a state \<open>'w\<close>. \<open>Has\<close> returns its answer and an
  error together; \<open>AllKeysChan\<close> yields the keys it will send.
\<close>

record ('c, 'b, 'w) blockstore =
  bsDeleteBlock :: "'c \<Rightarrow> 'w \<Rightarrow> goerr option \<times> 'w"
  bsHas :: "'c \<Rightarrow> 'w \<Rightarrow> (bool \<times> goerr option) \<times> 'w"
  bsGet :: "'c \<Rightarrow> 'w \<Rightarrow> (goerr + 'b) \<times> 'w"
  bsGetSize :: "'c \<Rightarrow> 'w \<Rightarrow> (goerr + int) \<times> 'w"
  bsPut :: "'b \<Rightarrow> 'w \<Rightarrow> goerr option \<times> 'w"
  bsPutMany :: "'b list \<Rightarrow> 'w \<Rightarrow> goerr option \<times> 'w"
  bsAllKeysChan :: "'w \<Rightarrow> (goerr + 'c list) \<times> 'w"
  bsHashOnRead :: "bool \<Rightarrow> 'w \<Rightarrow> 'w"

section \<open>The wrappers\<close>

text \<open>\<open>wait\<close> is \<open>delay.Wait()\<close> of the package go-ipfs-delay.\<close>

definition delayedBlockstore :: "('w \<Rightarrow> 'w) \<Rightarrow> ('c, 'b, 'w) blockstore \<Rightarrow> ('c, 'b, 'w) blockstore" where
  "delayedBlockstore wait bs =
     \<lparr>bsDeleteBlock = (\<lambda>c w. bsDeleteBlock bs c (wait w)),
      bsHas = (\<lambda>c w. bsHas bs c (wait w)),
      bsGet = (\<lambda>c w. bsGet bs c (wait w)),
      bsGetSize = (\<lambda>c w. bsGetSize bs c (wait w)),
      bsPut = (\<lambda>b w. bsPut bs b (wait w)),
      bsPutMany = (\<lambda>blks w. bsPutMany bs blks (wait w)),
      bsAllKeysChan = (\<lambda>w. bsAllKeysChan bs (wait w)),
      bsHashOnRead = (\<lambda>enabled w. bsHashOnRead bs enabled (wait w))\<rparr>"

text \<open>
  The state of a \<open>CountingBS\<close> is the set of keys of its map \<open>check\<close> and the state of the
  embedded store; the methods it does not redefine are those of the embedded store.
\<close>

record ('c, 'w) countingState =
  cntCheck :: "'c set"
  cntStore :: 'w

definition onStore :: "('w \<Rightarrow> 'a \<times> 'w) \<Rightarrow> ('c, 'w) countingState \<Rightarrow> 'a \<times> ('c, 'w) countingState" where
  "onStore f s = (let (r, w') = f (cntStore s) in (r, s\<lparr>cntStore := w'\<rparr>))"

definition countingPut :: "('b \<Rightarrow> 'c) \<Rightarrow> ('c, 'b, 'w) blockstore \<Rightarrow> 'b \<Rightarrow> ('c, 'w) countingState
    \<Rightarrow> goerr option \<times> ('c, 'w) countingState" where
  "countingPut cidOf bs block s =
     (case onStore (bsPut bs block) s of
        (Some err, s') \<Rightarrow> (Some err, s')
      | (None, s') \<Rightarrow> (None, s'\<lparr>cntCheck := insert (cidOf block) (cntCheck s')\<rparr>))"

definition countingPutMany :: "('b \<Rightarrow> 'c) \<Rightarrow> ('c, 'b, 'w) blockstore \<Rightarrow> 'b list \<Rightarrow> ('c, 'w) countingState
    \<Rightarrow> goerr option \<times> ('c, 'w) countingState" where
  "countingPutMany cidOf bs blks s =
     (case onStore (bsPutMany bs blks) s of
        (Some err, s') \<Rightarrow> (Some err, s')
      | (None, s') \<Rightarrow>
          (None, s'\<lparr>cntCheck := fold (\<lambda>block check. insert (cidOf block) check) blks (cntCheck s')\<rparr>))"

definition countingBS :: "('b \<Rightarrow> 'c) \<Rightarrow> ('c, 'b, 'w) blockstore
    \<Rightarrow> ('c, 'b, ('c, 'w) countingState) blockstore" where
  "countingBS cidOf bs =
     \<lparr>bsDeleteBlock = (\<lambda>c. onStore (bsDeleteBlock bs c)),
      bsHas = (\<lambda>c. onStore (bsHas bs c)),
      bsGet = (\<lambda>c. onStore (bsGet bs c)),
      bsGetSize = (\<lambda>c. onStore (bsGetSize bs c)),
      bsPut = countingPut cidOf bs,
      bsPutMany = countingPutMany cidOf bs,
      bsAllKeysChan = onStore (bsAllKeysChan bs),
      bsHashOnRead = (\<lambda>enabled s. s\<lparr>cntStore := bsHashOnRead bs enabled (cntStore s)\<rparr>)\<rparr>"

section \<open>The contract\<close>

text \<open>
  What the code relies on. \<open>contents w c\<close> is the block a \<open>Get\<close> of \<open>c\<close> finds. A \<open>Put\<close> or
  \<open>PutMany\<close> that reports no error makes its blocks available and loses none; reading
  changes nothing; a missing block is reported as the store's \<open>ErrNotFound\<close>.
\<close>

locale block_store =
  fixes bs :: "('c, 'b, 'w) blockstore" and cidOf :: "'b \<Rightarrow> 'c" and contents :: "'w \<Rightarrow> 'c \<rightharpoonup> 'b"
  assumes get_found: "contents w c = Some b \<Longrightarrow> fst (bsGet bs c w) = Inr b"
    and get_missing: "contents w c = None \<Longrightarrow> fst (bsGet bs c w) = Inl ErrBlockstoreNotFound"
    and get_frame: "contents (snd (bsGet bs c w)) = contents w"
    and has_iff: "fst (bsHas bs c w) = (contents w c \<noteq> None, None)"
    and has_frame: "contents (snd (bsHas bs c w)) = contents w"
    and put_stored: "fst (bsPut bs b w) = None \<Longrightarrow> contents (snd (bsPut bs b w)) (cidOf b) = Some b"
    and put_keeps: "fst (bsPut bs b w) = None \<Longrightarrow> c \<in> dom (contents w) \<Longrightarrow>
      c \<in> dom (contents (snd (bsPut bs b w)))"
    and putMany_stored: "fst (bsPutMany bs bl w) = None \<Longrightarrow> b \<in> set bl \<Longrightarrow>
      cidOf b \<in> dom (contents (snd (bsPutMany bs bl w)))"
    and putMany_keeps: "fst (bsPutMany bs bl w) = None \<Longrightarrow> c \<in> dom (contents w) \<Longrightarrow>
      c \<in> dom (contents (snd (bsPutMany bs bl w)))"
    and delete_gone: "fst (bsDeleteBlock bs c w) = None \<Longrightarrow> contents (snd (bsDeleteBlock bs c w)) c = None"

lemma onStore_proj [simp]:
  "fst (onStore f s) = fst (f (cntStore s))"
  "cntStore (snd (onStore f s)) = snd (f (cntStore s))"
  "cntCheck (snd (onStore f s)) = cntCheck s"
  by (simp_all add: onStore_def split_beta)

lemma countingPut_proj [simp]:
  "fst (countingPut cidOf bs b s) = fst (bsPut bs b (cntStore s))"
  "cntStore (snd (countingPut cidOf bs b s)) = snd (bsPut bs b (cntStore s))"
  "cntCheck (snd (countingPut cidOf bs b s)) =
     (if fst (bsPut bs b (cntStore s)) = None then insert (cidOf b) (cntCheck s) else cntCheck s)"
  by (auto simp: countingPut_def onStore_def split: prod.splits option.splits)

lemma fold_insert_set: "fold (\<lambda>b check. insert (cidOf b) check) bl X = X \<union> cidOf ` set bl"
  by (induction bl arbitrary: X) auto

lemma countingPutMany_proj [simp]:
  "fst (countingPutMany cidOf bs bl s) = fst (bsPutMany bs bl (cntStore s))"
  "cntStore (snd (countingPutMany cidOf bs bl s)) = snd (bsPutMany bs bl (cntStore s))"
  "cntCheck (snd (countingPutMany cidOf bs bl s)) =
     (if fst (bsPutMany bs bl (cntStore s)) = None then cntCheck s \<union> cidOf ` set bl else cntCheck s)"
  by (auto simp: countingPutMany_def onStore_def fold_insert_set split: prod.splits option.splits)

text \<open>The counting store keeps the contract of the store it embeds.\<close>

context block_store
begin

lemma counting_store: "block_store (countingBS cidOf bs) cidOf (\<lambda>s. contents (cntStore s))"
  by unfold_locales
    (simp_all add: countingBS_def get_found get_missing get_frame has_iff has_frame delete_gone
      put_stored put_keeps putMany_stored putMany_keeps)

end

text \<open>Waiting does not change what is stored; then the delayed store keeps the contract too.\<close>

locale delayed_store = block_store bs cidOf contents
  for bs :: "('c, 'b, 'w) blockstore" and cidOf :: "'b \<Rightarrow> 'c" and contents :: "'w \<Rightarrow> 'c \<rightharpoonup> 'b" +
  fixes wait :: "'w \<Rightarrow> 'w"
  assumes wait_frame: "contents (wait w) = contents w"

sublocale delayed_store \<subseteq> delayed: block_store "delayedBlockstore wait bs" cidOf contents
  by unfold_locales
    (simp_all add: delayedBlockstore_def get_found get_missing get_frame has_iff has_frame delete_gone
      put_stored put_keeps putMany_stored putMany_keeps wait_frame)

section \<open>A store in memory\<close>

text \<open>
  A store whose state is the map from CIDs to blocks itself: the instance on which the
  contract and the wrappers are interpreted.
\<close>

definition memBS :: "('b \<Rightarrow> 'c) \<Rightarrow> ('c, 'b, 'c \<rightharpoonup> 'b) blockstore" where
  "memBS cidOf =
     \<lparr>bsDeleteBlock = (\<lambda>c w. (None, w(c := None))),
      bsHas = (\<lambda>c w. ((w c \<noteq> None, None), w)),
      bsGet = (\<lambda>c w. (case w c of None \<Rightarrow> Inl ErrBlockstoreNotFound | Some b \<Rightarrow> Inr b, w)),
      bsGetSize = (\<lambda>c w. (case w c of None \<Rightarrow> Inl ErrBlockstoreNotFound | Some b \<Rightarrow> Inr 0, w)),
      bsPut = (\<lambda>b w. (None, w(cidOf b \<mapsto> b))),
      bsPutMany = (\<lambda>bl w. (None, fold (\<lambda>b m. m(cidOf b \<mapsto> b)) bl w)),
      bsAllKeysChan = (\<lambda>w. (Inr [], w)),
      bsHashOnRead = (\<lambda>enabled w. w)\<rparr>"

lemma fold_map_upd_dom: "dom (fold (\<lambda>b m. m(cidOf b \<mapsto> b)) bl w) = dom w \<union> cidOf ` set bl"
  by (induction bl arbitrary: w) auto

interpretation mem: delayed_store "memBS cidOf" cidOf "\<lambda>w. w" "\<lambda>w. w" for cidOf :: "'b \<Rightarrow> 'c"
  by unfold_locales (auto simp: memBS_def fold_map_upd_dom [unfolded fun_upd_def] fold_map_upd_dom)

interpretation mem_counted: block_store "countingBS cidOf (memBS cidOf)" cidOf cntStore for cidOf :: "'b \<Rightarrow> 'c"
  by (rule mem.counting_store)

end
