(* ===== verification/BlockService.thy ===== *)
theory BlockService
  imports Blockstores
begin

text \<open>
  The block service of bitswap/bservice/bserv.go: adding blocks, the two ways to get them,
  deleting, closing, and sessions. The block store, the exchange and the CID check
  (\<open>verifcid.ValidateCid\<close>) are code outside the repository and parameters here. A channel
  of blocks is the list of blocks sent on it before it is closed.
\<close>

section \<open>State\<close>

record ('c, 'b, 'w) fetcher =
  fGetBlock :: "'c \<Rightarrow> 'w \<Rightarrow> (goerr + 'b) \<times> 'w"
  fGetBlocks :: "'c list \<Rightarrow> 'w \<Rightarrow> (goerr + 'b list) \<times> 'w"

text \<open>
  \<open>exNewSession\<close> is present when the exchange is a \<open>SessionExchange\<close>.
\<close>

record ('c, 'b, 'w) exchange =
  exFetcher :: "('c, 'b, 'w) fetcher"
  exHasBlock :: "'b \<Rightarrow> 'w \<Rightarrow> goerr option \<times> 'w"
  exClose :: "'w \<Rightarrow> goerr option \<times> 'w"
  exNewSession :: "('w \<Rightarrow> ('c, 'b, 'w) fetcher \<times> 'w) option"

record ('c, 'b, 'w) blockService =
  svcBlockstore :: "('c, 'b, 'w) blockstore"
  svcExchange :: "('c, 'b, 'w) exchange option"
  svcCheckFirst :: bool

record ('c, 'b, 'w) session =
  sesBs :: "('c, 'b, 'w) blockstore"
  sesSes :: "('c, 'b, 'w) fetcher option"
  sesSessEx :: "('w \<Rightarrow> ('c, 'b, 'w) fetcher \<times> 'w) option"

section \<open>Operations\<close>

definition New :: "('c, 'b, 'w) blockstore \<Rightarrow> ('c, 'b, 'w) exchange option \<Rightarrow> ('c, 'b, 'w) blockService" where
  "New bs rem = \<lparr>svcBlockstore = bs, svcExchange = rem, svcCheckFirst = True\<rparr>"

definition NewWriteThrough :: "('c, 'b, 'w) blockstore \<Rightarrow> ('c, 'b, 'w) exchange option
    \<Rightarrow> ('c, 'b, 'w) blockService" where
  "NewWriteThrough bs rem = \<lparr>svcBlockstore = bs, svcExchange = rem, svcCheckFirst = False\<rparr>"

definition NewSession :: "('c, 'b, 'w) blockService \<Rightarrow> ('c, 'b, 'w) session" where
  "NewSession s =
     (case svcExchange s of
        Some exch \<Rightarrow>
          (case exNewSession exch of
             Some sessEx \<Rightarrow> \<lparr>sesBs = svcBlockstore s, sesSes = None, sesSessEx = Some sessEx\<rparr>
           | None \<Rightarrow> \<lparr>sesBs = svcBlockstore s, sesSes = Some (exFetcher exch), sesSessEx = None\<rparr>)
      | None \<Rightarrow> \<lparr>sesBs = svcBlockstore s, sesSes = None, sesSessEx = None\<rparr>)"

text \<open>The error of \<open>HasBlock\<close> is only logged.\<close>

definition announce :: "('c, 'b, 'w) exchange option \<Rightarrow> 'b \<Rightarrow> 'w \<Rightarrow> 'w" where
  "announce exch blk w = (case exch of None \<Rightarrow> w | Some ex \<Rightarrow> snd (exHasBlock ex blk w))"

definition AddBlock :: "('c \<Rightarrow> goerr option) \<Rightarrow> ('b \<Rightarrow> 'c) \<Rightarrow> ('c, 'b, 'w) blockService \<Rightarrow> 'b \<Rightarrow> 'w
    \<Rightarrow> goerr option \<times> 'w" where
  "AddBlock validateCid cidOf s blk w =
     (case validateCid (cidOf blk) of
        Some err \<Rightarrow> (Some err, w)
      | None \<Rightarrow>
          (let ((has, err), w1) = (if svcCheckFirst s then bsHas (svcBlockstore s) (cidOf blk) w
                                   else ((False, None), w))
           in if has \<or> err \<noteq> None then (err, w1)
              else case bsPut (svcBlockstore s) blk w1 of
                     (Some err, w2) \<Rightarrow> (Some err, w2)
                   | (None, w2) \<Rightarrow> (None, announce (svcExchange s) blk w2)))"

text \<open>The validation loop of \<open>AddBlocks\<close>: the first error, if any.\<close>

fun validateAll :: "('c \<Rightarrow> goerr option) \<Rightarrow> ('b \<Rightarrow> 'c) \<Rightarrow> 'b list \<Rightarrow> goerr option" where
  "validateAll validateCid cidOf [] = None"
| "validateAll validateCid cidOf (b # bl) =
     (case validateCid (cidOf b) of Some err \<Rightarrow> Some err | None \<Rightarrow> validateAll validateCid cidOf bl)"

text \<open>The loop that keeps the blocks the store does not have; it stops at an error.\<close>

fun missingBlocks :: "('b \<Rightarrow> 'c) \<Rightarrow> ('c, 'b, 'w) blockstore \<Rightarrow> 'b list \<Rightarrow> 'w \<Rightarrow> (goerr + 'b list) \<times> 'w" where
  "missingBlocks cidOf bs [] w = (Inr [], w)"
| "missingBlocks cidOf bs (b # bl) w =
     (case bsHas bs (cidOf b) w of
        ((has, Some err), w1) \<Rightarrow> (Inl err, w1)
      | ((has, None), w1) \<Rightarrow>
          (case missingBlocks cidOf bs bl w1 of
             (Inl err, w2) \<Rightarrow> (Inl err, w2)
           | (Inr toput, w2) \<Rightarrow> (Inr (if has then toput else b # toput), w2)))"

definition AddBlocks :: "('c \<Rightarrow> goerr option) \<Rightarrow> ('b \<Rightarrow> 'c) \<Rightarrow> ('c, 'b, 'w) blockService \<Rightarrow> 'b list \<Rightarrow> 'w
    \<Rightarrow> goerr option \<times> 'w" where
  "AddBlocks validateCid cidOf s bl w =
     (case validateAll validateCid cidOf bl of
        Some err \<Rightarrow> (Some err, w)
      | None \<Rightarrow>
          (case (if svcCheckFirst s then missingBlocks cidOf (svcBlockstore s) bl w else (Inr bl, w)) of
             (Inl err, w1) \<Rightarrow> (Some err, w1)
           | (Inr toput, w1) \<Rightarrow>
               if toput = [] then (None, w1)
               else (case bsPutMany (svcBlockstore s) toput w1 of
                       (Some err, w2) \<Rightarrow> (Some err, w2)
                     | (None, w2) \<Rightarrow> (None, fold (announce (svcExchange s)) toput w2))))"

text \<open>
  A read that misses the local store logs through the package variable \<open>RunEnv\<close>. The
  argument \<open>runEnv\<close> says whether that variable has been set; a message on the nil pointer
  panics. Nothing in the repository sets it.
\<close>

definition recordMessage :: "bool \<Rightarrow> 'a outcome \<Rightarrow> 'a outcome" where
  "recordMessage runEnv rest = (if runEnv then rest else Panic ''nil pointer dereference'')"

text \<open>
  \<open>getBlock\<close> works on the state of the store and the exchange together with the state \<open>'z\<close>
  of its caller, which \<open>fget\<close> may change (a session keeps the fetcher it opened).
\<close>

definition getBlock :: "bool \<Rightarrow> ('c \<Rightarrow> goerr option) \<Rightarrow> ('c, 'b, 'w) blockstore
    \<Rightarrow> ('w \<times> 'z \<Rightarrow> ('c, 'b, 'w) fetcher \<times> ('w \<times> 'z)) option \<Rightarrow> 'c \<Rightarrow> 'w \<times> 'z
    \<Rightarrow> ((goerr + 'b) \<times> ('w \<times> 'z)) outcome" where
  "getBlock runEnv validateCid bs fget c wz =
     (case validateCid c of
        Some err \<Rightarrow> Ret (Inl err, wz)
      | None \<Rightarrow>
          (case bsGet bs c (fst wz) of
             (Inr block, w1) \<Rightarrow> Ret (Inr block, (w1, snd wz))
           | (Inl err, w1) \<Rightarrow>
               recordMessage runEnv
                 (case fget of
                    Some g \<Rightarrow>
                      if err = ErrBlockstoreNotFound
                      then (let (f, (w2, z2)) = g (w1, snd wz)
                            in case fGetBlock f c w2 of
                                 (Inl err', w3) \<Rightarrow>
                                   recordMessage runEnv
                                     (Ret (Inl (if err' = ErrBlockstoreNotFound then ErrBserviceNotFound else err'),
                                           (w3, z2)))
                               | (Inr blk, w3) \<Rightarrow> Ret (Inr blk, (w3, z2)))
                      else recordMessage runEnv (Ret (Inl err, (w1, snd wz)))
                  | None \<Rightarrow>
                      recordMessage runEnv
                        (Ret (Inl (if err = ErrBlockstoreNotFound then ErrBserviceNotFound else err),
                              (w1, snd wz))))))"

text \<open>
  Sending on \<open>out\<close> in a select with \<open>ctx.Done()\<close>. \<open>quota\<close> is the number of sends the context
  still lets through before it is done; \<open>None\<close> is a context that is never cancelled.
\<close>

fun sendOut :: "'b list \<Rightarrow> nat option \<Rightarrow> 'b list" where
  "sendOut [] quota = []"
| "sendOut (b # bl) None = b # sendOut bl None"
| "sendOut (b # bl) (Some 0) = []"
| "sendOut (b # bl) (Some (Suc k)) = b # sendOut bl (Some k)"

text \<open>
  The loop over the local store: the blocks sent, the misses, what is left of the quota,
  and whether the context ended it.
\<close>

fun localBlocks :: "bool \<Rightarrow> ('c, 'b, 'w) blockstore \<Rightarrow> 'c list \<Rightarrow> nat option \<Rightarrow> 'w
    \<Rightarrow> ('b list \<times> 'c list \<times> nat option \<times> bool \<times> 'w) outcome" where
  "localBlocks runEnv bs [] quota w = Ret ([], [], quota, False, w)"
| "localBlocks runEnv bs (c # ks) quota w =
     (case bsGet bs c w of
        (Inl err, w1) \<Rightarrow>
          recordMessage runEnv
            (case localBlocks runEnv bs ks quota w1 of
               Panic msg \<Rightarrow> Panic msg
             | Ret (sent, misses, quota', stopped, w2) \<Rightarrow> Ret (sent, c # misses, quota', stopped, w2))
      | (Inr hit, w1) \<Rightarrow>
          (if quota = Some 0 then Ret ([], [], quota, True, w1)
           else case localBlocks runEnv bs ks (map_option (\<lambda>k. k - 1) quota) w1 of
                  Panic msg \<Rightarrow> Panic msg
                | Ret (sent, misses, quota', stopped, w2) \<Rightarrow> Ret (hit # sent, misses, quota', stopped, w2)))"

definition getBlocks :: "bool \<Rightarrow> ('c \<Rightarrow> goerr option) \<Rightarrow> ('c, 'b, 'w) blockstore
    \<Rightarrow> ('w \<times> 'z \<Rightarrow> ('c, 'b, 'w) fetcher \<times> ('w \<times> 'z)) option \<Rightarrow> nat option \<Rightarrow> 'c list \<Rightarrow> 'w \<times> 'z
    \<Rightarrow> ('b list \<times> ('w \<times> 'z)) outcome" where
  "getBlocks runEnv validateCid bs fget quota ks wz =
     (let allValid = (\<forall>c \<in> set ks. validateCid c = None);
          ks' = (if \<not> allValid then filter (\<lambda>c. validateCid c = None) ks else ks)
      in case localBlocks runEnv bs ks' quota (fst wz) of
           Panic msg \<Rightarrow> Panic msg
         | Ret (sent, misses, quota', stopped, w1) \<Rightarrow>
             if stopped then Ret (sent, (w1, snd wz))
             else case fget of
                    None \<Rightarrow> Ret (sent, (w1, snd wz))
                  | Some g \<Rightarrow>
                      if misses = [] then Ret (sent, (w1, snd wz))
                      else (let (f, (w2, z2)) = g (w1, snd wz)
                            in case fGetBlocks f misses w2 of
                                 (Inl err, w3) \<Rightarrow> recordMessage runEnv (Ret (sent, (w3, z2)))
                               | (Inr rblocks, w3) \<Rightarrow> Ret (sent @ sendOut rblocks quota', (w3, z2))))"

text \<open>The two clients: the service with its exchange, and a session.\<close>

definition getExchange :: "('c, 'b, 'w) exchange \<Rightarrow> 'w \<times> unit \<Rightarrow> ('c, 'b, 'w) fetcher \<times> ('w \<times> unit)" where
  "getExchange ex wz = (exFetcher ex, wz)"

definition GetBlock :: "bool \<Rightarrow> ('c \<Rightarrow> goerr option) \<Rightarrow> ('c, 'b, 'w) blockService \<Rightarrow> 'c \<Rightarrow> 'w \<times> unit
    \<Rightarrow> ((goerr + 'b) \<times> ('w \<times> unit)) outcome" where
  "GetBlock runEnv validateCid s c = getBlock runEnv validateCid (svcBlockstore s) (map_option getExchange (svcExchange s)) c"

definition GetBlocks :: "bool \<Rightarrow> ('c \<Rightarrow> goerr option) \<Rightarrow> ('c, 'b, 'w) blockService \<Rightarrow> nat option \<Rightarrow> 'c list
    \<Rightarrow> 'w \<times> unit \<Rightarrow> ('b list \<times> ('w \<times> unit)) outcome" where
  "GetBlocks runEnv validateCid s = getBlocks runEnv validateCid (svcBlockstore s) (map_option getExchange (svcExchange s))"

definition DeleteBlock :: "('c, 'b, 'w) blockService \<Rightarrow> 'c \<Rightarrow> 'w \<Rightarrow> goerr option \<times> 'w" where
  "DeleteBlock s c w = bsDeleteBlock (svcBlockstore s) c w"

text \<open>\<open>Close\<close> calls the exchange without a test, so a service without one panics.\<close>

definition Close :: "('c, 'b, 'w) blockService \<Rightarrow> 'w \<Rightarrow> (goerr option \<times> 'w) outcome" where
  "Close s w =
     (case svcExchange s of
        None \<Rightarrow> Panic ''nil pointer dereference''
      | Some ex \<Rightarrow> Ret (exClose ex w))"

text \<open>The field \<open>ses\<close> of the session is filled by the first fetch.\<close>

definition getSession :: "('w \<Rightarrow> ('c, 'b, 'w) fetcher \<times> 'w)
    \<Rightarrow> 'w \<times> ('c, 'b, 'w) session \<Rightarrow> ('c, 'b, 'w) fetcher \<times> ('w \<times> ('c, 'b, 'w) session)" where
  "getSession sessEx ws =
     (case sesSes (snd ws) of
        Some f \<Rightarrow> (f, ws)
      | None \<Rightarrow> (let (f, w1) = sessEx (fst ws) in (f, (w1, (snd ws)\<lparr>sesSes := Some f\<rparr>))))"

definition sesGetBlock :: "bool \<Rightarrow> ('c \<Rightarrow> goerr option) \<Rightarrow> 'c \<Rightarrow> 'w \<times> ('c, 'b, 'w) session
    \<Rightarrow> ((goerr + 'b) \<times> ('w \<times> ('c, 'b, 'w) session)) outcome" where
  "sesGetBlock runEnv validateCid c ws =
     getBlock runEnv validateCid (sesBs (snd ws)) (map_option getSession (sesSessEx (snd ws))) c ws"

definition sesGetBlocks :: "bool \<Rightarrow> ('c \<Rightarrow> goerr option) \<Rightarrow> nat option \<Rightarrow> 'c list \<Rightarrow> 'w \<times> ('c, 'b, 'w) session
    \<Rightarrow> ('b list \<times> ('w \<times> ('c, 'b, 'w) session)) outcome" where
  "sesGetBlocks runEnv validateCid quota ks ws =
     getBlocks runEnv validateCid (sesBs (snd ws)) (map_option getSession (sesSessEx (snd ws))) quota ks ws"

end
