(* ===== verification/BlockServiceProps.thy ===== *)
theory BlockServiceProps
  imports BlockService
begin

text \<open>
  What the block service promises over a store that keeps the contract \<open>block_store\<close>:
  blocks added are found, a batch is validated as a whole, local hits never reach the
  exchange, a batch request is split into local hits and misses, and a session opens at
  most one exchange session, and only for an exchange that offers sessions.
\<close>

lemma recordMessage_simps [simp]:
  "recordMessage True k = k"
  "recordMessage False k = Panic ''nil pointer dereference''"
  by (simp_all add: recordMessage_def)

section \<open>Validation and batches\<close>

lemma validateAll_None: "validateAll validateCid cidOf bl = None \<longleftrightarrow> (\<forall>b \<in> set bl. validateCid (cidOf b) = None)"
  by (induction bl) (auto split: option.splits)

lemma sendOut_unlimited [simp]: "sendOut bl None = bl"
  by (induction bl) auto

lemma sendOut_take: "sendOut bl (Some k) = take k bl"
proof (induction bl arbitrary: k)
  case Nil
  then show ?case by simp
next
  case (Cons b bl)
  then show ?case by (cases k) auto
qed

lemma filter_valid: "(if \<not> (\<forall>c \<in> set ks. P c) then filter P ks else ks) = filter P ks"
  by (auto simp: filter_id_conv)

section \<open>The service over a store\<close>

text \<open>
  The contract of the exchange that the service needs: announcing a block with \<open>HasBlock\<close>
  does not change what the local store holds.
\<close>

locale block_service = block_store bs cidOf contents
  for bs :: "('c, 'b, 'w) blockstore" and cidOf :: "'b \<Rightarrow> 'c" and contents :: "'w \<Rightarrow> 'c \<rightharpoonup> 'b" +
  fixes s :: "('c, 'b, 'w) blockService"
  assumes store: "svcBlockstore s = bs"
    and announce_keeps: "svcExchange s = Some ex \<Longrightarrow> contents (snd (exHasBlock ex b w)) = contents w"

context block_service
begin

lemma announce_contents [simp]: "contents (announce (svcExchange s) b w) = contents w"
  by (simp add: announce_def announce_keeps split: option.splits)

lemma announce_all_contents [simp]: "contents (fold (announce (svcExchange s)) bl w) = contents w"
  by (induction bl arbitrary: w) auto

lemma missing_eq:
  "fst (missingBlocks cidOf bs bl w) = Inr (filter (\<lambda>b. contents w (cidOf b) = None) bl)
   \<and> contents (snd (missingBlocks cidOf bs bl w)) = contents w"
proof (induction bl arbitrary: w)
  case Nil
  then show ?case by simp
next
  case (Cons b bl)
  obtain h e w1 where H: "bsHas bs (cidOf b) w = ((h, e), w1)" by (metis prod.exhaust)
  have "e = None" "h = (contents w (cidOf b) \<noteq> None)" "contents w1 = contents w"
    using has_iff [of "cidOf b" w] has_frame [of "cidOf b" w] H by auto
  then show ?case using Cons.IH [of w1] H by (auto split: prod.splits sum.splits)
qed

lemma add_cases:
  assumes "AddBlock validateCid cidOf s b w = (None, w')"
  shows "validateCid (cidOf b) = None \<and>
    (if svcCheckFirst s \<and> contents w (cidOf b) \<noteq> None then contents w' = contents w
     else contents w' (cidOf b) = Some b)"
proof -
  have valid: "validateCid (cidOf b) = None"
    using assms by (auto simp: AddBlock_def split: option.splits)
  obtain h e w1 where H: "bsHas bs (cidOf b) w = ((h, e), w1)" by (metis prod.exhaust)
  have h: "e = None" "h = (contents w (cidOf b) \<noteq> None)" "contents w1 = contents w"
    using has_iff [of "cidOf b" w] has_frame [of "cidOf b" w] H by auto
  have put: "contents w2 (cidOf b) = Some b" if "bsPut bs b w0 = (None, w2)" for w0 w2
    using put_stored [of b w0] that by simp
  show ?thesis using assms valid H h put
    by (auto simp: AddBlock_def store split: if_splits prod.splits option.splits)
qed

lemma add_present:
  assumes "AddBlock validateCid cidOf s b w = (None, w')"
  obtains b' where "contents w' (cidOf b) = Some b'" and "b' = b \<or> contents w (cidOf b) = Some b'"
  using add_cases [OF assms] by (auto split: if_splits)

lemma add_batch_dom:
  assumes "AddBlocks validateCid cidOf s bl w = (None, w')"
  shows "dom (contents w) \<union> cidOf ` set bl \<subseteq> dom (contents w')"
proof -
  obtain r w1 where M: "(if svcCheckFirst s then missingBlocks cidOf bs bl w else (Inr bl, w)) = (r, w1)"
    by fastforce
  then obtain toput where r: "r = Inr toput" and w1: "contents w1 = contents w"
    and toput: "\<forall>b \<in> set bl. b \<in> set toput \<or> cidOf b \<in> dom (contents w)"
    using missing_eq [of bl w] by (auto split: if_splits)
  have put: "cidOf ` set toput \<union> dom (contents w1) \<subseteq> dom (contents w2)"
    if "bsPutMany bs toput w1 = (None, w2)" for w2
    using putMany_stored [of toput w1] putMany_keeps [of toput w1] that by auto
  have "AddBlocks validateCid cidOf s bl w =
    (if toput = [] then (None, w1)
     else case bsPutMany bs toput w1 of
            (Some err, w2) \<Rightarrow> (Some err, w2)
          | (None, w2) \<Rightarrow> (None, fold (announce (svcExchange s)) toput w2))"
    using assms M r unfolding AddBlocks_def store by (auto split: option.splits)
  then consider "toput = []" "w' = w1"
    | w2 where "bsPutMany bs toput w1 = (None, w2)" "w' = fold (announce (svcExchange s)) toput w2"
    using assms by (auto split: if_splits prod.splits option.splits)
  then show ?thesis
  proof cases
    case 1
    then show ?thesis using w1 toput by auto
  next
    case 2
    have "dom (contents w) \<union> cidOf ` set bl \<subseteq> dom (contents w2)"
      using w1 toput put [OF 2(1)] by (simp add: subset_iff) blast
    then show ?thesis using 2 by simp
  qed
qed

lemma get_hit:
  "validateCid c = None \<Longrightarrow> contents w c = Some b \<Longrightarrow>
   getBlock runEnv validateCid bs fget c (w, z) = Ret (Inr b, (snd (bsGet bs c w), z))"
  using get_found [of w c b] by (auto simp: getBlock_def split: prod.splits sum.splits)

lemma get_miss_offline:
  "validateCid c = None \<Longrightarrow> contents w c = None \<Longrightarrow>
   getBlock True validateCid bs None c (w, z) = Ret (Inl ErrBserviceNotFound, (snd (bsGet bs c w), z))"
  using get_missing [of w c] by (auto simp: getBlock_def split: prod.splits sum.splits)

lemma miss_without_runEnv:
  "validateCid c = None \<Longrightarrow> contents w c = None \<Longrightarrow>
   getBlock False validateCid bs fget c (w, z) = Panic ''nil pointer dereference''"
  using get_missing [of w c] by (auto simp: getBlock_def split: prod.splits sum.splits)

lemma local_split:
  "runEnv \<or> (\<forall>c \<in> set ks. contents w c \<noteq> None) \<Longrightarrow>
   \<exists>w1. localBlocks runEnv bs ks None w =
     Ret (List.map_filter (contents w) ks, filter (\<lambda>c. contents w c = None) ks, None, False, w1)
   \<and> contents w1 = contents w"
proof (induction ks arbitrary: w)
  case Nil
  then show ?case by (simp add: List.map_filter_simps)
next
  case (Cons c ks)
  obtain r w1 where G: "bsGet bs c w = (r, w1)" by fastforce
  then have w1: "contents w1 = contents w" using get_frame [of c w] by simp
  obtain w2 where IH: "localBlocks runEnv bs ks None w1 =
      Ret (List.map_filter (contents w) ks, filter (\<lambda>c. contents w c = None) ks, None, False, w2)"
    and "contents w2 = contents w"
    using Cons.IH [of w1] Cons.prems w1 by auto
  then show ?case
    using G Cons.prems get_found [of w c] get_missing [of w c]
    by (cases "contents w c") (auto simp: List.map_filter_simps recordMessage_def)
qed

lemma local_panic:
  "c \<in> set ks \<Longrightarrow> contents w c = None \<Longrightarrow> localBlocks False bs ks None w = Panic ''nil pointer dereference''"
proof (induction ks arbitrary: w)
  case (Cons d ks)
  obtain r w1 where G: "bsGet bs d w = (r, w1)" by fastforce
  then have w1: "contents w1 = contents w" using get_frame [of d w] by simp
  show ?case
  proof (cases "contents w d")
    case None
    then show ?thesis using G get_missing [of w d] by (auto simp: recordMessage_def)
  next
    case (Some b)
    then have "c \<in> set ks" using Cons.prems by auto
    then have "localBlocks False bs ks None w1 = Panic ''nil pointer dereference''" using Cons.IH [of w1] Cons.prems(2) w1 by simp
    then show ?thesis using G Some get_found [of w d b] by (auto split: sum.splits)
  qed
qed simp

end

section \<open>Sessions\<close>

text \<open>
  A session is used from several goroutines: its lock makes each \<open>getSession\<close> one step, and
  between two of them the store and the exchange may change in any way.
\<close>

datatype 'w sesEvent = OpenSession | OtherStep "'w \<Rightarrow> 'w"

fun sesRun :: "('w \<Rightarrow> ('c, 'b, 'w) fetcher \<times> 'w) \<Rightarrow> 'w sesEvent list \<Rightarrow> 'w \<times> ('c, 'b, 'w) session
    \<Rightarrow> ('c, 'b, 'w) fetcher list \<times> ('w \<times> ('c, 'b, 'w) session)" where
  "sesRun sessEx [] ws = ([], ws)"
| "sesRun sessEx (OtherStep g # es) ws = sesRun sessEx es (g (fst ws), snd ws)"
| "sesRun sessEx (OpenSession # es) ws =
     (let (f, ws1) = getSession sessEx ws; (fs, ws2) = sesRun sessEx es ws1 in (f # fs, ws2))"

lemma getSession_open: "sesSes (snd ws) = Some f \<Longrightarrow> getSession sessEx ws = (f, ws)"
  by (simp add: getSession_def)

lemma sesRun_open:
  assumes "sesSes (snd ws) = Some f"
    and "\<And>g w. OtherStep g \<in> set es \<Longrightarrow> opened (g w) = (opened w :: nat)"
  shows "set (fst (sesRun sessEx es ws)) \<subseteq> {f} \<and> opened (fst (snd (sesRun sessEx es ws))) = opened (fst ws)"
  using assms
proof (induction es arbitrary: ws)
  case Nil
  then show ?case by simp
next
  case (Cons e es)
  have step: "opened (g w) = opened w" if "OtherStep g \<in> set es" for g w using Cons.prems that by simp
  show ?case
  proof (cases e)
    case OpenSession
    then show ?thesis
      using Cons.IH [of ws] Cons.prems step by (simp add: getSession_open split_beta)
  next
    case (OtherStep g)
    then show ?thesis using Cons.IH [of "(g (fst ws), snd ws)"] Cons.prems step by simp
  qed
qed

lemma sesRun_fresh:
  assumes "sesSes (snd ws) = None"
    and "\<And>g w. OtherStep g \<in> set es \<Longrightarrow> opened (g w) = (opened w :: nat)"
    and "\<And>w. opened (snd (sessEx w)) = opened w + 1"
  shows "(\<exists>f. set (fst (sesRun sessEx es ws)) \<subseteq> {f})
    \<and> opened (fst (snd (sesRun sessEx es ws))) = opened (fst ws) + (if OpenSession \<in> set es then 1 else 0)"
  using assms
proof (induction sessEx es ws rule: sesRun.induct)
  case (1 sessEx ws)
  then show ?case by simp
next
  case (2 sessEx g es ws)
  then show ?case by simp
next
  case (3 sessEx es ws)
  obtain f w1 where S: "sessEx (fst ws) = (f, w1)" by fastforce
  let ?ws1 = "(w1, (snd ws)\<lparr>sesSes := Some f\<rparr>)"
  have "getSession sessEx ws = (f, ?ws1)" using 3 S by (simp add: getSession_def)
  moreover have "opened w1 = opened (fst ws) + 1" using 3(4) [of "fst ws"] S by simp
  moreover have "set (fst (sesRun sessEx es ?ws1)) \<subseteq> {f} \<and> opened (fst (snd (sesRun sessEx es ?ws1))) = opened w1"
    using sesRun_open [of ?ws1 f es opened sessEx] 3 by simp
  ultimately show ?case by (auto split: prod.splits intro!: exI [of _ f])
qed

section \<open>An instance\<close>

text \<open>A service over the store in memory, with an exchange that has nothing to offer.\<close>

definition emptyFetcher :: "('c, 'b, 'w) fetcher" where
  "emptyFetcher = \<lparr>fGetBlock = (\<lambda>c w. (Inl ErrBlockstoreNotFound, w)), fGetBlocks = (\<lambda>ks w. (Inr [], w))\<rparr>"

definition emptyExchange :: "('c, 'b, 'w) exchange" where
  "emptyExchange = \<lparr>exFetcher = emptyFetcher, exHasBlock = (\<lambda>b w. (None, w)), exClose = (\<lambda>w. (None, w)),
     exNewSession = None\<rparr>"

text \<open>An exchange that has every block, and one that counts the sessions it opens.\<close>

definition echoExchange :: "(nat, nat, nat \<rightharpoonup> nat) exchange" where
  "echoExchange = \<lparr>exFetcher = \<lparr>fGetBlock = (\<lambda>c w. (Inr c, w)), fGetBlocks = (\<lambda>ks w. (Inr ks, w))\<rparr>,
     exHasBlock = (\<lambda>b w. (None, w)), exClose = (\<lambda>w. (None, w)), exNewSession = None\<rparr>"

definition countedExchange :: "(nat, nat, nat) exchange" where
  "countedExchange = \<lparr>exFetcher = emptyFetcher, exHasBlock = (\<lambda>b w. (None, w)), exClose = (\<lambda>w. (None, w)),
     exNewSession = Some (\<lambda>n. (emptyFetcher, Suc n))\<rparr>"

interpretation mem_svc: block_service "memBS cidOf" cidOf "\<lambda>w. w" "New (memBS cidOf) (Some emptyExchange)"
  for cidOf :: "'b \<Rightarrow> 'c"
  by unfold_locales (auto simp: New_def emptyExchange_def)

section \<open>Properties\<close>

text \<open>
  C11: A block added without an error is found by \<open>GetBlock\<close>, whatever the exchange: the
  block added, or, when the service checks first, the block that was there under the same
  CID before. The exchange is not asked, and logging is not reached.
\<close>

theorem AddBlock_GetBlock:
  assumes "block_service bs cidOf contents s"
    and "AddBlock validateCid cidOf s b w = (None, w')"
  shows "\<exists>b' w2. GetBlock runEnv validateCid s (cidOf b) (w', ()) = Ret (Inr b', (w2, ()))
     \<and> (b' = b \<or> svcCheckFirst s \<and> contents w (cidOf b) = Some b') \<and> contents w2 = contents w'"
proof -
  note * = block_service.add_cases [OF assms]
  obtain b' where b': "contents w' (cidOf b) = Some b'" "b' = b \<or> svcCheckFirst s \<and> contents w (cidOf b) = Some b'"
    using * by (auto split: if_splits)
  have st: "svcBlockstore s = bs" using assms(1) by (simp add: block_service.store)
  have "block_store bs cidOf contents" using assms(1) by (simp add: block_service_def)
  then have "contents (snd (bsGet bs (cidOf b) w')) = contents w'" by (rule block_store.get_frame)
  then show ?thesis
    using block_service.get_hit [OF assms(1), of validateCid "cidOf b" w' b' runEnv _ "()"] conjunct1 [OF *] b'
    unfolding GetBlock_def st by (intro exI [of _ b'] exI [of _ "snd (bsGet bs (cidOf b) w')"]) simp
qed

theorem AddBlock_GetBlock_witness:
  "\<exists>b' w2. GetBlock False (\<lambda>c. None) (New (memBS id) (Some emptyExchange)) 3 ([3 \<mapsto> (3::nat)], ()) = Ret (Inr b', (w2, ()))
     \<and> (b' = 3 \<or> svcCheckFirst (New (memBS id) (Some emptyExchange)) \<and> Map.empty (3::nat) = Some b') \<and> w2 = [3 \<mapsto> 3]"
  using AddBlock_GetBlock [OF mem_svc.block_service_axioms [of id], of "\<lambda>c. None" 3 Map.empty "[3 \<mapsto> 3]" False]
  by (simp add: AddBlock_def New_def memBS_def announce_def emptyExchange_def)

text \<open>
  C17: \<open>AddBlocks\<close> treats the batch as a whole. If any CID of the batch is invalid it returns
  an error and the store is untouched; if it returns no error, every block of the batch is in
  the store and nothing that was there is lost.
\<close>

theorem AddBlocks_all_or_nothing:
  assumes "block_service bs cidOf contents s"
  shows "case AddBlocks validateCid cidOf s bl w of
           (None, w') \<Rightarrow> (\<forall>b \<in> set bl. validateCid (cidOf b) = None)
              \<and> dom (contents w) \<union> cidOf ` set bl \<subseteq> dom (contents w')
         | (Some err, w') \<Rightarrow> (\<exists>b \<in> set bl. validateCid (cidOf b) \<noteq> None) \<longrightarrow> w' = w"
proof (cases "AddBlocks validateCid cidOf s bl w")
  case (Pair e w')
  show ?thesis
  proof (cases e)
    case None
    then have "validateAll validateCid cidOf bl = None"
      using Pair by (auto simp: AddBlocks_def split: option.splits)
    then show ?thesis
      using Pair None block_service.add_batch_dom [OF assms, of validateCid bl w w'] by (simp add: validateAll_None)
  next
    case (Some err)
    then show ?thesis
      using Pair validateAll_None [of validateCid cidOf bl]
      by (auto simp: AddBlocks_def split: option.splits)
  qed
qed

theorem AddBlocks_all_or_nothing_witness:
  "\<exists>w'. AddBlocks (\<lambda>c. None) id (New (memBS id) (Some emptyExchange)) [1, 2::nat] Map.empty = (None, w')
     \<and> {1, 2} \<subseteq> dom w'"
  using AddBlocks_all_or_nothing [OF mem_svc.block_service_axioms [of id],
      where validateCid = "\<lambda>c. None" and bl = "[1, 2::nat]" and w = Map.empty]
  by (simp add: AddBlocks_def New_def memBS_def announce_def emptyExchange_def)

text \<open>
  With \<open>RunEnv\<close> never set, as in this repository, every local miss of a valid CID
  panics before the exchange is asked.
\<close>

theorem GetBlock_miss_without_RunEnv:
  assumes "block_service bs cidOf contents s"
    and "validateCid c = None" and "contents w c = None"
  shows "GetBlock False validateCid s c (w, ()) = Panic ''nil pointer dereference''"
  using block_service.miss_without_runEnv [OF assms(1), of validateCid c w] assms(2,3) block_service.store [OF assms(1)] by (simp add: GetBlock_def)

theorem GetBlock_miss_without_RunEnv_witness:
  "GetBlock False (\<lambda>c. None) (New (memBS id) (Some emptyExchange)) (7::nat) ([3 \<mapsto> (3::nat)], ())
     = Panic ''nil pointer dereference''"
  using GetBlock_miss_without_RunEnv [OF mem_svc.block_service_axioms [of id], where validateCid = "\<lambda>c. None" and c = 7 and w = "[3 \<mapsto> (3::nat)]"] by simp

text \<open>
  C18: \<open>GetBlocks\<close> under a context that is not cancelled, and an exchange that reports no
  error. Invalid CIDs are dropped. If the local store has all other CIDs, or if the package
  variable \<open>RunEnv\<close> is set, the local hits come first in the order of the request, and exactly
  the valid misses are asked of the exchange, in order, if there are any. If there is a miss
  and \<open>RunEnv\<close> is nil, which it is everywhere in this repository, the call panics and the
  exchange is not asked.
\<close>

theorem GetBlocks_hits_then_misses:
  assumes "block_service bs cidOf contents s"
    and "svcExchange s = Some ex"
    and "\<And>ms w1. fGetBlocks (exFetcher ex) ms w1 = (Inr (remote ms), w1)"
  shows "let valid = filter (\<lambda>c. validateCid c = None) ks; misses = filter (\<lambda>c. contents w c = None) valid
    in if runEnv \<or> misses = [] then
         \<exists>w1. GetBlocks runEnv validateCid s None ks (w, ()) =
           Ret (List.map_filter (contents w) valid @ (if misses = [] then [] else remote misses), (w1, ()))
           \<and> contents w1 = contents w
       else GetBlocks runEnv validateCid s None ks (w, ()) = Panic ''nil pointer dereference''"
proof -
  have st: "svcBlockstore s = bs" using assms by (simp add: block_service.store)
  let ?valid = "filter (\<lambda>c. validateCid c = None) ks"
  let ?misses = "filter (\<lambda>c. contents w c = None) ?valid"
  show ?thesis
  proof (cases "runEnv \<or> ?misses = []")
    case True
    then have "runEnv \<or> (\<forall>c \<in> set ?valid. contents w c \<noteq> None)" by (auto simp: filter_empty_conv)
    then obtain w1 where w1: "contents w1 = contents w"
      and L: "localBlocks runEnv bs ?valid None w = Ret (List.map_filter (contents w) ?valid, ?misses, None, False, w1)"
      using block_service.local_split [OF assms(1)] by blast
    have "GetBlocks runEnv validateCid s None ks (w, ()) =
        Ret (List.map_filter (contents w) ?valid @ (if ?misses = [] then [] else remote ?misses), (w1, ()))"
      unfolding GetBlocks_def getBlocks_def st Let_def filter_valid fst_conv L
      by (simp add: assms(2,3) getExchange_def del: filter_filter)
    then show ?thesis using True w1 by (simp add: Let_def)
  next
    case False
    then obtain c where "c \<in> set ?valid" "contents w c = None" by (auto simp: filter_empty_conv)
    from block_service.local_panic [OF assms(1) this] show ?thesis
      using False unfolding GetBlocks_def getBlocks_def st Let_def filter_valid fst_conv by (simp del: filter_filter)
  qed
qed

theorem GetBlocks_hits_then_misses_witness:
  "(\<exists>w1. GetBlocks True (\<lambda>c. None) (New (memBS id) (Some emptyExchange)) None [3, 7::nat] ([3 \<mapsto> (3::nat)], ()) =
       Ret ([3], (w1, ())) \<and> w1 = [3 \<mapsto> 3])
   \<and> GetBlocks False (\<lambda>c. None) (New (memBS id) (Some emptyExchange)) None [3, 7::nat] ([3 \<mapsto> (3::nat)], ()) =
       Panic ''nil pointer dereference''"
  using GetBlocks_hits_then_misses [OF mem_svc.block_service_axioms [of id], of emptyExchange "\<lambda>ms. []" "\<lambda>c. None" "[3, 7]" "[3 \<mapsto> (3::nat)]" True]
    GetBlocks_hits_then_misses [OF mem_svc.block_service_axioms [of id], of emptyExchange "\<lambda>ms. []" "\<lambda>c. None" "[3, 7]" "[3 \<mapsto> (3::nat)]" False]
  by (simp add: New_def emptyExchange_def emptyFetcher_def List.map_filter_simps)

text \<open>
  A session made by \<open>NewSession\<close> from an exchange that offers no sessions never uses
  that exchange: it answers exactly as a service without an exchange, although the comment
  on \<open>NewSession\<close> says the exchange "will be used directly".
\<close>

theorem NewSession_plain_exchange_unused:
  assumes "svcExchange s = Some ex" and "exNewSession ex = None"
  shows "sesGetBlock runEnv validateCid c (w, NewSession s) =
      getBlock runEnv validateCid (svcBlockstore s) None c (w, NewSession s)
    \<and> sesGetBlocks runEnv validateCid quota ks (w, NewSession s) =
      getBlocks runEnv validateCid (svcBlockstore s) None quota ks (w, NewSession s)"
  using assms by (simp_all add: sesGetBlock_def sesGetBlocks_def NewSession_def)

theorem NewSession_plain_exchange_unused_witness:
  "sesGetBlock True (\<lambda>c. None) 7 (Map.empty, NewSession (New (memBS id) (Some echoExchange)))
     = Ret (Inl ErrBserviceNotFound, (Map.empty, NewSession (New (memBS id) (Some echoExchange))))"
  using NewSession_plain_exchange_unused [of "New (memBS id) (Some echoExchange)" echoExchange True "\<lambda>c. None" 7]
  by (simp add: New_def echoExchange_def getBlock_def memBS_def)

text \<open>
  C29: However requests and other changes interleave, a session on a \<open>SessionExchange\<close> opens
  exactly one exchange session, at its first remote request, and every request gets that one.
\<close>

theorem session_opened_once:
  assumes "svcExchange s = Some ex" and "exNewSession ex = Some sessEx"
    and "\<And>w. opened (snd (sessEx w)) = (opened w :: nat) + 1"
    and "\<And>g w. OtherStep g \<in> set es \<Longrightarrow> opened (g w) = opened w"
  shows "(\<exists>f. set (fst (sesRun sessEx es (w, NewSession s))) \<subseteq> {f})
    \<and> opened (fst (snd (sesRun sessEx es (w, NewSession s)))) = opened w + (if OpenSession \<in> set es then 1 else 0)"
  using sesRun_fresh [of "(w, NewSession s)" es opened sessEx] assms by (simp add: NewSession_def)

theorem session_opened_once_witness:
  "fst (snd (sesRun (\<lambda>n. (emptyFetcher, Suc n)) [OpenSession, OtherStep id, OpenSession]
     (0, NewSession (New undefined (Some countedExchange))))) = 1"
  using session_opened_once [of "New undefined (Some countedExchange)" countedExchange "\<lambda>n. (emptyFetcher, Suc n)" id
      "[OpenSession, OtherStep id, OpenSession]" 0]
  by (simp add: New_def countedExchange_def)

end
