(* ===== verification/DagService.thy ===== *)
theory DagService
  imports FetchGraph
begin

text \<open>
  The DAG service of bitswap/mdag/mdag.go (lines 29 to 164 and 231 to 300): adding, getting
  and removing nodes over a block service, and the batch request \<open>getNodesFromBG\<close>. The
  block service is that of the package go-blockservice, and decoding a block into a node is
  \<open>legacy.DecodeNode\<close>: both are outside the repository and parameters here.
\<close>

section \<open>The service\<close>

text \<open>
  The part of \<open>bserv.BlockService\<close> and \<open>bserv.Session\<close> that the service calls. What
  \<open>GetBlocks\<close> delivers arrives on a channel and is modelled where it is received.
\<close>

record ('c, 'b, 'w) bservBlocks =
  bvAddBlock :: "'b \<Rightarrow> 'w \<Rightarrow> goerr option \<times> 'w"
  bvAddBlocks :: "'b list \<Rightarrow> 'w \<Rightarrow> goerr option \<times> 'w"
  bvGetBlock :: "'c \<Rightarrow> 'w \<Rightarrow> (goerr + 'b) \<times> 'w"
  bvDeleteBlock :: "'c \<Rightarrow> 'w \<Rightarrow> goerr option \<times> 'w"

record ('c, 'b, 'w) dagService =
  Blocks :: "('c, 'b, 'w) bservBlocks"

definition NewDAGService :: "('c, 'b, 'w) bservBlocks \<Rightarrow> ('c, 'b, 'w) dagService" where
  "NewDAGService bs = \<lparr>Blocks = bs\<rparr>"

text \<open>A nil receiver is \<open>None\<close>; a node is a block, \<open>asBlock nd\<close>.\<close>

definition dagAdd :: "('n \<Rightarrow> 'b) \<Rightarrow> ('c, 'b, 'w) dagService option \<Rightarrow> 'n \<Rightarrow> 'w \<Rightarrow> goerr option \<times> 'w" where
  "dagAdd asBlock n nd w =
     (case n of
        None \<Rightarrow> (Some (Errorf ''dagService is nil'' None), w)
      | Some svc \<Rightarrow> bvAddBlock (Blocks svc) (asBlock nd) w)"

definition dagAddMany :: "('n \<Rightarrow> 'b) \<Rightarrow> ('c, 'b, 'w) dagService \<Rightarrow> 'n list \<Rightarrow> 'w \<Rightarrow> goerr option \<times> 'w" where
  "dagAddMany asBlock n nds w = bvAddBlocks (Blocks n) (map asBlock nds) w"

definition dagGet :: "('b \<Rightarrow> goerr + 'n) \<Rightarrow> ('c, 'b, 'w) dagService option \<Rightarrow> ('c, 'n, 'w) nodeGet" where
  "dagGet decodeNode n c w =
     (case n of
        None \<Rightarrow> (Inl (Errorf ''dagService is nil'' None), w)
      | Some svc \<Rightarrow>
          (case bvGetBlock (Blocks svc) c w of
             (Inl err, w') \<Rightarrow>
               (if err = ErrBlockserviceNotFound then (Inl ErrFormatNotFound, w')
                else (Inl (Errorf ''failed to get block'' (Some err)), w'))
           | (Inr b, w') \<Rightarrow> (decodeNode b, w')))"

text \<open>\<open>isRaw c\<close> is the test \<open>c.Type() == cid.Raw\<close>.\<close>

definition dagGetLinks :: "('c \<Rightarrow> bool) \<Rightarrow> ('n \<Rightarrow> 'c list) \<Rightarrow> ('b \<Rightarrow> goerr + 'n) \<Rightarrow> ('c, 'b, 'w) dagService option
    \<Rightarrow> ('c, 'w) getLinks" where
  "dagGetLinks isRaw nodeLinks decodeNode n c w =
     (if isRaw c then (([], None), w)
      else case dagGet decodeNode n c w of
             (Inl err, w') \<Rightarrow> (([], Some err), w')
           | (Inr node, w') \<Rightarrow> ((nodeLinks node, None), w'))"

definition dagRemove :: "('c, 'b, 'w) dagService \<Rightarrow> 'c \<Rightarrow> 'w \<Rightarrow> goerr option \<times> 'w" where
  "dagRemove n c w = bvDeleteBlock (Blocks n) c w"

fun dagRemoveMany :: "('c, 'b, 'w) dagService \<Rightarrow> 'c list \<Rightarrow> 'w \<Rightarrow> goerr option \<times> 'w" where
  "dagRemoveMany n [] w = (None, w)"
| "dagRemoveMany n (c # cids) w =
     (case bvDeleteBlock (Blocks n) c w of
        (Some err, w') \<Rightarrow> (Some err, w')
      | (None, w') \<Rightarrow> dagRemoveMany n cids w')"

text \<open>The getter of a session wraps other errors of the block service in nothing.\<close>

definition sesGetterGet :: "('b \<Rightarrow> goerr + 'n) \<Rightarrow> ('c \<Rightarrow> 'w \<Rightarrow> (goerr + 'b) \<times> 'w) \<Rightarrow> ('c, 'n, 'w) nodeGet" where
  "sesGetterGet decodeNode sesGetBlock c w =
     (case sesGetBlock c w of
        (Inl err, w') \<Rightarrow> (Inl (if err = ErrBlockserviceNotFound then ErrFormatNotFound else err), w')
      | (Inr blk, w') \<Rightarrow> (decodeNode blk, w'))"

section \<open>Batch requests\<close>

text \<open>\<open>setKeys\<close> is \<open>cid.Set.Keys()\<close>, which lists a set in an order of its own.\<close>

definition dedupKeys :: "('c set \<Rightarrow> 'c list) \<Rightarrow> 'c list \<Rightarrow> 'c list" where
  "dedupKeys setKeys keys =
     (let s = fold insert keys {} in if card s = length keys then keys else setKeys s)"

text \<open>
  What the select of the loop receives: a block, the close of the channel of blocks, or the
  end of the context. The loop yields what it sends on \<open>out\<close> and whether it has closed it;
  with no event left it waits.
\<close>

datatype 'b bgEvent = BlockReceived 'b | BlocksClosed | CtxDone

fun bgLoop :: "('b \<Rightarrow> goerr + 'n) \<Rightarrow> nat \<Rightarrow> nat \<Rightarrow> 'b bgEvent list \<Rightarrow> (goerr + 'n) list \<times> bool" where
  "bgLoop decodeNode nkeys count [] = ([], False)"
| "bgLoop decodeNode nkeys count (BlocksClosed # es) =
     (if count \<noteq> nkeys then [Inl (Errorf ''failed to fetch all nodes'' None)] else [], True)"
| "bgLoop decodeNode nkeys count (BlockReceived b # es) =
     (case decodeNode b of
        Inl err \<Rightarrow> ([Inl err], True)
      | Inr nd \<Rightarrow> (let (out, closed) = bgLoop decodeNode nkeys (count + 1) es in (Inr nd # out, closed)))"
| "bgLoop decodeNode nkeys count (CtxDone # es) = ([Inl ErrCtxDone], True)"

text \<open>\<open>blocksOf ks\<close> is what arrives for the request \<open>GetBlocks(ctx, ks)\<close>.\<close>

definition getNodesFromBG :: "('b \<Rightarrow> goerr + 'n) \<Rightarrow> ('c set \<Rightarrow> 'c list) \<Rightarrow> ('c list \<Rightarrow> 'b bgEvent list) \<Rightarrow> 'c list
    \<Rightarrow> (goerr + 'n) list \<times> bool" where
  "getNodesFromBG decodeNode setKeys blocksOf keys =
     (let ks = dedupKeys setKeys keys in bgLoop decodeNode (length ks) 0 (blocksOf ks))"

section \<open>Lemmas\<close>

text \<open>\<open>setKeys\<close> lists each member once.\<close>

locale key_lister =
  fixes setKeys :: "'c set \<Rightarrow> 'c list"
  assumes keys_set: "finite X \<Longrightarrow> set (setKeys X) = X"
    and keys_distinct: "finite X \<Longrightarrow> distinct (setKeys X)"

context key_lister
begin

lemma dedup_set: "set (dedupKeys setKeys keys) = set keys"
  by (simp add: dedupKeys_def Let_def fold_insert_is_set keys_set)

lemma dedup_distinct: "distinct (dedupKeys setKeys keys)"
  by (simp add: dedupKeys_def Let_def fold_insert_is_set keys_distinct card_distinct)

lemma dedup_length: "length (dedupKeys setKeys keys) = card (set keys)"
  using distinct_card [OF dedup_distinct] dedup_set by metis

lemma dedup_id: "distinct keys \<Longrightarrow> dedupKeys setKeys keys = keys"
  by (simp add: dedupKeys_def Let_def fold_insert_is_set distinct_card)

end

interpretation sorted_keys: key_lister "sorted_list_of_set :: nat set \<Rightarrow> nat list"
  by unfold_locales simp_all

fun received :: "'b bgEvent list \<Rightarrow> nat" where
  "received [] = 0"
| "received (BlockReceived b # es) = Suc (received es)"
| "received (e # es) = received es"

lemma received_blocks [simp]: "received (map BlockReceived bl @ [BlocksClosed]) = length bl"
  by (induction bl) auto

lemma bgLoop_shape:
  "\<exists>nds errs. fst (bgLoop decodeNode nkeys count es) = map Inr nds @ map Inl errs \<and> length errs \<le> 1
     \<and> (snd (bgLoop decodeNode nkeys count es) \<longrightarrow> errs = [] \<longrightarrow> count + length nds = nkeys)"
proof (induction decodeNode nkeys count es rule: bgLoop.induct)
  case (1 decodeNode nkeys count)
  then show ?case by simp
next
  case (2 decodeNode nkeys count es)
  then show ?case
    by (cases "count = nkeys") (auto intro!: exI [of _ "[]"] exI [of _ "[Errorf ''failed to fetch all nodes'' None]"])
next
  case (3 decodeNode nkeys count b es)
  show ?case
  proof (cases "decodeNode b")
    case (Inl err)
    then show ?thesis by (auto intro!: exI [of _ "[]"] exI [of _ "[err]"])
  next
    case (Inr nd)
    then obtain nds errs where
      "fst (bgLoop decodeNode nkeys (count + 1) es) = map Inr nds @ map Inl errs" "length errs \<le> 1"
      "snd (bgLoop decodeNode nkeys (count + 1) es) \<longrightarrow> errs = [] \<longrightarrow> count + 1 + length nds = nkeys"
      using 3 by blast
    then show ?thesis using Inr
      by (auto simp: split_beta intro!: exI [of _ "nd # nds"] exI [of _ errs])
  qed
next
  case (4 decodeNode nkeys count es)
  then show ?case by (auto intro!: exI [of _ "[]"] exI [of _ "[ErrCtxDone]"])
qed

lemma bgLoop_sends:
  "count + received es \<le> nkeys \<Longrightarrow> CtxDone \<notin> set es \<Longrightarrow>
   count + length (fst (bgLoop decodeNode nkeys count es)) \<le> nkeys"
proof (induction decodeNode nkeys count es rule: bgLoop.induct)
  case (3 decodeNode nkeys count b es)
  then show ?case by (auto simp: split_beta split: sum.splits)
qed auto

lemma bgLoop_all:
  "\<forall>b \<in> set bl. \<exists>nd. decodeNode b = Inr nd \<Longrightarrow>
   bgLoop decodeNode nkeys count (map BlockReceived bl @ [BlocksClosed]) =
     (map decodeNode bl @ (if count + length bl \<noteq> nkeys then [Inl (Errorf ''failed to fetch all nodes'' None)] else []), True)"
  by (induction bl arbitrary: count) auto

text \<open>
  The contract of \<open>DeleteBlock\<close>: it removes the block when it reports no error, and
  changes nothing that is stored when it does.
\<close>

locale block_deleter =
  fixes n :: "('c, 'b, 'w) dagService" and contents :: "'w \<Rightarrow> 'c \<rightharpoonup> 'b"
  assumes delete_effect: "contents (snd (bvDeleteBlock (Blocks n) c w)) =
      (if fst (bvDeleteBlock (Blocks n) c w) = None then (contents w)(c := None) else contents w)"

context block_deleter
begin

lemma removeMany_prefix:
  "\<exists>k \<le> length cids. contents (snd (dagRemoveMany n cids w)) = contents w |` (- set (take k cids))
     \<and> (fst (dagRemoveMany n cids w) = None \<longrightarrow> k = length cids)"
proof (induction cids arbitrary: w)
  case Nil
  then show ?case by (simp add: restrict_map_def)
next
  case (Cons c cids)
  obtain e w1 where D: "bvDeleteBlock (Blocks n) c w = (e, w1)" by fastforce
  show ?case
  proof (cases e)
    case None
    then have w1: "contents w1 = (contents w)(c := None)" using delete_effect [of c w] D by simp
    obtain k where "k \<le> length cids" "contents (snd (dagRemoveMany n cids w1)) = contents w1 |` (- set (take k cids))"
      "fst (dagRemoveMany n cids w1) = None \<longrightarrow> k = length cids"
      using Cons.IH by blast
    then show ?thesis using D None w1
      by (intro exI [of _ "Suc k"]) (auto simp: restrict_map_def fun_eq_iff)
  next
    case (Some err)
    then have "contents w1 = contents w" using delete_effect [of c w] D by simp
    then show ?thesis using D Some by (intro exI [of _ 0]) (simp add: restrict_map_def)
  qed
qed

end

section \<open>An instance\<close>

text \<open>A block service whose state is the map of its blocks; a deletion of CID 0 is refused.\<close>

definition mapBlocks :: "(nat, nat list, nat \<rightharpoonup> nat list) bservBlocks" where
  "mapBlocks =
     \<lparr>bvAddBlock = (\<lambda>b w. (None, w(hd b \<mapsto> b))),
      bvAddBlocks = (\<lambda>bl w. (None, fold (\<lambda>b m. m(hd b \<mapsto> b)) bl w)),
      bvGetBlock = (\<lambda>c w. (case w c of None \<Rightarrow> Inl ErrBlockserviceNotFound | Some b \<Rightarrow> Inr b, w)),
      bvDeleteBlock = (\<lambda>c w. if c = 0 then (Some (ErrExternal ''refused''), w) else (None, w(c := None)))\<rparr>"

interpretation map_blocks: block_deleter "NewDAGService mapBlocks" "\<lambda>w. w"
  by unfold_locales (simp add: NewDAGService_def mapBlocks_def)

section \<open>Properties\<close>

text \<open>
  \<open>getNodesFromBG\<close> delivers nodes and then at most one error, last. If it closes its
  channel without an error it has delivered as many nodes as there are different keys.
\<close>

theorem getNodesFromBG_error_last:
  assumes "key_lister setKeys" and "getNodesFromBG decodeNode setKeys blocksOf keys = (out, closed)"
  shows "\<exists>nds errs. out = map Inr nds @ map Inl errs \<and> length errs \<le> 1
    \<and> (closed \<longrightarrow> errs = [] \<longrightarrow> length nds = card (set keys))"
  using bgLoop_shape [of decodeNode "card (set keys)" 0 "blocksOf (dedupKeys setKeys keys)"] assms
  by (simp add: getNodesFromBG_def key_lister.dedup_length)

theorem getNodesFromBG_error_last_witness:
  "\<exists>nds errs. [Inr (5::nat), Inl ErrCtxDone] = map Inr nds @ map Inl errs \<and> length errs \<le> 1
    \<and> (True \<longrightarrow> errs = [] \<longrightarrow> length nds = card (set [5, 6, 5::nat]))"
  by (rule getNodesFromBG_error_last [OF sorted_keys.key_lister_axioms, where decodeNode = Inr
        and blocksOf = "\<lambda>ks. [BlockReceived (5::nat), CtxDone]"])
    (simp add: getNodesFromBG_def)

text \<open>
  C27: The channel \<open>out\<close> holds as many values as there are different keys. As long as the
  block service sends no more blocks than it was asked for and the context is not cancelled,
  the loop never sends more, so it ends even when nobody reads \<open>out\<close>.
\<close>

theorem getNodesFromBG_never_blocks:
  assumes "key_lister setKeys"
    and "received (blocksOf (dedupKeys setKeys keys)) \<le> card (set keys)"
    and "CtxDone \<notin> set (blocksOf (dedupKeys setKeys keys))"
  shows "length (fst (getNodesFromBG decodeNode setKeys blocksOf keys)) \<le> length (dedupKeys setKeys keys)"
  using bgLoop_sends [of 0 "blocksOf (dedupKeys setKeys keys)" "card (set keys)" decodeNode] assms
  by (simp add: getNodesFromBG_def key_lister.dedup_length)

theorem getNodesFromBG_never_blocks_witness:
  "length (fst (getNodesFromBG Inr sorted_list_of_set (\<lambda>ks. map BlockReceived ks @ [BlocksClosed]) [5, 6, 5::nat]))
     \<le> length (dedupKeys sorted_list_of_set [5, 6, 5::nat])"
  by (rule getNodesFromBG_never_blocks [OF sorted_keys.key_lister_axioms])
    (auto simp: sorted_keys.dedup_length)

text \<open>
  C23: When every block of a batch arrives and decodes, the nodes are delivered in the order
  of the blocks, without an error and with the channel closed; when one is missing, the last
  value is "failed to fetch all nodes".
\<close>

theorem getNodesFromBG_delivers:
  assumes "key_lister setKeys"
    and "blocksOf (dedupKeys setKeys keys) = map BlockReceived bl @ [BlocksClosed]"
    and "\<forall>b \<in> set bl. \<exists>nd. decodeNode b = Inr nd"
  shows "getNodesFromBG decodeNode setKeys blocksOf keys =
    (map decodeNode bl @ (if length bl \<noteq> card (set keys) then [Inl (Errorf ''failed to fetch all nodes'' None)] else []), True)"
  using bgLoop_all [OF assms(3), of "card (set keys)" 0] assms(1,2)
  by (simp add: getNodesFromBG_def key_lister.dedup_length)

theorem getNodesFromBG_delivers_witness:
  "getNodesFromBG Inr sorted_list_of_set (\<lambda>ks. map BlockReceived [5, 6::nat] @ [BlocksClosed]) [5, 6, 5::nat]
     = ([Inr 5, Inr 6], True)"
  using getNodesFromBG_delivers [OF sorted_keys.key_lister_axioms,
      of "\<lambda>ks. map BlockReceived [5, 6::nat] @ [BlocksClosed]" "[5, 6, 5]" "[5, 6]" Inr]
  by (simp add: card_insert_if)

text \<open>
  \<open>RemoveMany\<close> stops at the first block it cannot delete: what is left is what was
  there less the CIDs of a prefix of the list, and of the whole list when it returns nil.
\<close>

theorem RemoveMany_prefix:
  assumes "block_deleter n contents"
  shows "\<exists>k \<le> length cids. contents (snd (dagRemoveMany n cids w)) = contents w |` (- set (take k cids))
    \<and> (fst (dagRemoveMany n cids w) = None \<longrightarrow> k = length cids)"
  by (rule block_deleter.removeMany_prefix [OF assms])

theorem RemoveMany_prefix_witness:
  "\<exists>k \<le> length [2, 0, 3]. snd (dagRemoveMany (NewDAGService mapBlocks) [2, 0, 3] [2 \<mapsto> [2], 3 \<mapsto> [3]])
       = [2 \<mapsto> [2], 3 \<mapsto> [3]] |` (- set (take k [2, 0, 3]))
    \<and> (fst (dagRemoveMany (NewDAGService mapBlocks) [2, 0, 3] [2 \<mapsto> [2], 3 \<mapsto> [3]]) = None \<longrightarrow> k = length [2, 0, 3::nat])"
  using RemoveMany_prefix [OF map_blocks.block_deleter_axioms, of "[2, 0, 3]" "[2 \<mapsto> [2], 3 \<mapsto> [3]]"] by simp

text \<open>
  C28: A walk with \<open>IgnoreMissing\<close> over a DAG service gets through a partial DAG. Let the
  block service, in all its states \<open>ok\<close>, answer each request for a node of a finite graph with
  its block, which decodes, or with its own "not found", and stay in such a state; a missing
  node has no links. Then, for every visit function that says yes to a CID exactly once, a
  call stack of one frame more than the graph has nodes is enough: the walk returns, it
  returns nil, and it has visited exactly what can be reached from the root through the nodes
  that are there. Whatever the stack, no other result is possible. The two sentinel errors
  are translated on the way.
\<close>

theorem walk_partial_dag_IgnoreMissing:
  assumes "visitor visit seen" and "\<And>s e. seen (s\<lparr>fsEnv := e\<rparr>) = seen s" and "\<And>c d s. fsEnv (snd (visit c d s)) = fsEnv s"
    and "finite nodes" and "r \<in> nodes" and "\<And>c. c \<in> nodes \<Longrightarrow> set (succs c) \<subseteq> nodes"
    and "\<And>c w. c \<in> nodes \<Longrightarrow> ok w \<Longrightarrow> ok (snd (bvGetBlock bs c w)) \<and>
           (case fst (bvGetBlock bs c w) of
              Inl err \<Rightarrow> err = ErrBlockserviceNotFound \<and> succs c = []
            | Inr b \<Rightarrow> (\<exists>nd. decodeNode b = Inr nd \<and> nodeLinks nd = succs c))"
    and "seen s = {}" and "ok (fsEnv s)"
  shows "\<exists>s'. sequentialWalkDepth (Suc (card nodes)) (fetchLinks nodeLinks (dagGet decodeNode (Some (NewDAGService bs)))) visit
      (applyOptions [IgnoreMissing]) r 0 s = Some (None, s') \<and> seen s' = reach succs r \<and>
    (\<forall>n x. sequentialWalkDepth n (fetchLinks nodeLinks (dagGet decodeNode (Some (NewDAGService bs)))) visit
      (applyOptions [IgnoreMissing]) r 0 s = Some x \<longrightarrow> x = (None, s'))"
proof -
  let ?links = "fetchLinks nodeLinks (dagGet decodeNode (Some (NewDAGService bs)))"
  let ?found = "\<lambda>c s. ((succs c, None :: goerr option), snd (?links c s))"
  let ?opts = "applyOptions [IgnoreMissing]"
  have frame: "seen (snd (?links c s)) = seen s" for c s
    using assms(2) by (simp add: fetchLinks_def split_beta)
  have gv: "graph_visitor visit seen ?found succs nodes"
    by (intro graph_visitor.intro graph_visitor_axioms.intro assms(1,4,6)) (simp_all add: frame)
  have node: "fst (fst (?links c s)) = succs c \<and> nodeErr ?links ?opts c s = Some (None, snd (?links c s)) \<and> ok (fsEnv (snd (?links c s)))"
    if "c \<in> nodes" "ok (fsEnv s)" for c s
    using assms(7) [OF that]
    by (auto simp: fetchLinks_def GetLinksDirect_def dagGet_def NewDAGService_def applyOptions_def option_defs handler_defs handleErr_Direct
        split: prod.splits sum.splits)
  have same: "sequentialWalkDepth n ?found visit ?opts r 0 s = sequentialWalkDepth n ?links visit ?opts r 0 s" for n
    by (rule walk_cong_handled [where N = nodes and I = "\<lambda>s. ok (fsEnv s)", THEN conjunct1])
      (use node assms(3,5,6,9) in auto)
  have "\<not> optSkipRoot ?opts" by (simp add: applyOptions_def option_defs)
  then obtain s' where run: "sequentialWalkDepth (Suc (card nodes)) ?found visit ?opts r 0 s = Some (None, s')"
    and cov: "graph_visitor.covers seen succs {r} s s'"
    using graph_visitor.walk_covers [OF gv assms(5), of ?opts s "Suc (card nodes)" 0] assms(8) by (auto simp del: sequentialWalkDepth.simps)
  have "seen s' = reach succs r" by (rule graph_visitor.covers_reach [OF gv assms(8) cov])
  then show ?thesis using run walk_fuel_unique [OF run] unfolding same by blast
qed

theorem walk_partial_dag_IgnoreMissing_witness:
  "\<exists>s'. sequentialWalkDepth 3 (fetchLinks tl (dagGet Inr (Some (NewDAGService mapBlocks)))) (fetchGraphVisit (-1))
      (applyOptions [IgnoreMissing]) 1 0 (fetchInit None [1 \<mapsto> [1, 2]]) = Some (None, s') \<and>
     dom (fsSet s') = reach (\<lambda>c. if c = 1 then [2] else []) 1"
proof -
  have card: "Suc (card {1, 2 :: nat}) = 3" by simp
  have "\<exists>s'. sequentialWalkDepth (Suc (card {1, 2 :: nat})) (fetchLinks tl (dagGet Inr (Some (NewDAGService mapBlocks)))) (fetchGraphVisit (-1))
      (applyOptions [IgnoreMissing]) 1 0 (fetchInit None [1 \<mapsto> [1, 2]]) = Some (None, s') \<and>
      dom (fsSet s') = reach (\<lambda>c. if c = 1 then [2] else []) 1 \<and>
    (\<forall>n x. sequentialWalkDepth n (fetchLinks tl (dagGet Inr (Some (NewDAGService mapBlocks)))) (fetchGraphVisit (-1))
      (applyOptions [IgnoreMissing]) 1 0 (fetchInit None [1 \<mapsto> [1, 2]]) = Some x \<longrightarrow> x = (None, s'))"
    by (rule walk_partial_dag_IgnoreMissing [where seen = "\<lambda>s. dom (fsSet s)" and ok = "\<lambda>w. w = [1 \<mapsto> [1, 2]]"])
      (auto simp: fetch_all.visitor_axioms mapBlocks_def fetchInit_def fetchGraphVisit_def fetchVisit_def fetchVisitProgress_def Let_def
        split: prod.splits bool.splits)
  then show ?thesis unfolding card by blast
qed

end
