(* ===== verification/BitswapClient.thy ===== *)
theory BitswapClient
  imports Prelude
begin

text \<open>
  The Bitswap client of bitswap/client.go: the table of outstanding wants, the requests that
  fill it and the stream handler that answers them. The state is that of \<open>Client\<close> with the
  response channels it has made. The text of a CID and of a peer ID, the supply of request
  IDs, the iteration order of a Go map and the network are outside the repository and
  parameters here.
\<close>

section \<open>State\<close>

text \<open>A response carries a block; a channel has a capacity and the values it holds.\<close>

record 'b response =
  rspBlk :: "'b option"

record 'b respChan =
  chCap :: nat
  chBuf :: "'b response list"

text \<open>
  \<open>wants\<close> maps a key for CID and peer to a map from request IDs to channels. Channels live
  at addresses below \<open>clNext\<close>; a nil stream is \<open>clStream = False\<close>. \<open>clSent\<close> holds the
  wantlists written to the stream and \<open>clMsgWants\<close>, \<open>clMsgCount\<close> the two counters. While
  \<open>handleStream\<close> holds the lock, \<open>clHandler\<close> holds the sends it has left and its map
  \<open>toDelete\<close>. \<open>clDelivered\<close> records every send on a channel and is read by no operation.
\<close>

type_synonym 'b handlerItem = "string \<times> string \<times> nat \<times> 'b"

record ('c, 'b) client =
  clPeer :: string
  clStream :: bool
  clWants :: "string \<rightharpoonup> (string \<rightharpoonup> nat)"
  clChans :: "nat \<Rightarrow> 'b respChan"
  clNext :: nat
  clSent :: "'c list list"
  clMsgWants :: int
  clMsgCount :: int
  clHandler :: "('b handlerItem list \<times> (string \<rightharpoonup> string)) option"
  clDelivered :: "(nat \<times> 'b) list"

definition NewClient :: "string \<Rightarrow> ('c, 'b) client" where
  "NewClient p = \<lparr>clPeer = p, clStream = False, clWants = Map.empty, clChans = (\<lambda>_. \<lparr>chCap = 0, chBuf = []\<rparr>),
     clNext = 0, clSent = [], clMsgWants = 0, clMsgCount = 0, clHandler = None, clDelivered = []\<rparr>"

section \<open>Requests\<close>

text \<open>\<open>cidString\<close> is the text of a CID.\<close>

definition wantsKey :: "('c \<Rightarrow> string) \<Rightarrow> 'c \<Rightarrow> string \<Rightarrow> string" where
  "wantsKey cidString c peerID = cidString c @ '','' @ peerID"

definition makeChan :: "nat \<Rightarrow> ('c, 'b) client \<Rightarrow> nat \<times> ('c, 'b) client" where
  "makeChan n cl = (clNext cl, cl\<lparr>clChans := (clChans cl)(clNext cl := \<lparr>chCap = n, chBuf = []\<rparr>), clNext := clNext cl + 1\<rparr>)"

text \<open>\<open>c.wants[key][reqID] = ch\<close>, with the inner map made when it is not there.\<close>

definition addWant :: "string \<Rightarrow> string \<Rightarrow> nat \<Rightarrow> ('c, 'b) client \<Rightarrow> ('c, 'b) client" where
  "addWant key reqID ch cl =
     (let inner = (case clWants cl key of None \<Rightarrow> Map.empty | Some m \<Rightarrow> m)
      in cl\<lparr>clWants := (clWants cl)(key \<mapsto> inner(reqID \<mapsto> ch))\<rparr>)"

text \<open>The loop over the CIDs. \<open>newUuid k\<close> is the \<open>k\<close>-th request ID; channels and IDs share a counter.\<close>

fun addWants :: "('c \<Rightarrow> string) \<Rightarrow> (nat \<Rightarrow> string) \<Rightarrow> 'c list \<Rightarrow> ('c, 'b) client \<Rightarrow> nat list \<times> ('c, 'b) client" where
  "addWants cidString newUuid [] cl = ([], cl)"
| "addWants cidString newUuid (blkCid # cids) cl =
     (let (ch, cl1) = makeChan 1 cl;
          cl2 = addWant (wantsKey cidString blkCid (clPeer cl1)) (newUuid ch) ch cl1;
          (out, cl3) = addWants cidString newUuid cids cl2
      in (ch # out, cl3))"

text \<open>
  \<open>streamErr\<close> is the error of \<open>Host.NewStream\<close> and \<open>netErr\<close> that of \<open>msg.ToNetV1\<close>; the
  second one panics.
\<close>

definition openStream :: "goerr option \<Rightarrow> ('c, 'b) client \<Rightarrow> goerr + ('c, 'b) client" where
  "openStream streamErr cl =
     (if clStream cl then Inr cl
      else case streamErr of Some err \<Rightarrow> Inl err | None \<Rightarrow> Inr (cl\<lparr>clStream := True\<rparr>))"

definition getBlockFromPeer :: "('c \<Rightarrow> string) \<Rightarrow> (nat \<Rightarrow> string) \<Rightarrow> goerr option \<Rightarrow> goerr option \<Rightarrow> 'c list
    \<Rightarrow> ('c, 'b) client \<Rightarrow> ((goerr + nat list) \<times> ('c, 'b) client) outcome" where
  "getBlockFromPeer cidString newUuid streamErr netErr cids cl =
     (case openStream streamErr cl of
        Inl err \<Rightarrow> Ret (Inl err, cl)
      | Inr cl0 \<Rightarrow>
          (let (out, cl1) = addWants cidString newUuid cids cl0;
               cl2 = cl1\<lparr>clMsgWants := clMsgWants cl1 + int (length cids), clMsgCount := clMsgCount cl1 + 1\<rparr>
           in case netErr of
                Some err \<Rightarrow> Panic ''ToNetV1''
              | None \<Rightarrow> Ret (Inr out, cl2\<lparr>clSent := clSent cl2 @ [cids]\<rparr>)))"

text \<open>The variant for one CID and a channel of the caller; it counts nothing.\<close>

definition getBlockFromPeer2 :: "('c \<Rightarrow> string) \<Rightarrow> (nat \<Rightarrow> string) \<Rightarrow> goerr option \<Rightarrow> goerr option \<Rightarrow> 'c \<Rightarrow> nat
    \<Rightarrow> ('c, 'b) client \<Rightarrow> (goerr option \<times> ('c, 'b) client) outcome" where
  "getBlockFromPeer2 cidString newUuid streamErr netErr blkCid ch cl =
     (case openStream streamErr cl of
        Inl err \<Rightarrow> Ret (Some err, cl)
      | Inr cl0 \<Rightarrow>
          (let reqID = newUuid (clNext cl0);
               cl1 = addWant (wantsKey cidString blkCid (clPeer cl0)) reqID ch (cl0\<lparr>clNext := clNext cl0 + 1\<rparr>)
           in case netErr of
                Some err \<Rightarrow> Panic ''ToNetV1''
              | None \<Rightarrow> Ret (None, cl1\<lparr>clSent := clSent cl1 @ [[blkCid]]\<rparr>)))"

section \<open>The stream handler\<close>

text \<open>
  \<open>handleStream\<close> up to its loop over the blocks. \<open>msg\<close> is what \<open>message.FromNet\<close> returns:
  an error, or the lists \<open>DontHaves()\<close> and \<open>Blocks()\<close>. \<open>iter m\<close> is the order in which the
  range loop sees the entries of the map \<open>m\<close>. The lock is held, so the maps do not change
  while the handler runs, and its sends are known when it starts.
\<close>

definition blockSends :: "('c \<Rightarrow> string) \<Rightarrow> ('b \<Rightarrow> 'c) \<Rightarrow> ((string \<rightharpoonup> nat) \<Rightarrow> (string \<times> nat) list) \<Rightarrow> string
    \<Rightarrow> ('c, 'b) client \<Rightarrow> 'b \<Rightarrow> 'b handlerItem list" where
  "blockSends cidString blkCid iter remotePeer cl blk =
     (let k = wantsKey cidString (blkCid blk) remotePeer
      in case clWants cl k of
           None \<Rightarrow> []
         | Some chanMap \<Rightarrow> map (\<lambda>(reqID, ch). (k, reqID, ch, blk)) (iter chanMap))"

definition handleStart :: "('c \<Rightarrow> string) \<Rightarrow> ('b \<Rightarrow> 'c) \<Rightarrow> ((string \<rightharpoonup> nat) \<Rightarrow> (string \<times> nat) list) \<Rightarrow> string
    \<Rightarrow> goerr + ('c list \<times> 'b list) \<Rightarrow> ('c, 'b) client \<Rightarrow> ('c, 'b) client outcome" where
  "handleStart cidString blkCid iter remotePeer msg cl =
     (case msg of
        Inl err \<Rightarrow> Panic ''error reading message from stream, discarding''
      | Inr (dontHaves, blks) \<Rightarrow>
          if dontHaves \<noteq> [] then Panic ''received dont have''
          else Ret (cl\<lparr>clHandler := Some (concat (map (blockSends cidString blkCid iter remotePeer cl) blks), Map.empty)\<rparr>))"

text \<open>One send of the loop, which waits until the channel has room.\<close>

definition hasRoom :: "nat \<Rightarrow> ('c, 'b) client \<Rightarrow> bool" where
  "hasRoom ch cl \<longleftrightarrow> length (chBuf (clChans cl ch)) < chCap (clChans cl ch)"

definition pushChan :: "nat \<Rightarrow> 'b \<Rightarrow> ('c, 'b) client \<Rightarrow> ('c, 'b) client" where
  "pushChan ch blk cl =
     (let c = clChans cl ch
      in cl\<lparr>clChans := (clChans cl)(ch := c\<lparr>chBuf := chBuf c @ [\<lparr>rspBlk = Some blk\<rparr>]\<rparr>),
            clDelivered := clDelivered cl @ [(ch, blk)]\<rparr>)"

definition handleSend :: "('c, 'b) client \<Rightarrow> ('c, 'b) client option" where
  "handleSend cl =
     (case clHandler cl of
        Some ((k, reqID, ch, blk) # work, toDelete) \<Rightarrow>
          if hasRoom ch cl then Some ((pushChan ch blk cl)\<lparr>clHandler := Some (work, toDelete(k \<mapsto> reqID))\<rparr>) else None
      | _ \<Rightarrow> None)"

text \<open>The deletions, after which the lock is released.\<close>

definition deleteWants :: "(string \<rightharpoonup> string) \<Rightarrow> (string \<rightharpoonup> (string \<rightharpoonup> nat)) \<Rightarrow> (string \<rightharpoonup> (string \<rightharpoonup> nat))" where
  "deleteWants toDelete wants =
     (\<lambda>k. case toDelete k of
            None \<Rightarrow> wants k
          | Some reqID \<Rightarrow> map_option (\<lambda>m. m(reqID := None)) (wants k))"

definition handleEnd :: "('c, 'b) client \<Rightarrow> ('c, 'b) client option" where
  "handleEnd cl =
     (case clHandler cl of
        Some ([], toDelete) \<Rightarrow> Some (cl\<lparr>clWants := deleteWants toDelete (clWants cl), clHandler := None\<rparr>)
      | _ \<Rightarrow> None)"

text \<open>
  The rest of the handler after \<open>handleStart\<close> when no other goroutine takes a step: \<open>n\<close> sends
  and the deletions. \<open>None\<close> means that a send waits, with the lock held.
\<close>

fun handleLoop :: "nat \<Rightarrow> ('c, 'b) client \<Rightarrow> ('c, 'b) client option" where
  "handleLoop 0 cl = handleEnd cl"
| "handleLoop (Suc n) cl = (case handleSend cl of None \<Rightarrow> None | Some cl' \<Rightarrow> handleLoop n cl')"

definition handleStream :: "('c \<Rightarrow> string) \<Rightarrow> ('b \<Rightarrow> 'c) \<Rightarrow> ((string \<rightharpoonup> nat) \<Rightarrow> (string \<times> nat) list) \<Rightarrow> string
    \<Rightarrow> goerr + ('c list \<times> 'b list) \<Rightarrow> ('c, 'b) client \<Rightarrow> ('c, 'b) client option outcome" where
  "handleStream cidString blkCid iter remotePeer msg cl =
     (case handleStart cidString blkCid iter remotePeer msg cl of
        Panic txt \<Rightarrow> Panic txt
      | Ret cl1 \<Rightarrow>
          Ret (case clHandler cl1 of None \<Rightarrow> None | Some (work, toDelete) \<Rightarrow> handleLoop (length work) cl1))"

section \<open>Getting blocks\<close>

text \<open>Receiving from a channel.\<close>

definition receiveFrom :: "nat \<Rightarrow> ('c, 'b) client \<Rightarrow> ('b response \<times> ('c, 'b) client) option" where
  "receiveFrom ch cl =
     (case chBuf (clChans cl ch) of
        [] \<Rightarrow> None
      | v # vs \<Rightarrow> Some (v, cl\<lparr>clChans := (clChans cl)(ch := (clChans cl ch)\<lparr>chBuf := vs\<rparr>)\<rparr>))"

text \<open>
  \<open>GetBlock\<close> before its select, which gives the channel to wait on, and its select: a
  response, the end of the context, or neither yet. When both are ready the select may take
  either: \<open>preferCtx\<close>.
\<close>

definition clientGetBlock :: "('c \<Rightarrow> string) \<Rightarrow> (nat \<Rightarrow> string) \<Rightarrow> goerr option \<Rightarrow> goerr option \<Rightarrow> 'c
    \<Rightarrow> ('c, 'b) client \<Rightarrow> ((goerr + nat) \<times> ('c, 'b) client) outcome" where
  "clientGetBlock cidString newUuid streamErr netErr blkCid cl =
     (case getBlockFromPeer cidString newUuid streamErr netErr [blkCid] cl of
        Panic msg \<Rightarrow> Panic msg
      | Ret (Inl err, cl1) \<Rightarrow> Ret (Inl err, cl1)
      | Ret (Inr blkCh, cl1) \<Rightarrow> if length blkCh \<noteq> 1 then Panic ''how!'' else Ret (Inr (blkCh ! 0), cl1))"

definition getBlockSelect :: "bool \<Rightarrow> bool \<Rightarrow> nat \<Rightarrow> ('c, 'b) client \<Rightarrow> ((goerr + 'b option) \<times> ('c, 'b) client) option" where
  "getBlockSelect preferCtx ctxDone ch cl =
     (case receiveFrom ch cl of
        None \<Rightarrow> if ctxDone then Some (Inl ErrCtxDone, cl) else None
      | Some (v, cl') \<Rightarrow> if ctxDone \<and> preferCtx then Some (Inl ErrCtxDone, cl) else Some (Inr (rspBlk v), cl'))"

text \<open>
  \<open>GetBlocks\<close>: \<open>gbPending\<close> goroutines have yet to receive; each receives one value, from
  the first channel, and sends it on \<open>out\<close>, which is closed when none is left.
\<close>

record 'b getBlocksCall =
  gbChans :: "nat list"
  gbPending :: nat
  gbOut :: "'b option list"

definition clientGetBlocks :: "('c \<Rightarrow> string) \<Rightarrow> (nat \<Rightarrow> string) \<Rightarrow> goerr option \<Rightarrow> goerr option \<Rightarrow> 'c list
    \<Rightarrow> ('c, 'b) client \<Rightarrow> ((goerr + 'b getBlocksCall) \<times> ('c, 'b) client) outcome" where
  "clientGetBlocks cidString newUuid streamErr netErr cids cl =
     (case getBlockFromPeer cidString newUuid streamErr netErr cids cl of
        Panic msg \<Rightarrow> Panic msg
      | Ret (Inl err, cl1) \<Rightarrow> Ret (Inl err, cl1)
      | Ret (Inr blkCh, cl1) \<Rightarrow> Ret (Inr \<lparr>gbChans = blkCh, gbPending = length blkCh, gbOut = []\<rparr>, cl1))"

definition getBlocksGo :: "'b getBlocksCall \<Rightarrow> ('c, 'b) client \<Rightarrow> ('b getBlocksCall \<times> ('c, 'b) client) option" where
  "getBlocksGo call cl =
     (if gbPending call = 0 then None
      else map_option (\<lambda>(v, cl'). (call\<lparr>gbPending := gbPending call - 1, gbOut := gbOut call @ [rspBlk v]\<rparr>, cl'))
             (receiveFrom (gbChans call ! 0) cl))"

definition outClosed :: "'b getBlocksCall \<Rightarrow> bool" where
  "outClosed call \<longleftrightarrow> gbPending call = 0"

text \<open>
  \<open>GetBlocksCh\<close>: the CIDs that are still to come on the input channel, the two counters,
  what has been sent on \<open>out\<close> and whether the second goroutine has returned and closed it.
  The address of the channel \<open>tmp\<close>, which has no buffer, is \<open>gcTmp\<close>: a response passes
  through it only while that goroutine waits for one.
\<close>

record ('c, 'b) getBlocksChCall =
  gcIn :: "'c list"
  gcTmp :: nat
  gcNumBlocks :: nat
  gcNumSent :: nat
  gcOut :: "'b option list"
  gcClosed :: bool

definition GetBlocksCh :: "'c list \<Rightarrow> ('c, 'b) client \<Rightarrow> ('c, 'b) getBlocksChCall \<times> ('c, 'b) client" where
  "GetBlocksCh cids cl =
     (let (tmp, cl1) = makeChan 0 cl
      in (\<lparr>gcIn = cids, gcTmp = tmp, gcNumBlocks = 0, gcNumSent = 0, gcOut = [], gcClosed = False\<rparr>, cl1))"

text \<open>A round of the first goroutine, which panics on an error, and one of the second.\<close>

definition gcQuery :: "('c \<Rightarrow> string) \<Rightarrow> (nat \<Rightarrow> string) \<Rightarrow> goerr option \<Rightarrow> goerr option
    \<Rightarrow> ('c, 'b) getBlocksChCall \<Rightarrow> ('c, 'b) client \<Rightarrow> (('c, 'b) getBlocksChCall \<times> ('c, 'b) client) outcome option" where
  "gcQuery cidString newUuid streamErr netErr call cl =
     (case gcIn call of
        [] \<Rightarrow> None
      | queryCid # rest \<Rightarrow>
          Some (case getBlockFromPeer2 cidString newUuid streamErr netErr queryCid (gcTmp call) cl of
                  Panic msg \<Rightarrow> Panic msg
                | Ret (Some err, cl1) \<Rightarrow> Panic ''getBlockFromPeer2''
                | Ret (None, cl1) \<Rightarrow> Ret (call\<lparr>gcIn := rest, gcNumBlocks := gcNumBlocks call + 1\<rparr>, cl1)))"

definition gcForward :: "'b response \<Rightarrow> ('c, 'b) getBlocksChCall \<Rightarrow> ('c, 'b) getBlocksChCall option" where
  "gcForward b call =
     (if gcClosed call then None
      else let numSent = gcNumSent call + 1
           in Some (call\<lparr>gcOut := gcOut call @ [rspBlk b], gcNumSent := numSent,
                         gcClosed := (numSent = gcNumBlocks call)\<rparr>))"

definition gcCancel :: "('c, 'b) getBlocksChCall \<Rightarrow> ('c, 'b) getBlocksChCall option" where
  "gcCancel call = (if gcClosed call then None else Some (call\<lparr>gcClosed := True\<rparr>))"

end
