(* ===== verification/Sessions.thy ===== *)
theory Sessions
  imports WalkProps DagService BlockServiceProps BitswapClient
begin

text \<open>
  Sessions: node getters of mdag.go with the sessions they can make (lines 131 to 183, 236 to
  238, 288 to 300 and 453 to 457), and the Bitswap client as an exchange that makes sessions
  (client.go, lines 50 to 65). A session of the block service over the client answers every
  sequence of requests as the service itself does.
\<close>

section \<open>The client as an exchange\<close>

text \<open>
  \<open>NewSession\<close> of the client returns the client; \<open>HasBlock\<close> does nothing. \<open>fetcher\<close> are its
  methods \<open>GetBlock\<close> and \<open>GetBlocks\<close>, \<open>closeErr\<close> is the error of closing the stream.
\<close>

definition clientNewSession :: "('c, 'b, 'w) fetcher \<Rightarrow> 'w \<Rightarrow> ('c, 'b, 'w) fetcher \<times> 'w" where
  "clientNewSession f w = (f, w)"

definition HasBlock :: "'b \<Rightarrow> 'w \<Rightarrow> goerr option \<times> 'w" where
  "HasBlock blk w = (None, w)"

definition IsOnline :: bool where
  "IsOnline = True"

text \<open>The stream is opened by the first request; closing before that calls a nil interface.\<close>

definition clientClose :: "goerr option \<Rightarrow> ('c, 'b) client \<Rightarrow> goerr option outcome" where
  "clientClose closeErr cl = (if clStream cl then Ret closeErr else Panic ''nil pointer dereference'')"

definition clientExchange :: "('c, 'b, 'w) fetcher \<Rightarrow> ('w \<Rightarrow> goerr option \<times> 'w) \<Rightarrow> ('c, 'b, 'w) exchange" where
  "clientExchange f closeStream =
     \<lparr>exFetcher = f, exHasBlock = HasBlock, exClose = closeStream, exNewSession = Some (clientNewSession f)\<rparr>"

section \<open>Node getters\<close>

text \<open>
  A \<open>format.NodeGetter\<close> with its two methods; the third part is its method \<open>Session\<close>, present
  when it is a \<open>SessionMaker\<close>.
\<close>

datatype ('c, 'n, 'w) nodeGetter =
  NodeGetter (getterGet: "('c, 'n, 'w) nodeGet") (getterMany: "'c list \<Rightarrow> (goerr + 'n) list \<times> bool")
    (getterSession: "('c, 'n, 'w) nodeGetter option")

text \<open>
  \<open>sesGetBlock\<close> and \<open>sesBlocksOf\<close> are the two methods of the session of go-blockservice,
  \<open>svcBlocksOf\<close> is \<open>GetBlocks\<close> of the service.
\<close>

definition sesGetterGetMany :: "('b \<Rightarrow> goerr + 'n) \<Rightarrow> ('c set \<Rightarrow> 'c list) \<Rightarrow> ('c list \<Rightarrow> 'b bgEvent list) \<Rightarrow> 'c list
    \<Rightarrow> (goerr + 'n) list \<times> bool" where
  "sesGetterGetMany decodeNode setKeys sesBlocksOf keys = getNodesFromBG decodeNode setKeys sesBlocksOf keys"

definition WrapSession :: "('b \<Rightarrow> goerr + 'n) \<Rightarrow> ('c set \<Rightarrow> 'c list) \<Rightarrow> ('c \<Rightarrow> 'w \<Rightarrow> (goerr + 'b) \<times> 'w)
    \<Rightarrow> ('c list \<Rightarrow> 'b bgEvent list) \<Rightarrow> ('c, 'n, 'w) nodeGetter" where
  "WrapSession decodeNode setKeys sesGetBlk sesBlocksOf =
     NodeGetter (sesGetterGet decodeNode sesGetBlk) (sesGetterGetMany decodeNode setKeys sesBlocksOf) None"

definition dagGetMany :: "('b \<Rightarrow> goerr + 'n) \<Rightarrow> ('c set \<Rightarrow> 'c list) \<Rightarrow> ('c list \<Rightarrow> 'b bgEvent list) \<Rightarrow> 'c list
    \<Rightarrow> (goerr + 'n) list \<times> bool" where
  "dagGetMany decodeNode setKeys svcBlocksOf keys = getNodesFromBG decodeNode setKeys svcBlocksOf keys"

definition dagServiceGetter :: "('b \<Rightarrow> goerr + 'n) \<Rightarrow> ('c set \<Rightarrow> 'c list) \<Rightarrow> ('c \<Rightarrow> 'w \<Rightarrow> (goerr + 'b) \<times> 'w)
    \<Rightarrow> ('c list \<Rightarrow> 'b bgEvent list) \<Rightarrow> ('c list \<Rightarrow> 'b bgEvent list) \<Rightarrow> ('c, 'b, 'w) dagService \<Rightarrow> ('c, 'n, 'w) nodeGetter" where
  "dagServiceGetter decodeNode setKeys sesGetBlk sesBlocksOf svcBlocksOf n =
     NodeGetter (dagGet decodeNode (Some n)) (dagGetMany decodeNode setKeys svcBlocksOf)
       (Some (WrapSession decodeNode setKeys sesGetBlk sesBlocksOf))"

definition mdagNewSession :: "('c, 'n, 'w) nodeGetter \<Rightarrow> ('c, 'n, 'w) nodeGetter" where
  "mdagNewSession g = (case getterSession g of Some s \<Rightarrow> s | None \<Rightarrow> g)"

text \<open>\<open>formatGetLinks\<close> is \<open>format.GetLinks\<close> of go-ipld-format.\<close>

definition GetLinksWithDAG :: "(('c, 'n, 'w) nodeGetter \<Rightarrow> ('c, 'w) getLinks) \<Rightarrow> ('c, 'n, 'w) nodeGetter \<Rightarrow> ('c, 'w) getLinks" where
  "GetLinksWithDAG formatGetLinks ng c w = formatGetLinks ng c w"

text \<open>A context as the values it carries; the only key the package uses is that of the progress tracker.\<close>

type_synonym goContext = "string \<rightharpoonup> ProgressTracker"

definition progressContextKey :: string where
  "progressContextKey = ''progress''"

definition DeriveContext :: "ProgressTracker \<Rightarrow> goContext \<Rightarrow> goContext" where
  "DeriveContext p ctx = ctx(progressContextKey \<mapsto> p)"

text \<open>The fetch with the session it makes and the tracker it finds in its context (lines 189 to 228).\<close>

definition FetchGraphSession :: "('c \<Rightarrow> bool) \<Rightarrow> 'c \<Rightarrow> ('n \<Rightarrow> 'c list) \<Rightarrow> goContext \<Rightarrow> 'c \<Rightarrow> int \<Rightarrow> ('c, 'n, 'w) nodeGetter \<Rightarrow> 'w
    \<Rightarrow> goerr option \<Rightarrow> ('c, 'w) fetchState \<Rightarrow> bool" where
  "FetchGraphSession defined undef nodeLinks ctx root depthLim serv env =
     FetchGraphWithDepthLimit defined undef nodeLinks (getterGet (mdagNewSession serv)) root depthLim (ctx progressContextKey) env"

section \<open>Requests to a service and to a session\<close>

datatype 'c request = ReqBlock 'c | ReqBlocks "nat option" "'c list"

datatype 'b answer = AnsBlock "goerr + 'b" | AnsBlocks "'b list"

text \<open>A sequence of requests to either; a panic ends it.\<close>

fun runRequests :: "('c \<Rightarrow> 'w \<times> 'z \<Rightarrow> ((goerr + 'b) \<times> ('w \<times> 'z)) outcome) \<Rightarrow> (nat option \<Rightarrow> 'c list \<Rightarrow> 'w \<times> 'z \<Rightarrow> ('b list \<times> ('w \<times> 'z)) outcome)
    \<Rightarrow> 'c request list \<Rightarrow> 'w \<times> 'z \<Rightarrow> ('b answer list \<times> 'w) outcome" where
  "runRequests one many [] wz = Ret ([], fst wz)"
| "runRequests one many (ReqBlock c # rs) wz =
     (case one c wz of
        Panic msg \<Rightarrow> Panic msg
      | Ret (r, wz') \<Rightarrow>
          (case runRequests one many rs wz' of Panic msg \<Rightarrow> Panic msg | Ret (as, w) \<Rightarrow> Ret (AnsBlock r # as, w)))"
| "runRequests one many (ReqBlocks quota ks # rs) wz =
     (case many quota ks wz of
        Panic msg \<Rightarrow> Panic msg
      | Ret (bl, wz') \<Rightarrow>
          (case runRequests one many rs wz' of Panic msg \<Rightarrow> Panic msg | Ret (as, w) \<Rightarrow> Ret (AnsBlocks bl # as, w)))"

text \<open>Outcomes that agree but for the state of the caller.\<close>

fun sameOutcome :: "('z \<Rightarrow> 'y \<Rightarrow> bool) \<Rightarrow> ('a \<times> ('w \<times> 'z)) outcome \<Rightarrow> ('a \<times> ('w \<times> 'y)) outcome \<Rightarrow> bool" where
  "sameOutcome R (Ret (x, (w, z))) (Ret (x', (w', y))) \<longleftrightarrow> x = x' \<and> w = w' \<and> R z y"
| "sameOutcome R (Panic msg) (Panic msg') \<longleftrightarrow> msg = msg'"
| "sameOutcome R _ _ \<longleftrightarrow> False"

lemma sameOutcome_Ret: "sameOutcome R o1 (Ret (x, (w, y))) \<longleftrightarrow> (\<exists>z. o1 = Ret (x, (w, z)) \<and> R z y)"
  by (cases o1) auto

lemma sameOutcome_Panic: "sameOutcome R o1 (Panic msg) \<longleftrightarrow> o1 = Panic msg"
  by (cases o1) auto

text \<open>
  Two fetcher sources that agree. Both ways to get blocks use the state of their caller only
  through the source, so they agree as well.
\<close>

locale same_source =
  fixes R :: "'z \<Rightarrow> 'y \<Rightarrow> bool" and g :: "'w \<times> 'z \<Rightarrow> ('c, 'b, 'w) fetcher \<times> ('w \<times> 'z)"
    and h :: "'w \<times> 'y \<Rightarrow> ('c, 'b, 'w) fetcher \<times> ('w \<times> 'y)"
  assumes same: "R z y \<Longrightarrow> \<exists>f w' z' y'. g (w, z) = (f, (w', z')) \<and> h (w, y) = (f, (w', y')) \<and> R z' y'"
begin

lemma same_getBlock:
  assumes "R z y"
  shows "sameOutcome R (getBlock runEnv validateCid bs (Some g) c (w, z)) (getBlock runEnv validateCid bs (Some h) c (w, y))"
proof -
  obtain r w1 where s: "bsGet bs c w = (r, w1)" by fastforce
  obtain f w2 z2 y2 where gh: "g (w1, z) = (f, (w2, z2))" "h (w1, y) = (f, (w2, y2))" "R z2 y2" using same [OF assms] by blast
  obtain r3 w3 where f: "fGetBlock f c w2 = (r3, w3)" by fastforce
  show ?thesis using assms gh(3)
    by (cases r; cases r3) (simp_all add: getBlock_def s gh(1,2) f recordMessage_def split: option.split)
qed

lemma same_getBlocks:
  assumes "R z y"
  shows "sameOutcome R (getBlocks runEnv validateCid bs (Some g) quota ks (w, z)) (getBlocks runEnv validateCid bs (Some h) quota ks (w, y))"
proof -
  let ?ks = "filter (\<lambda>c. validateCid c = None) ks"
  note unfold = getBlocks_def Let_def filter_valid [where P = "\<lambda>c. validateCid c = None"]
  show ?thesis
  proof (cases "localBlocks runEnv bs ?ks quota w")
    case (Panic msg)
    then show ?thesis unfolding unfold by simp
  next
    case (Ret x)
    obtain sent misses quota' stopped w1 where x: "x = (sent, misses, quota', stopped, w1)" by (cases x) auto
    obtain f w2 z2 y2 where gh: "g (w1, z) = (f, (w2, z2))" "h (w1, y) = (f, (w2, y2))" "R z2 y2" using same [OF assms] by blast
    obtain r3 w3 where f: "fGetBlocks f misses w2 = (r3, w3)" by fastforce
    show ?thesis using assms gh(3) Ret x unfolding unfold
      by (cases r3) (simp_all add: gh(1,2) f recordMessage_def)
  qed
qed

end

text \<open>A session over the client, opened or not, and the service over the client.\<close>

definition sessionOf :: "('c, 'b, 'w) blockstore \<Rightarrow> ('c, 'b, 'w) fetcher \<Rightarrow> ('c, 'b, 'w) session \<Rightarrow> unit \<Rightarrow> bool" where
  "sessionOf bs f ses u \<longleftrightarrow> sesBs ses = bs \<and> sesSessEx ses = Some (clientNewSession f) \<and> (sesSes ses = None \<or> sesSes ses = Some f)"

interpretation client_source: same_source "sessionOf bs f" "getSession (clientNewSession f)" "getExchange (clientExchange f closeStream)"
  for bs :: "('c, 'b, 'w) blockstore" and f :: "('c, 'b, 'w) fetcher" and closeStream
  by unfold_locales (auto simp: sessionOf_def getSession_def getExchange_def clientNewSession_def clientExchange_def)

lemma session_run:
  assumes "sessionOf bs f ses u"
  shows "runRequests (sesGetBlock runEnv validateCid) (sesGetBlocks runEnv validateCid) rs (w, ses) =
    runRequests (GetBlock runEnv validateCid (New bs (Some (clientExchange f closeStream))))
      (GetBlocks runEnv validateCid (New bs (Some (clientExchange f closeStream)))) rs (w, u)"
  using assms
proof (induction rs arbitrary: w ses)
  case (Cons r rs)
  then have ses: "sesBs ses = bs" "sesSessEx ses = Some (clientNewSession f)" by (simp_all add: sessionOf_def)
  show ?case
  proof (cases r)
    case (ReqBlock c)
    have "sameOutcome (sessionOf bs f) (sesGetBlock runEnv validateCid c (w, ses))
        (GetBlock runEnv validateCid (New bs (Some (clientExchange f closeStream))) c (w, u))"
      using client_source.same_getBlock [OF Cons.prems] by (simp add: sesGetBlock_def GetBlock_def New_def ses)
    then show ?thesis using Cons.IH ReqBlock
      by (cases "GetBlock runEnv validateCid (New bs (Some (clientExchange f closeStream))) c (w, u)")
        (auto simp: sameOutcome_Ret sameOutcome_Panic)
  next
    case (ReqBlocks quota ks)
    have "sameOutcome (sessionOf bs f) (sesGetBlocks runEnv validateCid quota ks (w, ses))
        (GetBlocks runEnv validateCid (New bs (Some (clientExchange f closeStream))) quota ks (w, u))"
      using client_source.same_getBlocks [OF Cons.prems] by (simp add: sesGetBlocks_def GetBlocks_def New_def ses)
    then show ?thesis using Cons.IH ReqBlocks
      by (cases "GetBlocks runEnv validateCid (New bs (Some (clientExchange f closeStream))) quota ks (w, u)")
        (auto simp: sameOutcome_Ret sameOutcome_Panic)
  qed
qed simp

section \<open>Properties\<close>

text \<open>
  C14: A session over the Bitswap client is the service over it. For every sequence of single and
  batch requests, the session that \<open>NewSession\<close> of bserv.go makes, which asks the client for
  a session of its own at the first miss, gives the same answers and leaves the same store
  and exchange as the service without a session, panics included: the client's \<open>NewSession\<close>
  is the client itself.
\<close>

theorem session_over_client_is_the_service:
  "runRequests (sesGetBlock runEnv validateCid) (sesGetBlocks runEnv validateCid) rs
     (w, BlockService.NewSession (New bs (Some (clientExchange f closeStream)))) =
   runRequests (GetBlock runEnv validateCid (New bs (Some (clientExchange f closeStream))))
     (GetBlocks runEnv validateCid (New bs (Some (clientExchange f closeStream)))) rs (w, ())"
  by (rule session_run) (simp add: sessionOf_def NewSession_def New_def clientExchange_def)

text \<open>
  C15: A fetch through the session of a DAG service. \<open>FetchGraph\<close> over a DAG service with a tracker
  put into its context by \<open>DeriveContext\<close> asks the service's session; when that session finds
  every node of a finite closed DAG, a fetch that returns nil has visited exactly what the
  root reaches and has counted each CID once in that tracker, and such a fetch exists.
\<close>

theorem FetchGraph_through_session:
  assumes "rooted_dag (sesGetterGet decodeNode sesGetBlk) nodeLinks succs nodes defined undef root"
  shows "(\<exists>s'. FetchGraphSession defined undef nodeLinks (DeriveContext pt ctx) root (-1)
      (dagServiceGetter decodeNode setKeys sesGetBlk sesBlocksOf svcBlocksOf n) env None s') \<and>
    (\<forall>s'. FetchGraphSession defined undef nodeLinks (DeriveContext pt ctx) root (-1)
      (dagServiceGetter decodeNode setKeys sesGetBlk sesBlocksOf svcBlocksOf n) env None s' \<longrightarrow>
      dom (fsSet s') = reach succs root \<and> fsTracker s' = Some (pt\<lparr>Total := Total pt + int (card (reach succs root))\<rparr>))"
proof -
  have fetch: "FetchGraphSession defined undef nodeLinks (DeriveContext pt ctx) root (-1)
      (dagServiceGetter decodeNode setKeys sesGetBlk sesBlocksOf svcBlocksOf n) env None s' \<longleftrightarrow>
      FetchGraphWithDepthLimit defined undef nodeLinks (sesGetterGet decodeNode sesGetBlk) root (-1) (Some pt) env None s'" for s'
    by (simp add: FetchGraphSession_def DeriveContext_def mdagNewSession_def dagServiceGetter_def WrapSession_def)
  have "dom (fsSet s') = reach succs root \<and> fsTracker s' = Some (pt\<lparr>Total := Total pt + int (card (reach succs root))\<rparr>)"
    if run: "FetchGraphWithDepthLimit defined undef nodeLinks (sesGetterGet decodeNode sesGetBlk) root (-1) (Some pt) env None s'" for s'
  proof -
    obtain p where p: "parReach defined undef (fetchLinks nodeLinks (sesGetterGet decodeNode sesGetBlk)) (fetchGraphVisit (-1))
        (applyOptions [Concurrent]) root (fetchInit (Some pt) env) p" "parPhase p = Returned None" "s' = parVst p"
      using run unfolding FetchGraphWithDepthLimit_def by (cases rule: WalkDepth.cases) auto
    have "dom (fsSet s') = reach succs root"
      using par_graph.par_seen_reach [OF rooted_dag.fetch_tracked [OF assms] p(1,2)] p(3) by (simp add: fetchInit_def)
    then show ?thesis using rooted_dag.fetch_total [OF assms p(1)] p(3) by simp
  qed
  then show ?thesis unfolding fetch using rooted_dag.fetch_returns_nil [OF assms] by blast
qed

lemma demo_session:
  "rooted_dag (sesGetterGet Inr (\<lambda>c (w :: unit). (Inr c, w))) demoLinks demoLinks {1, 2, 3} (\<lambda>c. c \<noteq> 0) 0 1"
  by unfold_locales (auto simp: demoLinks_def sesGetterGet_def)

definition demoService :: "(nat, nat, unit) nodeGetter" where
  "demoService = dagServiceGetter Inr sorted_list_of_set (\<lambda>c w. (Inr c, w)) (\<lambda>ks. []) (\<lambda>ks. [])
     (NewDAGService \<lparr>bvAddBlock = (\<lambda>b w. (None, w)), bvAddBlocks = (\<lambda>bl w. (None, w)), bvGetBlock = (\<lambda>c w. (Inr c, w)),
        bvDeleteBlock = (\<lambda>c w. (None, w))\<rparr>)"

theorem FetchGraph_through_session_witness:
  "\<exists>s'. FetchGraphSession (\<lambda>c. c \<noteq> 0) 0 demoLinks (DeriveContext zeroTracker Map.empty) 1 (-1) demoService () None s'
    \<and> dom (fsSet s') = reach demoLinks 1"
  unfolding demoService_def using FetchGraph_through_session [OF demo_session] by meson

end
