(* ===== verification/ClientRuns.thy ===== *)
theory ClientRuns
  imports BitswapClient "HOL-Library.Char_ord" "HOL-Library.List_Lexorder"
begin

text \<open>
  Runs of the Bitswap client: requests, stream handlers and receivers interleave, with each
  section under the lock one after the other. While no two requests for the same CID are
  outstanding together, every want gets exactly one response, no handler ever blocks, and a
  want is deleted when it is answered. Two further results show what happens otherwise.
\<close>

section \<open>The machine\<close>

text \<open>
  \<open>allowed cids cl\<close> restricts the requests of a run. A send waits for room in its channel;
  requests and new handlers wait for the lock.
\<close>

inductive clientStep :: "('c list \<Rightarrow> ('c, 'b) client \<Rightarrow> bool) \<Rightarrow> ('c \<Rightarrow> string) \<Rightarrow> (nat \<Rightarrow> string) \<Rightarrow> ('b \<Rightarrow> 'c)
    \<Rightarrow> ((string \<rightharpoonup> nat) \<Rightarrow> (string \<times> nat) list) \<Rightarrow> ('c, 'b) client \<Rightarrow> ('c, 'b) client \<Rightarrow> bool"
  for allowed cidString newUuid blkCid iter where
  request: "clHandler cl = None \<Longrightarrow> allowed cids cl \<Longrightarrow>
     getBlockFromPeer cidString newUuid streamErr netErr cids cl = Ret (r, cl') \<Longrightarrow>
     clientStep allowed cidString newUuid blkCid iter cl cl'"
| response: "clHandler cl = None \<Longrightarrow> distinct (map blkCid blks) \<Longrightarrow>
     handleStart cidString blkCid iter remotePeer (Inr (dontHaves, blks)) cl = Ret cl' \<Longrightarrow>
     clientStep allowed cidString newUuid blkCid iter cl cl'"
| send: "handleSend cl = Some cl' \<Longrightarrow> clientStep allowed cidString newUuid blkCid iter cl cl'"
| finish: "handleEnd cl = Some cl' \<Longrightarrow> clientStep allowed cidString newUuid blkCid iter cl cl'"
| receive: "receiveFrom ch cl = Some (v, cl') \<Longrightarrow> clientStep allowed cidString newUuid blkCid iter cl cl'"

inductive clientReach :: "('c list \<Rightarrow> ('c, 'b) client \<Rightarrow> bool) \<Rightarrow> ('c \<Rightarrow> string) \<Rightarrow> (nat \<Rightarrow> string) \<Rightarrow> ('b \<Rightarrow> 'c)
    \<Rightarrow> ((string \<rightharpoonup> nat) \<Rightarrow> (string \<times> nat) list) \<Rightarrow> string \<Rightarrow> ('c, 'b) client \<Rightarrow> bool"
  for allowed cidString newUuid blkCid iter p where
  start: "clientReach allowed cidString newUuid blkCid iter p (NewClient p)"
| step: "clientReach allowed cidString newUuid blkCid iter p cl \<Longrightarrow>
     clientStep allowed cidString newUuid blkCid iter cl cl' \<Longrightarrow>
     clientReach allowed cidString newUuid blkCid iter p cl'"

declare clientStep.intros [step_intros] clientReach.intros [step_intros]

section \<open>Views of the state\<close>

definition registered :: "('c, 'b) client \<Rightarrow> string \<Rightarrow> string \<Rightarrow> nat \<Rightarrow> bool" where
  "registered cl k r ch \<longleftrightarrow> (case clWants cl k of None \<Rightarrow> False | Some m \<Rightarrow> m r = Some ch)"

definition workOf :: "('c, 'b) client \<Rightarrow> 'b handlerItem list" where
  "workOf cl = (case clHandler cl of None \<Rightarrow> [] | Some (work, _) \<Rightarrow> work)"

definition delOf :: "('c, 'b) client \<Rightarrow> (string \<rightharpoonup> string)" where
  "delOf cl = (case clHandler cl of None \<Rightarrow> Map.empty | Some (_, toDelete) \<Rightarrow> toDelete)"

definition deliveredTo :: "nat \<Rightarrow> ('c, 'b) client \<Rightarrow> nat" where
  "deliveredTo ch cl = count_if (\<lambda>d. fst d = ch) (clDelivered cl)"

text \<open>No want is outstanding for any CID of the request, and it names none twice.\<close>

definition freshWants :: "('c \<Rightarrow> string) \<Rightarrow> 'c list \<Rightarrow> ('c, 'b) client \<Rightarrow> bool" where
  "freshWants cidString cids cl \<longleftrightarrow> distinct cids \<and>
     (\<forall>c \<in> set cids. \<forall>r ch. \<not> registered cl (wantsKey cidString c (clPeer cl)) r ch)"

definition clientInv :: "('c, 'b) client \<Rightarrow> bool" where
  "clientInv cl \<longleftrightarrow>
     (\<forall>k r ch. registered cl k r ch \<longrightarrow> ch < clNext cl \<and> chCap (clChans cl ch) = 1) \<and>
     (\<forall>k r ch r' ch'. registered cl k r ch \<longrightarrow> registered cl k r' ch' \<longrightarrow> r = r') \<and>
     (\<forall>k r k' r' ch. registered cl k r ch \<longrightarrow> registered cl k' r' ch \<longrightarrow> k = k') \<and>
     (\<forall>ch. 0 < deliveredTo ch cl \<longrightarrow> ch < clNext cl) \<and>
     (\<forall>ch. length (chBuf (clChans cl ch)) \<le> deliveredTo ch cl) \<and>
     (\<forall>ch. deliveredTo ch cl \<le> 1) \<and>
     (\<forall>k r ch. registered cl k r ch \<longrightarrow> deliveredTo ch cl = 0 \<or> delOf cl k = Some r) \<and>
     distinct (map fst (workOf cl)) \<and>
     (\<forall>k r ch b. (k, r, ch, b) \<in> set (workOf cl) \<longrightarrow> registered cl k r ch \<and> delOf cl k = None)"

lemma clientInvD:
  assumes "clientInv cl"
  shows "registered cl k r ch \<Longrightarrow> ch < clNext cl \<and> chCap (clChans cl ch) = 1"
    and "registered cl k r ch \<Longrightarrow> registered cl k r' ch' \<Longrightarrow> r = r'"
    and "registered cl k r ch \<Longrightarrow> registered cl k' r' ch \<Longrightarrow> k = k'"
    and "0 < deliveredTo ch cl \<Longrightarrow> ch < clNext cl"
    and "length (chBuf (clChans cl ch)) \<le> deliveredTo ch cl"
    and "deliveredTo ch cl \<le> 1"
    and "registered cl k r ch \<Longrightarrow> deliveredTo ch cl = 0 \<or> delOf cl k = Some r"
    and "distinct (map fst (workOf cl))"
    and "(k, r, ch, b) \<in> set (workOf cl) \<Longrightarrow> registered cl k r ch \<and> delOf cl k = None"
  using assms unfolding clientInv_def by metis+

lemma clientInvI:
  assumes "\<And>k r ch. registered cl k r ch \<Longrightarrow> ch < clNext cl \<and> chCap (clChans cl ch) = 1"
    and "\<And>k r ch r' ch'. registered cl k r ch \<Longrightarrow> registered cl k r' ch' \<Longrightarrow> r = r'"
    and "\<And>k r k' r' ch. registered cl k r ch \<Longrightarrow> registered cl k' r' ch \<Longrightarrow> k = k'"
    and "\<And>ch. 0 < deliveredTo ch cl \<Longrightarrow> ch < clNext cl"
    and "\<And>ch. length (chBuf (clChans cl ch)) \<le> deliveredTo ch cl"
    and "\<And>ch. deliveredTo ch cl \<le> 1"
    and "\<And>k r ch. registered cl k r ch \<Longrightarrow> deliveredTo ch cl = 0 \<or> delOf cl k = Some r"
    and "distinct (map fst (workOf cl))"
    and "\<And>k r ch b. (k, r, ch, b) \<in> set (workOf cl) \<Longrightarrow> registered cl k r ch \<and> delOf cl k = None"
  shows "clientInv cl"
  unfolding clientInv_def by (intro conjI allI impI)
    (use assms(1) in blast, use assms(1) in blast, (fact assms | erule (1) assms | erule assms)+,
     use assms(9) in blast, use assms(9) in blast)

lemma NewClient_inv: "clientInv (NewClient p)"
  by (simp add: clientInv_def NewClient_def registered_def deliveredTo_def workOf_def delOf_def)

lemma wantsKey_inj: "inj cidString \<Longrightarrow> wantsKey cidString c p = wantsKey cidString c' p \<longleftrightarrow> c = c'"
  by (auto simp: wantsKey_def dest: injD)

section \<open>Every step keeps the invariant\<close>

text \<open>A change of fields the invariant does not read.\<close>

lemma clientInv_cong:
  assumes "clientInv cl" and "clWants cl' = clWants cl" and "clChans cl' = clChans cl" and "clNext cl' = clNext cl"
    and "clHandler cl' = clHandler cl" and "clDelivered cl' = clDelivered cl"
  shows "clientInv cl'"
  using assms by (simp add: clientInv_def registered_def deliveredTo_def workOf_def delOf_def)

text \<open>One round of the loop of \<open>getBlockFromPeer\<close>.\<close>

definition addOne :: "string \<Rightarrow> string \<Rightarrow> ('c, 'b) client \<Rightarrow> ('c, 'b) client" where
  "addOne key reqID cl = (let (ch, cl1) = makeChan 1 cl in addWant key reqID ch cl1)"

lemma addWants_Cons:
  "addWants cidString newUuid (c # cids) cl =
     (let (out, cl') = addWants cidString newUuid cids (addOne (wantsKey cidString c (clPeer cl)) (newUuid (clNext cl)) cl)
      in (clNext cl # out, cl'))"
  by (simp add: addOne_def makeChan_def)

lemma addOne_fields [simp]:
  "clNext (addOne key r cl) = Suc (clNext cl)"
  "clPeer (addOne key r cl) = clPeer cl"
  "clHandler (addOne key r cl) = clHandler cl"
  "clDelivered (addOne key r cl) = clDelivered cl"
  "clChans (addOne key r cl) = (clChans cl)(clNext cl := \<lparr>chCap = 1, chBuf = []\<rparr>)"
  by (simp_all add: addOne_def makeChan_def addWant_def Let_def)

lemma addOne_registered:
  assumes "\<And>r ch. \<not> registered cl key r ch"
  shows "registered (addOne key reqID cl) k r ch \<longleftrightarrow> registered cl k r ch \<or> (k = key \<and> r = reqID \<and> ch = clNext cl)"
proof (cases "k = key")
  case True
  then have "\<not> registered cl k r ch" using assms by simp
  moreover have "registered (addOne key reqID cl) k r ch \<longleftrightarrow> r = reqID \<and> ch = clNext cl"
    using True assms [of r ch]
    by (auto simp: addOne_def makeChan_def addWant_def registered_def Let_def split: option.splits)
  ultimately show ?thesis using True by simp
qed (simp add: addOne_def makeChan_def addWant_def registered_def Let_def)

lemma addOne_inv:
  assumes inv: "clientInv cl" and "clHandler cl = None" and fresh: "\<And>r ch. \<not> registered cl key r ch"
  shows "clientInv (addOne key reqID cl)"
proof -
  note D = clientInvD [OF inv]
  have del: "delOf (addOne key reqID cl) = Map.empty" "workOf (addOne key reqID cl) = []" "delOf cl = Map.empty"
    using assms(2) by (simp_all add: delOf_def workOf_def)
  have dl: "deliveredTo ch (addOne key reqID cl) = deliveredTo ch cl" for ch by (simp add: deliveredTo_def)
  have new: "deliveredTo (clNext cl) cl = 0" using D(4) [of "clNext cl"] by (cases "deliveredTo (clNext cl) cl") auto
  have lt: "ch < clNext cl" if "registered cl k r ch" for k r ch using D(1) that by simp
  note reg = addOne_registered [OF fresh]
  show ?thesis
  proof (rule clientInvI)
    show "ch < clNext (addOne key reqID cl) \<and> chCap (clChans (addOne key reqID cl) ch) = 1"
      if "registered (addOne key reqID cl) k r ch" for k r ch
      using that D(1) by (auto simp: reg less_Suc_eq)
    show "r = r'" if "registered (addOne key reqID cl) k r ch" "registered (addOne key reqID cl) k r' ch'" for k r ch r' ch'
      using that D(2) fresh by (auto simp: reg)
    show "k = k'" if "registered (addOne key reqID cl) k r ch" "registered (addOne key reqID cl) k' r' ch" for k r k' r' ch
      using that D(3) by (auto simp: reg dest: lt)
    show "ch < clNext (addOne key reqID cl)" if "0 < deliveredTo ch (addOne key reqID cl)" for ch
      using that D(4) [of ch] by (simp add: dl)
    show "length (chBuf (clChans (addOne key reqID cl) ch)) \<le> deliveredTo ch (addOne key reqID cl)" for ch
      using D(5) [of ch] by (simp add: dl)
    show "deliveredTo ch (addOne key reqID cl) = 0 \<or> delOf (addOne key reqID cl) k = Some r"
      if "registered (addOne key reqID cl) k r ch" for k r ch
      using that D(7) [of k r ch] new by (auto simp: reg dl del)
  qed (use D(6) del in \<open>simp_all add: dl\<close>)
qed

lemma addWants_inv:
  assumes "inj cidString" and "clientInv cl" and "clHandler cl = None" and "freshWants cidString cids cl"
  shows "clientInv (snd (addWants cidString newUuid cids cl)) \<and> clHandler (snd (addWants cidString newUuid cids cl)) = None"
  using assms(2-)
proof (induction cids arbitrary: cl)
  case Nil
  then show ?case by simp
next
  case (Cons c cids)
  let ?k = "wantsKey cidString c (clPeer cl)"
  let ?cl = "addOne ?k (newUuid (clNext cl)) cl"
  have fresh: "\<And>r ch. \<not> registered cl ?k r ch" using Cons.prems(3) by (simp add: freshWants_def)
  have "freshWants cidString cids ?cl"
    using Cons.prems(3) by (auto simp: freshWants_def addOne_registered [OF fresh] wantsKey_inj [OF assms(1)])
  then show ?case
    using Cons.IH [of ?cl] addOne_inv [OF Cons.prems(1,2) fresh] Cons.prems(2)
    by (auto simp: addWants_Cons simp del: addWants.simps split: prod.splits)
qed

lemma request_inv:
  assumes "inj cidString" and "clientInv cl" and "clHandler cl = None" and "freshWants cidString cids cl"
    and "getBlockFromPeer cidString newUuid streamErr netErr cids cl = Ret (r, cl')"
  shows "clientInv cl'"
proof (cases "openStream streamErr cl")
  case (Inl err)
  then show ?thesis using assms by (simp add: getBlockFromPeer_def)
next
  case (Inr cl0)
  then have f: "clWants cl0 = clWants cl" "clChans cl0 = clChans cl" "clNext cl0 = clNext cl"
    "clHandler cl0 = clHandler cl" "clDelivered cl0 = clDelivered cl" "clPeer cl0 = clPeer cl"
    by (auto simp: openStream_def split: if_splits option.splits)
  have "clientInv cl0" by (rule clientInv_cong [OF assms(2)]) (simp_all add: f)
  moreover have "freshWants cidString cids cl0" using assms(4) f by (simp add: freshWants_def registered_def)
  ultimately have "clientInv (snd (addWants cidString newUuid cids cl0))"
    using addWants_inv [OF assms(1), of cl0 cids newUuid] assms(3) f by simp
  then show ?thesis
    using assms(5) Inr
    by (auto simp: getBlockFromPeer_def Let_def split: prod.splits option.splits elim!: clientInv_cong)
qed

lemma finite_at_most_one:
  assumes "\<And>r r'. r \<in> X \<Longrightarrow> r' \<in> X \<Longrightarrow> r = r'"
  shows "finite X"
proof (cases "X = {}")
  case False
  then obtain r where "r \<in> X" by auto
  then have "X \<subseteq> {r}" using assms by auto
  then show ?thesis by (rule finite_subset) simp
qed simp

text \<open>The range loop sees every entry of a map, once.\<close>

locale map_iteration =
  fixes iter :: "(string \<rightharpoonup> nat) \<Rightarrow> (string \<times> nat) list"
  assumes iter_set: "finite (dom m) \<Longrightarrow> set (iter m) = {(r, ch). m r = Some ch}"
    and iter_distinct: "finite (dom m) \<Longrightarrow> distinct (iter m)"

context map_iteration
begin

lemma iter_single:
  assumes "\<And>r r'. r \<in> dom m \<Longrightarrow> r' \<in> dom m \<Longrightarrow> r = r'"
  shows "iter m = (case iter m of [] \<Rightarrow> [] | x # _ \<Rightarrow> [x])"
proof -
  have "finite (dom m)" using assms by (rule finite_at_most_one)
  then have S: "set (iter m) = {(r, ch). m r = Some ch}" and D: "distinct (iter m)"
    by (simp_all add: iter_set iter_distinct)
  have eq: "x = y" if "x \<in> set (iter m)" "y \<in> set (iter m)" for x y
    using that assms [of "fst x" "fst y"] by (auto simp: S dom_def)
  show ?thesis
  proof (cases "iter m")
    case (Cons x xs)
    then show ?thesis using D eq [of x "hd xs"] by (cases xs) auto
  qed simp
qed

lemma blockSends_set:
  assumes "clientInv cl"
  shows "set (blockSends cidString blkCid iter p cl b) =
    {(k, r, ch, b') . b' = b \<and> k = wantsKey cidString (blkCid b) p \<and> registered cl k r ch}"
proof (cases "clWants cl (wantsKey cidString (blkCid b) p)")
  case None
  then show ?thesis by (auto simp: blockSends_def registered_def)
next
  case (Some m)
  have one: "r = r'" if "r \<in> dom m" "r' \<in> dom m" for r r'
    using clientInvD(2) [OF assms, of "wantsKey cidString (blkCid b) p" r _ r'] that Some
    by (auto simp: registered_def)
  have "finite (dom m)" using one by (rule finite_at_most_one)
  then show ?thesis using Some by (auto simp: blockSends_def registered_def iter_set)
qed

lemma blockSends_keys:
  assumes "clientInv cl"
  shows "distinct (map fst (blockSends cidString blkCid iter p cl b))"
proof (cases "clWants cl (wantsKey cidString (blkCid b) p)")
  case None
  then show ?thesis by (simp add: blockSends_def)
next
  case (Some m)
  have "r = r'" if "r \<in> dom m" "r' \<in> dom m" for r r'
    using clientInvD(2) [OF assms, of "wantsKey cidString (blkCid b) p" r _ r'] that Some
    by (auto simp: registered_def)
  then have "iter m = (case iter m of [] \<Rightarrow> [] | x # _ \<Rightarrow> [x])" by (rule iter_single)
  then show ?thesis using Some by (cases "iter m") (auto simp: blockSends_def split: prod.splits list.splits)
qed

lemma sends_distinct:
  assumes "inj cidString" and "clientInv cl" and "distinct (map blkCid blks)"
  shows "distinct (map fst (concat (map (blockSends cidString blkCid iter p cl) blks)))"
  using assms(3)
proof (induction blks)
  case Nil
  then show ?case by simp
next
  case (Cons b blks)
  have "fst ` set (blockSends cidString blkCid iter p cl b) \<inter>
        fst ` set (concat (map (blockSends cidString blkCid iter p cl) blks)) = {}"
    using Cons.prems by (auto simp: blockSends_set [OF assms(2)] wantsKey_inj [OF assms(1)] image_iff)
  then show ?case using Cons blockSends_keys [OF assms(2)] by simp
qed

lemma start_inv:
  assumes "inj cidString" and "clientInv cl" and "clHandler cl = None" and "distinct (map blkCid blks)"
    and "handleStart cidString blkCid iter p (Inr (dontHaves, blks)) cl = Ret cl'"
  shows "clientInv cl'" and "workOf cl' = concat (map (blockSends cidString blkCid iter p cl) blks)"
proof -
  have cl': "cl' = cl\<lparr>clHandler := Some (concat (map (blockSends cidString blkCid iter p cl) blks), Map.empty)\<rparr>"
    using assms(5) by (simp add: handleStart_def split: if_splits)
  have v: "registered cl' = registered cl" "deliveredTo ch cl' = deliveredTo ch cl" "delOf cl' = Map.empty"
    "delOf cl = Map.empty" for ch
    using cl' assms(3) by (simp_all add: registered_def deliveredTo_def delOf_def fun_eq_iff)
  show w: "workOf cl' = concat (map (blockSends cidString blkCid iter p cl) blks)"
    using cl' by (simp add: workOf_def)
  note D = clientInvD [OF assms(2)]
  show "clientInv cl'"
  proof (rule clientInvI)
    show "distinct (map fst (workOf cl'))" unfolding w by (rule sends_distinct [OF assms(1,2,4)])
    show "registered cl' k r ch \<and> delOf cl' k = None" if "(k, r, ch, b) \<in> set (workOf cl')" for k r ch b
      using that by (auto simp: w v blockSends_set [OF assms(2)])
    show "deliveredTo ch cl' = 0 \<or> delOf cl' k = Some r" if "registered cl' k r ch" for k r ch
      using that D(7) [of k r ch] by (auto simp: v)
    show "r = r'" if "registered cl' k r ch" "registered cl' k r' ch'" for k r ch r' ch'
      using that D(2) by (simp add: v)
    show "k = k'" if "registered cl' k r ch" "registered cl' k' r' ch" for k r k' r' ch
      using that D(3) by (simp add: v)
    show "ch < clNext cl' \<and> chCap (clChans cl' ch) = 1" if "registered cl' k r ch" for k r ch
      using that D(1) by (simp add: v) (simp add: cl')
    show "ch < clNext cl'" if "0 < deliveredTo ch cl'" for ch using that D(4) by (simp add: v) (simp add: cl')
    show "length (chBuf (clChans cl' ch)) \<le> deliveredTo ch cl'" for ch using D(5) by (simp add: v) (simp add: cl')
    show "deliveredTo ch cl' \<le> 1" for ch using D(6) [of ch] by (simp only: v)
  qed
qed

end

lemma handleSend_SomeE:
  assumes "handleSend cl = Some cl'"
  obtains k r ch b work toDelete where "clHandler cl = Some ((k, r, ch, b) # work, toDelete)" and "hasRoom ch cl"
    and "cl' = (pushChan ch b cl)\<lparr>clHandler := Some (work, toDelete(k \<mapsto> r))\<rparr>"
  using assms by (auto simp: handleSend_def split: option.splits list.splits if_splits)

lemma handleEnd_SomeE:
  assumes "handleEnd cl = Some cl'"
  obtains toDelete where "clHandler cl = Some ([], toDelete)"
    and "cl' = cl\<lparr>clWants := deleteWants toDelete (clWants cl), clHandler := None\<rparr>"
  using assms by (auto simp: handleEnd_def split: option.splits list.splits)

lemma pushChan_view [simp]:
  "registered (pushChan ch b cl\<lparr>clHandler := h\<rparr>) = registered cl"
  "deliveredTo ch' (pushChan ch b cl\<lparr>clHandler := h\<rparr>) = deliveredTo ch' cl + (if ch' = ch then 1 else 0)"
  "clNext (pushChan ch b cl) = clNext cl"
  "chCap (clChans (pushChan ch b cl) ch') = chCap (clChans cl ch')"
  "length (chBuf (clChans (pushChan ch b cl) ch')) = length (chBuf (clChans cl ch')) + (if ch' = ch then 1 else 0)"
  by (simp_all add: pushChan_def registered_def deliveredTo_def count_if_def Let_def fun_eq_iff)

lemma send_inv:
  assumes "clientInv cl" and "handleSend cl = Some cl'"
  shows "clientInv cl'"
proof -
  note D = clientInvD [OF assms(1)]
  obtain k0 r0 ch0 b work toDelete where h: "clHandler cl = Some ((k0, r0, ch0, b) # work, toDelete)"
    and cl': "cl' = (pushChan ch0 b cl)\<lparr>clHandler := Some (work, toDelete(k0 \<mapsto> r0))\<rparr>"
    using assms(2) by (rule handleSend_SomeE)
  have W: "workOf cl = (k0, r0, ch0, b) # work" "workOf cl' = work" "delOf cl = toDelete" "delOf cl' = toDelete(k0 \<mapsto> r0)"
    using h cl' by (simp_all add: workOf_def delOf_def)
  have head: "registered cl k0 r0 ch0" "toDelete k0 = None" using D(9) [of k0 r0 ch0 b] W by simp_all
  then have "deliveredTo ch0 cl = 0" using D(7) [of k0 r0 ch0] W by simp
  moreover have reg: "registered cl' = registered cl" by (simp add: cl')
  ultimately show ?thesis
  proof (intro clientInvI)
    show "deliveredTo ch cl' = 0 \<or> delOf cl' k = Some r" if "registered cl' k r ch" for k r ch
      using that D(7) [of k r ch] D(2) [of k0 r0 ch0 r ch] D(3) [of k r ch k0 r0] head
      by (auto simp: reg W) (auto simp: cl' split: if_splits)
    show "registered cl' k r ch \<and> delOf cl' k = None" if "(k, r, ch, b') \<in> set (workOf cl')" for k r ch b'
      using that D(9) [of k r ch b'] D(8) by (force simp: reg W)
    show "r = r'" if "registered cl' k r ch" "registered cl' k r' ch'" for k r ch r' ch' using that D(2) by (simp add: reg)
    show "k = k'" if "registered cl' k r ch" "registered cl' k' r' ch" for k r k' r' ch using that D(3) by (simp add: reg)
    show "ch < clNext cl' \<and> chCap (clChans cl' ch) = 1" if "registered cl' k r ch" for k r ch
      using that D(1) [of k r ch] by (simp add: reg) (simp add: cl')
    show "ch < clNext cl'" if "0 < deliveredTo ch cl'" for ch
      using that D(4) [of ch] D(1) [OF head(1)] by (auto simp: cl' split: if_splits)
    show "length (chBuf (clChans cl' ch)) \<le> deliveredTo ch cl'" for ch using D(5) [of ch] by (simp add: cl')
    show "deliveredTo ch cl' \<le> 1" if "deliveredTo ch0 cl = 0" for ch using that D(6) [of ch] by (simp add: cl')
    show "distinct (map fst (workOf cl'))" using D(8) W by simp
  qed
qed

lemma end_registered:
  assumes "handleEnd cl = Some cl'"
  shows "registered cl' k r ch \<longleftrightarrow> registered cl k r ch \<and> delOf cl k \<noteq> Some r"
  using assms
  by (auto simp: registered_def deleteWants_def delOf_def elim!: handleEnd_SomeE split: option.splits if_splits)

lemma end_inv:
  assumes "clientInv cl" and "handleEnd cl = Some cl'"
  shows "clientInv cl'"
proof -
  note D = clientInvD [OF assms(1)]
  have f: "clNext cl' = clNext cl" "clChans cl' = clChans cl" "deliveredTo ch cl' = deliveredTo ch cl" "workOf cl' = []" for ch
    using assms(2) by (auto simp: deliveredTo_def workOf_def elim!: handleEnd_SomeE)
  show ?thesis
  proof (rule clientInvI)
    show "deliveredTo ch cl' = 0 \<or> delOf cl' k = Some r" if "registered cl' k r ch" for k r ch
      using that D(7) [of k r ch] by (auto simp: end_registered [OF assms(2)] f)
  qed (use D(1-6) in \<open>auto simp: end_registered [OF assms(2)] f\<close>)
qed

lemma receive_inv:
  assumes "clientInv cl" and "receiveFrom ch cl = Some (v, cl')"
  shows "clientInv cl'"
proof -
  note D = clientInvD [OF assms(1)]
  obtain vs where vs: "chBuf (clChans cl ch) = v # vs"
    and cl': "cl' = cl\<lparr>clChans := (clChans cl)(ch := (clChans cl ch)\<lparr>chBuf := vs\<rparr>)\<rparr>"
    using assms(2) by (auto simp: receiveFrom_def split: list.splits)
  have f: "registered cl' = registered cl" "deliveredTo c cl' = deliveredTo c cl" "workOf cl' = workOf cl"
    "delOf cl' = delOf cl" "clNext cl' = clNext cl" "chCap (clChans cl' c) = chCap (clChans cl c)"
    "length (chBuf (clChans cl' c)) \<le> length (chBuf (clChans cl c))" for c
    using vs by (simp_all add: cl' registered_def deliveredTo_def workOf_def delOf_def fun_eq_iff)
  show ?thesis
    by (rule clientInvI)
      (simp_all only: f, (fact D | erule (1) D | erule D | use D(5) f(7) order_trans in blast | use D(1) in blast | use D(9) in blast)+)
qed

lemma reach_inv:
  assumes "clientReach (freshWants cidString) cidString newUuid blkCid iter p cl"
    and "map_iteration iter" and "inj cidString"
  shows "clientInv cl"
  using assms
proof (induction rule: clientReach.induct)
  case start
  show ?case by (rule NewClient_inv)
next
  case (step cl cl')
  then have inv: "clientInv cl" by simp
  from step(2) show ?case
  proof cases
    case (request cids streamErr netErr r)
    show ?thesis by (rule request_inv [OF step.prems(2) inv request])
  next
    case (response blks remotePeer dontHaves)
    show ?thesis by (rule map_iteration.start_inv [OF step.prems(1,2) inv response])
  next
    case send
    then show ?thesis by (rule send_inv [OF inv])
  next
    case finish
    then show ?thesis by (rule end_inv [OF inv])
  next
    case (receive ch v)
    then show ?thesis by (rule receive_inv [OF inv])
  qed
qed

end
