(* ===== verification/ClientProps.thy ===== *)
theory ClientProps
  imports ClientRuns
begin

text \<open>
  The properties of the Bitswap client: what a response does to the table of wants, that no
  handler blocks and each channel gets one response as long as no CID is asked for twice at
  the same time, what a second want for the same CID leads to, and that \<open>GetBlocks\<close> does not
  deliver a batch.
\<close>

section \<open>A handler that runs alone\<close>

lemma head_room:
  assumes "clientInv cl" and "clHandler cl = Some ((k, r, ch, b) # work, toDelete)"
  shows "hasRoom ch cl" and "toDelete k = None" and "registered cl k r ch"
proof -
  note D = clientInvD [OF assms(1)]
  have W: "workOf cl = (k, r, ch, b) # work" "delOf cl = toDelete" using assms(2) by (simp_all add: workOf_def delOf_def)
  show reg: "registered cl k r ch" and del: "toDelete k = None" using D(9) [of k r ch b] W by simp_all
  then have "deliveredTo ch cl = 0" using D(7) [of k r ch] W by simp
  then have "chBuf (clChans cl ch) = []" using D(5) [of ch] by simp
  then show "hasRoom ch cl" using D(1) [OF reg] by (simp add: hasRoom_def)
qed

lemma handleLoop_effect:
  assumes "clientInv cl" and "clHandler cl = Some (work, toDelete)"
  shows "\<exists>cl'. handleLoop (length work) cl = Some cl' \<and> clHandler cl' = None
    \<and> clDelivered cl' = clDelivered cl @ map (\<lambda>x. snd (snd x)) work
    \<and> (\<forall>k r ch. registered cl' k r ch \<longleftrightarrow>
         registered cl k r ch \<and> toDelete k \<noteq> Some r \<and> (k, r) \<notin> (\<lambda>x. (fst x, fst (snd x))) ` set work)"
  using assms
proof (induction work arbitrary: cl toDelete)
  case Nil
  then obtain cl' where e: "handleEnd cl = Some cl'" by (simp add: handleEnd_def)
  then show ?case
    using Nil end_registered [OF e] by (auto simp: delOf_def elim!: handleEnd_SomeE)
next
  case (Cons x work)
  obtain k r ch b where x: "x = (k, r, ch, b)" by (cases x)
  note room = head_room [OF Cons.prems(1), of k r ch b work toDelete]
  let ?cl = "(pushChan ch b cl)\<lparr>clHandler := Some (work, toDelete(k \<mapsto> r))\<rparr>"
  have s: "handleSend cl = Some ?cl" using Cons.prems(2) room x by (simp add: handleSend_def)
  have reg: "registered ?cl = registered cl" and h1: "clHandler ?cl = Some (work, toDelete(k \<mapsto> r))" by simp_all
  obtain cl' where l: "handleLoop (length work) ?cl = Some cl'" "clHandler cl' = None"
    "clDelivered cl' = clDelivered ?cl @ map (\<lambda>x. snd (snd x)) work"
    "\<forall>k' r' ch'. registered cl' k' r' ch' \<longleftrightarrow> registered cl k' r' ch' \<and> (toDelete(k \<mapsto> r)) k' \<noteq> Some r' \<and>
       (k', r') \<notin> (\<lambda>x. (fst x, fst (snd x))) ` set work"
    using Cons.IH [OF send_inv [OF Cons.prems(1) s] h1] unfolding reg by blast
  have "clDelivered ?cl = clDelivered cl @ [(ch, b)]" by (simp add: pushChan_def Let_def)
  moreover have "(toDelete(k \<mapsto> r)) k' \<noteq> Some r' \<longleftrightarrow> toDelete k' \<noteq> Some r' \<and> (k', r') \<noteq> (k, r)" for k' r'
    using room(2) Cons.prems(2) x by auto
  ultimately show ?case using l s x by auto
qed

lemma handleLoop_reach:
  assumes "handleLoop n cl = Some cl'" and "clientReach allowed cidString newUuid blkCid iter p cl"
  shows "clientReach allowed cidString newUuid blkCid iter p cl'"
  using assms
proof (induction n arbitrary: cl)
  case 0
  then show ?case by (auto intro: clientReach.step clientStep.finish)
next
  case (Suc n)
  then obtain cl1 where "handleSend cl = Some cl1" "handleLoop n cl1 = Some cl'" by (auto split: option.splits)
  then show ?case using Suc by (blast intro: clientReach.step clientStep.send)
qed

text \<open>A whole handler: see the first property below.\<close>

lemma handleStream_effect:
  assumes "clientReach (freshWants cidString) cidString newUuid blkCid iter p cl"
    and "map_iteration iter" and "inj cidString" and "clHandler cl = None" and "distinct (map blkCid blks)"
  shows "\<exists>cl'. handleStream cidString blkCid iter peer (Inr ([], blks)) cl = Ret (Some cl') \<and> clHandler cl' = None
    \<and> clientReach (freshWants cidString) cidString newUuid blkCid iter p cl'
    \<and> set (clDelivered cl') = set (clDelivered cl) \<union>
        {(ch, b). b \<in> set blks \<and> (\<exists>r. registered cl (wantsKey cidString (blkCid b) peer) r ch)}
    \<and> (\<forall>k r ch. registered cl' k r ch \<longleftrightarrow>
         registered cl k r ch \<and> k \<notin> (\<lambda>b. wantsKey cidString (blkCid b) peer) ` set blks)"
proof -
  have inv: "clientInv cl" by (rule reach_inv [OF assms(1-3)])
  define work where "work = concat (map (blockSends cidString blkCid iter peer cl) blks)"
  let ?cl1 = "cl\<lparr>clHandler := Some (work, Map.empty)\<rparr>"
  have st: "handleStart cidString blkCid iter peer (Inr ([], blks)) cl = Ret ?cl1"
    by (simp add: handleStart_def work_def)
  have inv1: "clientInv ?cl1" by (rule map_iteration.start_inv(1) [OF assms(2,3) inv assms(4,5) st])
  have W: "set work = {(k, r, ch, b). b \<in> set blks \<and> k = wantsKey cidString (blkCid b) peer \<and> registered cl k r ch}"
    unfolding work_def by (auto simp: map_iteration.blockSends_set [OF assms(2) inv])
  obtain cl' where l: "handleLoop (length work) ?cl1 = Some cl'" "clHandler cl' = None"
    "clDelivered cl' = clDelivered cl @ map (\<lambda>x. snd (snd x)) work"
    "\<forall>k r ch. registered cl' k r ch \<longleftrightarrow> registered cl k r ch \<and> (k, r) \<notin> (\<lambda>x. (fst x, fst (snd x))) ` set work"
    using handleLoop_effect [OF inv1, of work Map.empty] by (auto simp: registered_def)
  have "(k, r) \<in> (\<lambda>x. (fst x, fst (snd x))) ` set work \<longleftrightarrow> k \<in> (\<lambda>b. wantsKey cidString (blkCid b) peer) ` set blks"
    if "registered cl k r ch" for k r ch
    using that by (auto simp: W image_iff)
  moreover have "set (map (\<lambda>x. snd (snd x)) work) =
      {(ch, b). b \<in> set blks \<and> (\<exists>r. registered cl (wantsKey cidString (blkCid b) peer) r ch)}"
    by (auto simp: W image_iff)
  moreover have "clientReach (freshWants cidString) cidString newUuid blkCid iter p cl'"
    using handleLoop_reach [OF l(1)] assms(1) clientStep.response [OF assms(4,5) st] by (blast intro: clientReach.step)
  ultimately show ?thesis
    using l by (intro exI [of _ cl']) (auto simp: handleStream_def st)
qed

section \<open>A call of GetBlocks among the other steps\<close>

text \<open>\<open>allowed\<close> restricts the CIDs that this call and the other requests of the run may name.\<close>

inductive callReach :: "('c list \<Rightarrow> ('c, 'b) client \<Rightarrow> bool) \<Rightarrow> ('c \<Rightarrow> string) \<Rightarrow> (nat \<Rightarrow> string) \<Rightarrow> ('b \<Rightarrow> 'c)
    \<Rightarrow> ((string \<rightharpoonup> nat) \<Rightarrow> (string \<times> nat) list) \<Rightarrow> string \<Rightarrow> 'c list \<Rightarrow> 'b getBlocksCall \<Rightarrow> ('c, 'b) client \<Rightarrow> bool"
  for allowed cidString newUuid blkCid iter p cids where
  begin_call: "clientReach allowed cidString newUuid blkCid iter p cl \<Longrightarrow> clHandler cl = None \<Longrightarrow> allowed cids cl \<Longrightarrow>
     clientGetBlocks cidString newUuid streamErr netErr cids cl = Ret (Inr call, cl') \<Longrightarrow>
     callReach allowed cidString newUuid blkCid iter p cids call cl'"
| other: "callReach allowed cidString newUuid blkCid iter p cids call cl \<Longrightarrow>
     clientStep allowed cidString newUuid blkCid iter cl cl' \<Longrightarrow>
     callReach allowed cidString newUuid blkCid iter p cids call cl'"
| goroutine: "callReach allowed cidString newUuid blkCid iter p cids call cl \<Longrightarrow> getBlocksGo call cl = Some (call', cl') \<Longrightarrow>
     callReach allowed cidString newUuid blkCid iter p cids call' cl'"

text \<open>What a channel holds grows only by what is delivered to it.\<close>

definition slack :: "nat \<Rightarrow> ('c, 'b) client \<Rightarrow> ('c, 'b) client \<Rightarrow> bool" where
  "slack ch cl cl' \<longleftrightarrow>
     length (chBuf (clChans cl' ch)) + deliveredTo ch cl \<le> length (chBuf (clChans cl ch)) + deliveredTo ch cl'"

lemma addWants_frame:
  "clDelivered (snd (addWants cidString newUuid cids cl)) = clDelivered cl
   \<and> length (chBuf (clChans (snd (addWants cidString newUuid cids cl)) ch)) \<le> length (chBuf (clChans cl ch))
   \<and> length (fst (addWants cidString newUuid cids cl)) = length cids"
proof (induction cids arbitrary: cl)
  case (Cons c cids)
  show ?case
    using Cons.IH [of "addOne (wantsKey cidString c (clPeer cl)) (newUuid (clNext cl)) cl"]
    by (auto simp: addWants_Cons simp del: addWants.simps split: prod.splits if_splits)
qed simp

lemma request_frame:
  assumes "getBlockFromPeer cidString newUuid streamErr netErr cids cl = Ret (r, cl')"
  shows "slack ch cl cl' \<and> (\<forall>chs. r = Inr chs \<longrightarrow> length chs = length cids)"
proof (cases "openStream streamErr cl")
  case (Inl err)
  then show ?thesis using assms by (auto simp: getBlockFromPeer_def slack_def)
next
  case (Inr cl0)
  then have "clDelivered cl0 = clDelivered cl" "clChans cl0 = clChans cl"
    by (auto simp: openStream_def split: if_splits option.splits)
  then show ?thesis
    using assms Inr addWants_frame [of cidString newUuid cids cl0 ch]
    by (auto simp: getBlockFromPeer_def slack_def deliveredTo_def Let_def split: prod.splits option.splits)
qed

lemma step_slack:
  assumes "clientStep allowed cidString newUuid blkCid iter cl cl'"
  shows "slack ch cl cl'"
  using assms
proof cases
  case (request cids streamErr netErr r)
  then show ?thesis using request_frame by blast
next
  case (response blks remotePeer dontHaves)
  then show ?thesis by (auto simp: handleStart_def slack_def deliveredTo_def split: if_splits)
next
  case send
  then show ?thesis by (auto simp: slack_def elim!: handleSend_SomeE)
next
  case finish
  then show ?thesis by (auto simp: slack_def deliveredTo_def elim!: handleEnd_SomeE)
next
  case (receive ch v)
  then show ?thesis by (auto simp: slack_def deliveredTo_def receiveFrom_def split: list.splits)
qed

lemma getBlocksGo_SomeE:
  assumes "getBlocksGo call cl = Some (call', cl')"
  obtains v where "receiveFrom (gbChans call ! 0) cl = Some (v, cl')" and "0 < gbPending call"
    and "call' = call\<lparr>gbPending := gbPending call - 1, gbOut := gbOut call @ [rspBlk v]\<rparr>"
  using assms by (auto simp: getBlocksGo_def split: if_splits)

lemma receive_shrinks:
  "receiveFrom ch cl = Some (v, cl') \<Longrightarrow>
   Suc (length (chBuf (clChans cl' ch))) = length (chBuf (clChans cl ch)) \<and> deliveredTo ch cl' = deliveredTo ch cl"
  by (auto simp: receiveFrom_def deliveredTo_def split: list.splits)

lemma call_inv:
  assumes "callReach (freshWants cidString) cidString newUuid blkCid iter p cids call cl" and "map_iteration iter" and "inj cidString"
  shows "clientReach (freshWants cidString) cidString newUuid blkCid iter p cl
    \<and> gbPending call + length (gbOut call) = length cids
    \<and> length (gbOut call) + length (chBuf (clChans cl (gbChans call ! 0))) \<le> deliveredTo (gbChans call ! 0) cl"
  using assms
proof (induction rule: callReach.induct)
  case (begin_call cl streamErr netErr call cl')
  then obtain chs where r: "getBlockFromPeer cidString newUuid streamErr netErr cids cl = Ret (Inr chs, cl')"
    and call: "call = \<lparr>gbChans = chs, gbPending = length chs, gbOut = []\<rparr>"
    by (auto simp: clientGetBlocks_def split: outcome.splits sum.splits)
  have reach: "clientReach (freshWants cidString) cidString newUuid blkCid iter p cl'"
    using begin_call r by (blast intro: clientReach.step clientStep.request)
  then show ?case
    using clientInvD(5) [OF reach_inv [OF reach begin_call.prems], of "chs ! 0"] request_frame [OF r] call by auto
next
  case (other call cl cl')
  then show ?case
    using step_slack [OF other(2), of "gbChans call ! 0"] by (auto simp: slack_def intro: clientReach.step)
next
  case (goroutine call cl call' cl')
  obtain v where v: "receiveFrom (gbChans call ! 0) cl = Some (v, cl')" "0 < gbPending call"
    "call' = call\<lparr>gbPending := gbPending call - 1, gbOut := gbOut call @ [rspBlk v]\<rparr>"
    using goroutine(2) by (rule getBlocksGo_SomeE)
  have "clientReach (freshWants cidString) cidString newUuid blkCid iter p cl'"
    using goroutine v(1) by (blast intro: clientReach.step clientStep.receive)
  then show ?case using goroutine receive_shrinks [OF v(1)] v(2,3) by auto
qed

section \<open>Instances\<close>

definition demoString :: "nat \<Rightarrow> string" where
  "demoString n = replicate n (CHR ''a'')"

definition demoIter :: "(string \<rightharpoonup> nat) \<Rightarrow> (string \<times> nat) list" where
  "demoIter m = map (\<lambda>r. (r, the (m r))) (sorted_list_of_set (dom m))"

lemma demoString_inj: "inj demoString"
  by (rule injI) (metis demoString_def length_replicate)

interpretation demo_iter: map_iteration demoIter
  by unfold_locales (auto simp: demoIter_def distinct_map inj_on_def)

abbreviation demoReach :: "(nat, nat) client \<Rightarrow> bool" where
  "demoReach \<equiv> clientReach (freshWants demoString) demoString demoString id demoIter ''p''"

definition demoAsked :: "(nat, nat) client" where
  "demoAsked = (case getBlockFromPeer demoString demoString None None [4, 5] (NewClient ''p'') of Ret (r, cl) \<Rightarrow> cl)"

lemma demoAsked_run:
  "getBlockFromPeer demoString demoString None None [4, 5] (NewClient ''p'') = Ret (Inr [0, 1], demoAsked)"
  by (simp add: demoAsked_def getBlockFromPeer_def openStream_def NewClient_def makeChan_def addWant_def)

lemma demoFresh: "freshWants demoString [4, 5] (NewClient ''p'')"
  by (simp add: freshWants_def registered_def NewClient_def)

lemma demoAsked_reach: "demoReach demoAsked"
  by (rule clientReach.step [OF clientReach.start])
    (rule clientStep.request [OF _ _ demoAsked_run], simp_all add: demoFresh, simp add: NewClient_def)

lemma demoAsked_idle: "clHandler demoAsked = None"
  using demoAsked_run by (simp add: demoAsked_def getBlockFromPeer_def openStream_def NewClient_def makeChan_def addWant_def)

section \<open>Properties\<close>





text \<open>
  In such a run no handler is ever stuck with the lock: whenever one is active it can
  take its next step.
\<close>

theorem handler_never_stuck:
  assumes "clientReach (freshWants cidString) cidString newUuid blkCid iter p cl"
    and "map_iteration iter" and "inj cidString" and "clHandler cl = Some (work, toDelete)"
  shows "if work = [] then handleEnd cl \<noteq> None else handleSend cl \<noteq> None"
proof (cases work)
  case Nil
  then show ?thesis using assms(4) by (simp add: handleEnd_def)
next
  case (Cons x work')
  then show ?thesis
    using head_room(1) [OF reach_inv [OF assms(1-3)]] assms(4) by (cases x) (auto simp: handleSend_def)
qed

theorem handler_never_stuck_witness:
  "\<exists>cl work toDelete. demoReach cl \<and> clHandler cl = Some (work, toDelete)
     \<and> (if work = [] then handleEnd cl \<noteq> None else handleSend cl \<noteq> None)"
proof -
  obtain cl where st: "handleStart demoString id demoIter ''p'' (Inr ([], [5])) demoAsked = Ret cl"
    by (simp add: handleStart_def)
  then obtain work where h: "clHandler cl = Some (work, Map.empty)" by (auto simp: handleStart_def)
  have "clientStep (freshWants demoString) demoString demoString id demoIter demoAsked cl"
    by (rule clientStep.response [OF demoAsked_idle _ st]) simp
  then have "demoReach cl" by (rule clientReach.step [OF demoAsked_reach])
  then show ?thesis using handler_never_stuck [OF _ demo_iter.map_iteration_axioms demoString_inj h] h by blast
qed

text \<open>
  Two requests for the same CID: the handler remembers only one request ID per key, so
  when it ends at least one of two wants under the same key is still in the table although
  both were answered.
\<close>

theorem handleStream_keeps_a_duplicate_want:
  assumes "handleEnd cl = Some cl'" and "registered cl k r1 ch1" and "registered cl k r2 ch2" and "r1 \<noteq> r2"
  shows "registered cl' k r1 ch1 \<or> registered cl' k r2 ch2"
  using assms(2-) by (auto simp: end_registered [OF assms(1)])

definition twoWants :: "(nat, nat) client" where
  "twoWants = (NewClient ''p'')\<lparr>clWants := [''k'' \<mapsto> [''1'' \<mapsto> 0, ''2'' \<mapsto> 1]], clHandler := Some ([], [''k'' \<mapsto> ''2''])\<rparr>"

theorem handleStream_keeps_a_duplicate_want_witness:
  "\<exists>cl'. handleEnd twoWants = Some cl' \<and> (registered cl' ''k'' ''1'' 0 \<or> registered cl' ''k'' ''2'' 1)"
proof -
  obtain cl' where e: "handleEnd twoWants = Some cl'" by (simp add: handleEnd_def twoWants_def)
  show ?thesis
    using handleStream_keeps_a_duplicate_want [OF e, of "''k''" "''1''" 0 "''2''" 1] e
    by (simp add: registered_def twoWants_def)
qed

text \<open>
  C37: A want that stays behind with its response not taken, because its request gave up,
  stops the client: the handler of the next response for that CID waits on the full channel
  with the lock held.
\<close>

theorem handleStream_blocks_on_leaked_want:
  assumes "map_iteration iter" and "clWants cl (wantsKey cidString (blkCid b) peer) = Some m" and "finite (dom m)"
    and "m r = Some ch" and "\<not> hasRoom ch cl" and "clHandler cl = None"
  shows "handleStream cidString blkCid iter peer (Inr ([], [b])) cl = Ret None"
proof -
  let ?k = "wantsKey cidString (blkCid b) peer"
  have stuck: "handleLoop (length work) cl0 = None"
    if "clHandler cl0 = Some (work, toDelete)" and "(?k, r, ch, b) \<in> set work" and "\<not> hasRoom ch cl0"
    for work toDelete cl0
    using that
  proof (induction work arbitrary: cl0 toDelete)
    case (Cons x work)
    obtain k' r' ch' b' where x: "x = (k', r', ch', b')" by (cases x)
    show ?case
    proof (cases "hasRoom ch' cl0")
      case True
      then have "ch' \<noteq> ch" using Cons.prems(3) by auto
      let ?cl1 = "(pushChan ch' b' cl0)\<lparr>clHandler := Some (work, toDelete(k' \<mapsto> r'))\<rparr>"
      have "handleSend cl0 = Some ?cl1" using Cons.prems(1) x True by (simp add: handleSend_def)
      moreover have "\<not> hasRoom ch ?cl1" using Cons.prems(3) \<open>ch' \<noteq> ch\<close> by (simp add: hasRoom_def pushChan_def Let_def)
      moreover have "(?k, r, ch, b) \<in> set work" using Cons.prems(2) x \<open>ch' \<noteq> ch\<close> by auto
      moreover have "clHandler ?cl1 = Some (work, toDelete(k' \<mapsto> r'))" by simp
      ultimately have "handleLoop (length work) ?cl1 = None" by (intro Cons.IH)
      then show ?thesis using \<open>handleSend cl0 = Some ?cl1\<close> by simp
    next
      case False
      then show ?thesis using Cons.prems(1) x by (simp add: handleSend_def)
    qed
  qed simp
  have "(?k, r, ch, b) \<in> set (blockSends cidString blkCid iter peer cl b)"
    using assms(2,4) map_iteration.iter_set [OF assms(1,3)] by (auto simp: blockSends_def)
  then show ?thesis
    using stuck [of "cl\<lparr>clHandler := Some (blockSends cidString blkCid iter peer cl b, Map.empty)\<rparr>"] assms(5)
    by (simp add: handleStream_def handleStart_def hasRoom_def)
qed

definition leakedWant :: "(nat, nat) client" where
  "leakedWant = (NewClient ''p'')\<lparr>clWants := [wantsKey demoString 4 ''p'' \<mapsto> [''1'' \<mapsto> 0]],
     clChans := (\<lambda>_. \<lparr>chCap = 1, chBuf = [\<lparr>rspBlk = Some 4\<rparr>]\<rparr>), clNext := 1\<rparr>"

theorem handleStream_blocks_on_leaked_want_witness:
  "handleStream demoString id demoIter ''p'' (Inr ([], [4])) leakedWant = Ret None"
  by (rule handleStream_blocks_on_leaked_want [OF demo_iter.map_iteration_axioms, where m = "[''1'' \<mapsto> 0]" and r = "''1''" and ch = 0])
    (simp_all add: leakedWant_def hasRoom_def NewClient_def)

text \<open>
  C36: \<open>GetBlocks\<close> with two or more CIDs, all different, never closes its channel and delivers
  at most one block, however the steps interleave, as long as no request of the run, this
  call included, names a CID twice or one that is outstanding: every goroutine receives from
  the first channel, which then gets one response.
\<close>

theorem GetBlocks_batch_never_completes:
  assumes "callReach (freshWants cidString) cidString newUuid blkCid iter p cids call cl"
    and "map_iteration iter" and "inj cidString" and "2 \<le> length cids"
  shows "\<not> outClosed call \<and> length (gbOut call) \<le> 1"
proof -
  note I = call_inv [OF assms(1-3)]
  then have "deliveredTo (gbChans call ! 0) cl \<le> 1" using clientInvD(6) [OF reach_inv [OF _ assms(2,3)]] by blast
  then show ?thesis using I assms(4) by (simp add: outClosed_def)
qed

theorem GetBlocks_batch_never_completes_witness:
  "\<exists>call cl. callReach (freshWants demoString) demoString demoString id demoIter ''p'' [4, 5] call cl \<and> \<not> outClosed call \<and> length (gbOut call) \<le> 1"
proof -
  obtain call where "clientGetBlocks demoString demoString None None [4, 5] (NewClient ''p'') = Ret (Inr call, demoAsked)"
    using demoAsked_run by (simp add: clientGetBlocks_def)
  then have c: "callReach (freshWants demoString) demoString demoString id demoIter ''p'' [4, 5] call demoAsked"
    using callReach.begin_call [where allowed = "freshWants demoString" and cids = "[4, 5]" and cl = "NewClient ''p''",
        OF clientReach.start _ demoFresh] by (simp add: NewClient_def)
  show ?thesis
    using GetBlocks_batch_never_completes [OF c demo_iter.map_iteration_axioms demoString_inj] c by auto
qed

text \<open>
  \<open>GetBlocksCh\<close> ends as soon as the responses have caught up with the queries sent so
  far: then its channel is closed with the CIDs still to come unanswered, and no later
  response passes.
\<close>

theorem GetBlocksCh_closes_when_caught_up:
  assumes "gcForward b call = Some call'" and "gcNumSent call + 1 = gcNumBlocks call"
  shows "gcClosed call' \<and> gcIn call' = gcIn call \<and> (\<forall>b'. gcForward b' call' = None)
    \<and> (\<forall>cidString newUuid streamErr netErr cl call'' cl'. gcQuery cidString newUuid streamErr netErr call' cl = Some (Ret (call'', cl'))
         \<longrightarrow> (\<forall>b'. gcForward b' call'' = None))"
  using assms
  by (auto simp: gcForward_def gcQuery_def Let_def split: if_splits list.splits outcome.splits option.splits)

theorem GetBlocksCh_closes_when_caught_up_witness:
  "\<exists>call'. gcForward \<lparr>rspBlk = Some 4\<rparr> \<lparr>gcIn = [5], gcTmp = 0, gcNumBlocks = 1, gcNumSent = 0, gcOut = [], gcClosed = False\<rparr>
     = Some call' \<and> gcClosed call' \<and> gcIn call' = [5 :: nat] \<and> gcOut call' = [Some (4 :: nat)]"
proof -
  let ?call = "\<lparr>gcIn = [5 :: nat], gcTmp = 0, gcNumBlocks = 1, gcNumSent = 0, gcOut = [], gcClosed = False\<rparr>"
  obtain call' where f: "gcForward \<lparr>rspBlk = Some (4 :: nat)\<rparr> ?call = Some call'" by (simp add: gcForward_def)
  then show ?thesis using GetBlocksCh_closes_when_caught_up [OF f] by (auto simp: gcForward_def)
qed

end
