(* ===== verification/BitswapServer.thy ===== *)
theory BitswapServer
  imports ClientProps Blockstores
begin

text \<open>
  The Bitswap server of bitswap/server.go: the handler that reads wantlists from a stream,
  the goroutine it starts for each entry, the three attempts to send, and the four steps of
  one attempt. All goroutines of one message share the variable \<open>err\<close>, so they are steps of
  a machine. The network and the block store are parameters.
\<close>

section \<open>The server\<close>

text \<open>
  A host is its table of stream handlers. \<open>handle s\<close> is the method \<open>handle\<close> of the server,
  whose parts follow.
\<close>

type_synonym 'h hostHandlers = "string \<rightharpoonup> 'h"

definition ProtocolBitswap :: string where
  "ProtocolBitswap = ''/ipfs/bitswap/1.2.0''"

record ('c, 'b, 'w) Server =
  srvBlockstore :: "('c, 'b, 'w) blockstore"

definition NewServer :: "(('c, 'b, 'w) Server \<Rightarrow> 'h) \<Rightarrow> 'h hostHandlers \<Rightarrow> ('c, 'b, 'w) blockstore
    \<Rightarrow> ('c, 'b, 'w) Server \<times> 'h hostHandlers" where
  "NewServer handle host bs =
     (let s = \<lparr>srvBlockstore = bs\<rparr> in (s, host(ProtocolBitswap \<mapsto> handle s)))"

definition serverClose :: "('c, 'b, 'w) Server \<Rightarrow> goerr option" where
  "serverClose s = None"

section \<open>Reading wantlists\<close>

datatype wantType = WantBlock | WantHave

record 'c wlEntry =
  weCid :: 'c
  weCancel :: bool
  weSendDontHave :: bool
  weWantType :: wantType

text \<open>The entry that the client adds to its messages for each CID.\<close>

definition wantEntry :: "'c \<Rightarrow> 'c wlEntry" where
  "wantEntry c = \<lparr>weCid = c, weCancel = False, weSendDontHave = True, weWantType = WantBlock\<rparr>"

text \<open>The checks before a goroutine starts, over one wantlist.\<close>

fun checkEntries :: "'c wlEntry list \<Rightarrow> 'c wlEntry list outcome" where
  "checkEntries [] = Ret []"
| "checkEntries (e # wl) =
     (if weCancel e then Panic ''unsupported cancel''
      else if \<not> weSendDontHave e then Panic ''unsupported senddonthave''
      else case checkEntries wl of Panic msg \<Rightarrow> Panic msg | Ret es \<Rightarrow> Ret (e # es))"

text \<open>
  The first part of a goroutine: the block of the entry, read from the store. What follows
  \<open>panic("what?")\<close> in the source is never run.
\<close>

definition entryMsg :: "('c, 'b, 'w) blockstore \<Rightarrow> 'c wlEntry \<Rightarrow> 'w \<Rightarrow> 'b outcome \<times> 'w" where
  "entryMsg bs e w =
     (case weWantType e of
        WantBlock \<Rightarrow>
          (case bsGet bs (weCid e) w of
             (Inl err, w') \<Rightarrow> (Panic ''Blockstore.Get'', w')
           | (Inr blk, w') \<Rightarrow> (Ret blk, w'))
      | WantHave \<Rightarrow> (Panic ''what?'', w))"

text \<open>
  The loop of \<open>handle\<close> over the messages it reads: for each a wantlist or the error that
  ends the loop. It yields the entries whose goroutines it started, message by message, and
  whether it reset the stream.
\<close>

fun handleMessages :: "(goerr + 'c wlEntry list) list \<Rightarrow> ('c wlEntry list list \<times> bool) outcome" where
  "handleMessages [] = Ret ([], False)"
| "handleMessages (Inl err # _) = Ret ([], err \<noteq> ErrEOF)"
| "handleMessages (Inr wl # rest) =
     (case checkEntries wl of
        Panic msg \<Rightarrow> Panic msg
      | Ret es \<Rightarrow> (case handleMessages rest of
                    Panic msg \<Rightarrow> Panic msg
                  | Ret (ess, reset) \<Rightarrow> Ret (es # ess, reset)))"

section \<open>Sending\<close>

text \<open>One attempt: opening a stream, writing, closing for writing, and reading to the end.\<close>

definition sendSingleWLEntryMsgToPeer :: "goerr option \<Rightarrow> goerr option \<Rightarrow> goerr option \<Rightarrow> goerr option \<Rightarrow> goerr option" where
  "sendSingleWLEntryMsgToPeer openErr writeErr closeErr readErr =
     (if openErr \<noteq> None then Some (Errorf ''server could not open response stream error'' openErr)
      else if writeErr \<noteq> None then Some (Errorf ''server stream error'' writeErr)
      else if closeErr \<noteq> None then Some (Errorf ''server stream write closing error'' closeErr)
      else if readErr \<noteq> None then Some (Errorf ''server stream close error'' readErr)
      else None)"

text \<open>
  Where a goroutine is in its retry loop: at the head of the loop with \<open>try = t\<close>, where a
  repeated attempt is logged, before the attempt itself, at the test of \<open>err\<close> after it,
  behind the loop, or at its end. \<open>srvErr\<close> is the variable \<open>err\<close> that the goroutines of a
  message share; each access to it is a step of its own. \<open>srvPanic\<close> is set when one of them
  has panicked, which ends the process. The first attempt is not logged and its condition
  holds, so the loop starts before attempt 0.
\<close>

datatype srvPc = Logging nat | Attempt nat | Test nat | Behind | Ended

definition maxTries :: nat where
  "maxTries = 3"

record srvState =
  srvErr :: "goerr option"
  srvPcs :: "srvPc list"
  srvSent :: "nat list"
  srvPanic :: "string option"

definition srvStart :: "nat \<Rightarrow> srvState" where
  "srvStart n = \<lparr>srvErr = None, srvPcs = replicate n (Attempt 0), srvSent = [], srvPanic = None\<rparr>"

text \<open>
  A step of goroutine \<open>i\<close>; \<open>attempt i t\<close> is the result of its attempt. Logging a repeated
  attempt reads \<open>err.Error()\<close>, which panics when \<open>err\<close> is nil by then; the attempt's result
  is assigned to \<open>err\<close> in a later step.
\<close>

definition srvStep :: "(nat \<Rightarrow> nat \<Rightarrow> goerr option) \<Rightarrow> nat \<Rightarrow> srvState \<Rightarrow> srvState" where
  "srvStep attempt i s =
     (if srvPanic s \<noteq> None \<or> length (srvPcs s) \<le> i then s
      else case srvPcs s ! i of
             Logging t \<Rightarrow>
               if maxTries \<le> t then s\<lparr>srvPcs := (srvPcs s)[i := Behind]\<rparr>
               else if srvErr s = None then s\<lparr>srvPanic := Some ''nil pointer dereference''\<rparr>
               else s\<lparr>srvPcs := (srvPcs s)[i := Attempt t]\<rparr>
           | Attempt t \<Rightarrow>
               s\<lparr>srvErr := attempt i t, srvPcs := (srvPcs s)[i := Test t],
                 srvSent := (if attempt i t = None then srvSent s @ [i] else srvSent s)\<rparr>
           | Test t \<Rightarrow>
               if srvErr s = None then s\<lparr>srvPcs := (srvPcs s)[i := Behind]\<rparr>
               else s\<lparr>srvPcs := (srvPcs s)[i := Logging (t + 1)]\<rparr>
           | Behind \<Rightarrow>
               if srvErr s \<noteq> None then s\<lparr>srvPanic := Some ''send''\<rparr> else s\<lparr>srvPcs := (srvPcs s)[i := Ended]\<rparr>
           | Ended \<Rightarrow> s)"

text \<open>A schedule is the order in which the goroutines take their steps.\<close>

definition srvRun :: "(nat \<Rightarrow> nat \<Rightarrow> goerr option) \<Rightarrow> nat list \<Rightarrow> srvState \<Rightarrow> srvState" where
  "srvRun attempt sched s = fold (srvStep attempt) sched s"

end
