(* ===== verification/ExchangeProps.thy ===== *)
theory ExchangeProps
  imports BitswapServer
begin

text \<open>
  Properties of the Bitswap server, and of the client and the server together: a request of
  the client is accepted by the server, and once every reply has arrived, in any order, each
  channel of the request has its block and no want is left.
\<close>

section \<open>The wants of a request\<close>

lemma addWants_registered:
  assumes "inj cidString" and "freshWants cidString cids cl"
  shows "registered (snd (addWants cidString newUuid cids cl)) k r ch \<longleftrightarrow> registered cl k r ch \<or>
    (\<exists>i < length cids. k = wantsKey cidString (cids ! i) (clPeer cl) \<and> ch = fst (addWants cidString newUuid cids cl) ! i
       \<and> r = newUuid ch)"
  using assms(2)
proof (induction cids arbitrary: cl)
  case Nil
  then show ?case by simp
next
  case (Cons c cids)
  let ?k = "wantsKey cidString c (clPeer cl)"
  let ?cl = "addOne ?k (newUuid (clNext cl)) cl"
  have fresh: "\<And>r ch. \<not> registered cl ?k r ch" using Cons.prems by (simp add: freshWants_def)
  have "freshWants cidString cids ?cl"
    using Cons.prems by (auto simp: freshWants_def addOne_registered [OF fresh] wantsKey_inj [OF assms(1)])
  note IH = Cons.IH [OF this]
  show ?case
    by (auto simp: addWants_Cons IH addOne_registered [OF fresh] split_beta less_Suc_eq_0_disj simp del: addWants.simps)
qed

lemma request_registered:
  assumes "inj cidString" and "freshWants cidString cids cl"
    and "getBlockFromPeer cidString newUuid streamErr netErr cids cl = Ret (Inr chs, cl')" and "i < length cids"
  shows "registered cl' (wantsKey cidString (cids ! i) (clPeer cl)) (newUuid (chs ! i)) (chs ! i)"
proof -
  obtain cl0 where o: "openStream streamErr cl = Inr cl0"
    using assms(3) by (auto simp: getBlockFromPeer_def split: sum.splits)
  then have f: "clPeer cl0 = clPeer cl" "clWants cl0 = clWants cl"
    by (auto simp: openStream_def split: if_splits option.splits)
  then have "freshWants cidString cids cl0" using assms(2) by (simp add: freshWants_def registered_def)
  from addWants_registered [OF assms(1) this, of newUuid]
  have "registered (snd (addWants cidString newUuid cids cl0)) (wantsKey cidString (cids ! i) (clPeer cl))
      (newUuid (fst (addWants cidString newUuid cids cl0) ! i)) (fst (addWants cidString newUuid cids cl0) ! i)"
    using assms(4) f by auto
  then show ?thesis
    using assms(3) o by (auto simp: getBlockFromPeer_def registered_def Let_def split: prod.splits option.splits)
qed

lemma addWants_idle: "clHandler (snd (addWants cidString newUuid cids cl)) = clHandler cl"
  by (induction cids arbitrary: cl) (simp_all add: addWants_Cons split_beta del: addWants.simps(2))

lemma request_idle:
  "getBlockFromPeer cidString newUuid streamErr netErr cids cl = Ret (r, cl') \<Longrightarrow> clHandler cl = None \<Longrightarrow> clHandler cl' = None"
  by (auto simp: getBlockFromPeer_def openStream_def Let_def split_beta addWants_idle split: if_splits option.splits)

section \<open>Replies one after the other\<close>

text \<open>Each reply of the server carries one block and is handled by a stream handler of its own.\<close>

fun handleReplies :: "('c \<Rightarrow> string) \<Rightarrow> ('b \<Rightarrow> 'c) \<Rightarrow> ((string \<rightharpoonup> nat) \<Rightarrow> (string \<times> nat) list) \<Rightarrow> string
    \<Rightarrow> 'b list \<Rightarrow> ('c, 'b) client \<Rightarrow> ('c, 'b) client option" where
  "handleReplies cidString blkCid iter peer [] cl = Some cl"
| "handleReplies cidString blkCid iter peer (b # blks) cl =
     (case handleStream cidString blkCid iter peer (Inr ([], [b])) cl of
        Ret (Some cl') \<Rightarrow> handleReplies cidString blkCid iter peer blks cl'
      | _ \<Rightarrow> None)"

lemma handleReplies_effect:
  assumes "map_iteration iter" and "inj cidString"
    and "clientReach (freshWants cidString) cidString newUuid blkCid iter p cl" and "clHandler cl = None"
    and "distinct (map blkCid blks)"
  shows "\<exists>cl'. handleReplies cidString blkCid iter peer blks cl = Some cl'
    \<and> set (clDelivered cl') = set (clDelivered cl) \<union>
        {(ch, b). b \<in> set blks \<and> (\<exists>r. registered cl (wantsKey cidString (blkCid b) peer) r ch)}
    \<and> (\<forall>k r ch. registered cl' k r ch \<longleftrightarrow>
         registered cl k r ch \<and> k \<notin> (\<lambda>b. wantsKey cidString (blkCid b) peer) ` set blks)"
  using assms(3-)
proof (induction blks arbitrary: cl)
  case Nil
  then show ?case by simp
next
  case (Cons b blks)
  obtain cl1 where h: "handleStream cidString blkCid iter peer (Inr ([], [b])) cl = Ret (Some cl1)" "clHandler cl1 = None"
    "clientReach (freshWants cidString) cidString newUuid blkCid iter p cl1"
    "set (clDelivered cl1) = set (clDelivered cl) \<union>
        {(ch, b'). b' \<in> set [b] \<and> (\<exists>r. registered cl (wantsKey cidString (blkCid b') peer) r ch)}"
    "\<forall>k r ch. registered cl1 k r ch \<longleftrightarrow>
         registered cl k r ch \<and> k \<notin> (\<lambda>b. wantsKey cidString (blkCid b) peer) ` set [b]"
    using handleStream_effect [OF Cons.prems(1) assms(1,2) Cons.prems(2), of "[b]" peer] by auto
  obtain cl' where c: "handleReplies cidString blkCid iter peer blks cl1 = Some cl'"
    "set (clDelivered cl') = set (clDelivered cl1) \<union>
        {(ch, b). b \<in> set blks \<and> (\<exists>r. registered cl1 (wantsKey cidString (blkCid b) peer) r ch)}"
    "\<forall>k r ch. registered cl' k r ch \<longleftrightarrow>
         registered cl1 k r ch \<and> k \<notin> (\<lambda>b. wantsKey cidString (blkCid b) peer) ` set blks"
    using Cons.IH [OF h(3,2)] Cons.prems(3) by auto
  have ne: "wantsKey cidString (blkCid b') peer \<noteq> wantsKey cidString (blkCid b) peer" if "b' \<in> set blks" for b'
    using that Cons.prems(3) by (auto simp: wantsKey_inj [OF assms(2)] image_iff)
  then have "{(ch, b). b \<in> set blks \<and> (\<exists>r. registered cl1 (wantsKey cidString (blkCid b) peer) r ch)} =
     {(ch, b). b \<in> set blks \<and> (\<exists>r. registered cl (wantsKey cidString (blkCid b) peer) r ch)}"
    using h(5) by auto
  then show ?case using h c by (intro exI [of _ cl']) auto
qed

section \<open>The server\<close>

lemma checkEntries_client: "checkEntries (map wantEntry cids) = Ret (map wantEntry cids)"
  by (induction cids) (simp_all add: wantEntry_def)

lemma entryMsg_present:
  "block_store bs blkCid contents \<Longrightarrow> contents w c = Some b \<Longrightarrow> fst (entryMsg bs (wantEntry c) w) = Ret b"
  using block_store.get_found [of bs blkCid contents w c b]
  by (auto simp: entryMsg_def wantEntry_def split: prod.splits sum.splits)

text \<open>A request and all its replies: see the first property below.\<close>

lemma exchange_delivers:
  assumes "map_iteration iter" and "inj cidString" and "block_store bs blkCid contents"
    and "clientReach (freshWants cidString) cidString newUuid blkCid iter p cl" and "clHandler cl = None"
    and "freshWants cidString cids cl"
    and "getBlockFromPeer cidString newUuid streamErr netErr cids cl = Ret (Inr chs, cl1)"
    and "\<And>c. c \<in> set cids \<Longrightarrow> contents w c = Some (blockOf c) \<and> blkCid (blockOf c) = c"
    and "distinct replies" and "set replies = blockOf ` set cids"
  shows "handleMessages [Inr (map wantEntry cids)] = Ret ([map wantEntry cids], False)
    \<and> (\<forall>c \<in> set cids. fst (entryMsg bs (wantEntry c) w) = Ret (blockOf c))
    \<and> (\<exists>cl2. handleReplies cidString blkCid iter (clPeer cl) replies cl1 = Some cl2
         \<and> (\<forall>i < length cids. (chs ! i, blockOf (cids ! i)) \<in> set (clDelivered cl2))
         \<and> (\<forall>c \<in> set cids. \<forall>r ch. \<not> registered cl2 (wantsKey cidString c (clPeer cl)) r ch))"
proof (intro conjI ballI)
  show "handleMessages [Inr (map wantEntry cids)] = Ret ([map wantEntry cids], False)"
    by (simp add: checkEntries_client)
  show "fst (entryMsg bs (wantEntry c) w) = Ret (blockOf c)" if "c \<in> set cids" for c
    using entryMsg_present [OF assms(3)] assms(8) [OF that] by simp
  have reach: "clientReach (freshWants cidString) cidString newUuid blkCid iter p cl1"
    using assms(4-7) by (blast intro: clientReach.step clientStep.request)
  have "inj_on blkCid (set replies)" using assms(8,10) by (auto simp: inj_on_def)
  then have "distinct (map blkCid replies)" using assms(9) by (simp add: distinct_map)
  then obtain cl2 where c: "handleReplies cidString blkCid iter (clPeer cl) replies cl1 = Some cl2"
    "set (clDelivered cl2) = set (clDelivered cl1) \<union>
        {(ch, b). b \<in> set replies \<and> (\<exists>r. registered cl1 (wantsKey cidString (blkCid b) (clPeer cl)) r ch)}"
    "\<forall>k r ch. registered cl2 k r ch \<longleftrightarrow>
         registered cl1 k r ch \<and> k \<notin> (\<lambda>b. wantsKey cidString (blkCid b) (clPeer cl)) ` set replies"
    using handleReplies_effect [OF assms(1,2) reach request_idle [OF assms(7,5)], of replies "clPeer cl"] by blast
  have "(chs ! i, blockOf (cids ! i)) \<in> set (clDelivered cl2)" if "i < length cids" for i
    using request_registered [OF assms(2,6,7) that] assms(8) [of "cids ! i"] assms(10) c(2) that by auto
  moreover have "\<not> registered cl2 (wantsKey cidString x (clPeer cl)) r ch" if "x \<in> set cids" for x r ch
  proof -
    have "wantsKey cidString x (clPeer cl) \<in> (\<lambda>b. wantsKey cidString (blkCid b) (clPeer cl)) ` set replies"
      by (rule image_eqI [of _ _ "blockOf x"]) (use assms(8) [OF that] assms(10) that in auto)
    then show ?thesis using c(3) by blast
  qed
  ultimately show "\<exists>cl2. handleReplies cidString blkCid iter (clPeer cl) replies cl1 = Some cl2
         \<and> (\<forall>i < length cids. (chs ! i, blockOf (cids ! i)) \<in> set (clDelivered cl2))
         \<and> (\<forall>c \<in> set cids. \<forall>r ch. \<not> registered cl2 (wantsKey cidString c (clPeer cl)) r ch)"
    using c(1) by blast
qed

text \<open>While every attempt succeeds, the shared error stays nil and nobody panics.\<close>

fun firstTry :: "srvPc \<Rightarrow> bool" where
  "firstTry (Logging t) = False"
| "firstTry (Attempt t) = (t = 0)"
| "firstTry _ = True"

definition srvQuiet :: "srvState \<Rightarrow> bool" where
  "srvQuiet s \<longleftrightarrow> srvErr s = None \<and> srvPanic s = None \<and> distinct (srvSent s)
     \<and> (\<forall>i < length (srvPcs s). firstTry (srvPcs s ! i))
     \<and> (\<forall>i. i \<in> set (srvSent s) \<longleftrightarrow> i < length (srvPcs s) \<and> srvPcs s ! i \<noteq> Attempt 0)"

lemma srvStep_quiet:
  assumes "\<And>i. attempt i 0 = None" and "srvQuiet s"
  shows "srvQuiet (srvStep attempt i s)"
proof (cases "i < length (srvPcs s)")
  case True
  show ?thesis
  proof (cases "srvPcs s ! i")
    case (Logging t)
    then show ?thesis using assms(2) True by (metis firstTry.simps(1) srvQuiet_def)
  next
    case (Attempt t)
    then have "t = 0" using assms(2) True by (metis firstTry.simps(2) srvQuiet_def)
    then have step: "srvStep attempt i s =
        s\<lparr>srvErr := None, srvPcs := (srvPcs s)[i := Test 0], srvSent := srvSent s @ [i]\<rparr>"
      using assms True Attempt by (simp add: srvQuiet_def srvStep_def maxTries_def)
    have "i \<notin> set (srvSent s)" using assms(2) Attempt \<open>t = 0\<close> by (auto simp: srvQuiet_def)
    then show ?thesis
      using assms(2) True unfolding step srvQuiet_def by (auto simp: nth_list_update)
  next
    case (Test t)
    then show ?thesis using assms True by (auto simp: srvQuiet_def srvStep_def nth_list_update)
  next
    case Behind
    then show ?thesis using assms True by (auto simp: srvQuiet_def srvStep_def nth_list_update)
  next
    case Ended
    then show ?thesis using assms True by (simp add: srvStep_def srvQuiet_def)
  qed
next
  case False
  then show ?thesis using assms by (simp add: srvStep_def)
qed

lemma srvRun_quiet: "(\<And>i. attempt i 0 = None) \<Longrightarrow> srvQuiet s \<Longrightarrow> srvQuiet (srvRun attempt sched s)"
  unfolding srvRun_def by (induction sched arbitrary: s) (simp_all add: srvStep_quiet)

lemma srvStart_quiet: "srvQuiet (srvStart n)"
  by (simp add: srvQuiet_def srvStart_def)

text \<open>A goroutine that has come to an end stays there.\<close>

lemma srv_final:
  "srvPanic s \<noteq> None \<or> srvPcs s ! i = Ended \<Longrightarrow> fold (srvStep attempt) (replicate n i) s = s"
  by (induction n) (auto simp: srvStep_def)

text \<open>The turns a goroutine needs until it has ended, whatever the others do to \<open>err\<close>.\<close>

fun turnsLeft :: "srvPc \<Rightarrow> nat" where
  "turnsLeft (Logging t) = (if t < 3 then 3 * (3 - t) + 2 else 2)"
| "turnsLeft (Attempt t) = (if t < 3 then 3 * (3 - t) + 1 else 4)"
| "turnsLeft (Test t) = (if t < 3 then 3 * (3 - t) else 3)"
| "turnsLeft Behind = 1"
| "turnsLeft Ended = 0"

lemma turnsLeft_zero: "turnsLeft pc = 0 \<longleftrightarrow> pc = Ended"
  by (cases pc) simp_all

lemma srvStep_frame:
  "length (srvPcs (srvStep attempt j s)) = length (srvPcs s)"
  "j \<noteq> i \<Longrightarrow> srvPcs (srvStep attempt j s) ! i = srvPcs s ! i"
  "srvPanic s \<noteq> None \<Longrightarrow> srvStep attempt j s = s"
  by (auto simp: srvStep_def split: srvPc.splits)

lemma srvStep_own:
  assumes "i < length (srvPcs s)" and "srvPanic s = None" and "srvPanic (srvStep attempt i s) = None"
  shows "turnsLeft (srvPcs (srvStep attempt i s) ! i) \<le> turnsLeft (srvPcs s ! i) - 1"
proof (cases "srvPcs s ! i")
  case (Logging t)
  then show ?thesis using assms by (auto simp: srvStep_def maxTries_def split: if_splits)
next
  case (Attempt t)
  then show ?thesis using assms by (simp add: srvStep_def)
next
  case (Test t)
  then show ?thesis using assms by (auto simp: srvStep_def split: if_splits)
qed (use assms in \<open>auto simp: srvStep_def split: if_splits\<close>)

lemma srvRun_turns:
  assumes "i < length (srvPcs s)" and "srvPanic (srvRun attempt sched s) = None"
  shows "turnsLeft (srvPcs (srvRun attempt sched s) ! i) \<le> turnsLeft (srvPcs s ! i) - count_list sched i"
  using assms
proof (induction sched arbitrary: s)
  case Nil
  then show ?case by (simp add: srvRun_def)
next
  case (Cons j sched)
  let ?s = "srvStep attempt j s"
  have run: "srvRun attempt (j # sched) s = srvRun attempt sched ?s" by (simp add: srvRun_def)
  have stay: "srvPanic s' \<noteq> None \<Longrightarrow> srvRun attempt sc s' = s'" for sc s'
    unfolding srvRun_def by (induction sc) (simp_all add: srvStep_frame(3))
  have panic: "srvPanic ?s = None" using stay [of ?s sched] Cons.prems(2) run by metis
  then have "srvPanic s = None" using srvStep_frame(3) [of s attempt j] by metis
  then have "turnsLeft (srvPcs ?s ! i) \<le> turnsLeft (srvPcs s ! i) - (if j = i then 1 else 0)"
    using srvStep_own [OF Cons.prems(1)] panic srvStep_frame(2) [of j i attempt s] by (cases "j = i") auto
  moreover have "turnsLeft (srvPcs (srvRun attempt sched ?s) ! i) \<le> turnsLeft (srvPcs ?s ! i) - count_list sched i"
    using Cons.IH [of ?s] Cons.prems run by (simp add: srvStep_frame(1))
  ultimately show ?case unfolding run by (auto split: if_splits)
qed

lemma srvRun_length: "length (srvPcs (srvRun attempt sched s)) = length (srvPcs s)"
  unfolding srvRun_def by (induction sched arbitrary: s) (simp_all add: srvStep_frame(1))

section \<open>Properties\<close>

text \<open>
  Client and server together. A request of the client for different CIDs, none of them
  outstanding, passes the checks of the server; for each CID in its store the server prepares
  the block; and when the replies have arrived, in any order, every channel of the request
  has been sent its block and none of its wants is left.
\<close>

theorem exchange_round_trip:
  assumes "map_iteration iter" and "inj cidString" and "block_store bs blkCid contents"
    and "clientReach (freshWants cidString) cidString newUuid blkCid iter p cl" and "clHandler cl = None"
    and "freshWants cidString cids cl"
    and "getBlockFromPeer cidString newUuid streamErr netErr cids cl = Ret (Inr chs, cl1)"
    and "\<And>c. c \<in> set cids \<Longrightarrow> contents w c = Some (blockOf c) \<and> blkCid (blockOf c) = c"
    and "distinct replies" and "set replies = blockOf ` set cids"
  shows "handleMessages [Inr (map wantEntry cids)] = Ret ([map wantEntry cids], False)
    \<and> (\<forall>c \<in> set cids. fst (entryMsg bs (wantEntry c) w) = Ret (blockOf c))
    \<and> (\<exists>cl2. handleReplies cidString blkCid iter (clPeer cl) replies cl1 = Some cl2
         \<and> (\<forall>i < length cids. (chs ! i, blockOf (cids ! i)) \<in> set (clDelivered cl2))
         \<and> (\<forall>c \<in> set cids. \<forall>r ch. \<not> registered cl2 (wantsKey cidString c (clPeer cl)) r ch))"
  by (rule exchange_delivers [OF assms])

theorem exchange_round_trip_witness:
  "\<exists>cl2. handleReplies demoString id demoIter ''p'' [5, 4] demoAsked = Some cl2
     \<and> (0, 4) \<in> set (clDelivered cl2) \<and> (1, 5) \<in> set (clDelivered cl2)"
proof -
  have store: "block_store (memBS id) id (\<lambda>w. w :: nat \<rightharpoonup> nat)" by (rule mem.block_store_axioms)
  have new: "clHandler (NewClient ''p'' :: (nat, nat) client) = None" "clPeer (NewClient ''p'' :: (nat, nat) client) = ''p''"
    by (simp_all add: NewClient_def)
  have "\<exists>cl2. handleReplies demoString id demoIter (clPeer (NewClient ''p'' :: (nat, nat) client)) [5, 4] demoAsked = Some cl2
         \<and> (\<forall>i < length [4, 5::nat]. ([0, 1] ! i, id ([4, 5] ! i)) \<in> set (clDelivered cl2))
         \<and> (\<forall>c \<in> set [4, 5]. \<forall>r ch. \<not> registered cl2 (wantsKey demoString c (clPeer (NewClient ''p'' :: (nat, nat) client))) r ch)"
    by (rule exchange_round_trip [OF demo_iter.map_iteration_axioms demoString_inj store clientReach.start new(1) demoFresh
        demoAsked_run, of "[4 \<mapsto> 4, 5 \<mapsto> 5]" id "[5, 4]", THEN conjunct2, THEN conjunct2]) auto
  then show ?thesis by (auto simp: new less_Suc_eq simp del: handleReplies.simps)
qed

text \<open>
  A goroutine of the server that shares its error variable with no other makes at most
  three attempts. It sends its message exactly once and ends when one of them succeeds, and
  panics without having sent it when all three fail.
\<close>

theorem server_goroutine_alone:
  assumes "10 \<le> n"
  shows "let s = srvRun attempt (replicate n 0) (srvStart 1) in
    if \<exists>t < 3. attempt 0 t = None then srvSent s = [0] \<and> srvPcs s = [Ended] \<and> srvPanic s = None
    else srvSent s = [] \<and> srvPanic s = Some ''send''"
proof -
  let ?s10 = "fold (srvStep attempt) (replicate 10 0) (srvStart 1)"
  have ex: "(\<exists>t < 3. attempt 0 t = None) \<longleftrightarrow> attempt 0 0 = None \<or> attempt 0 1 = None \<or> attempt 0 2 = None"
    by (auto simp: numeral_3_eq_3 numeral_2_eq_2 less_Suc_eq)
  have ten: "if \<exists>t < 3. attempt 0 t = None then srvSent ?s10 = [0] \<and> srvPcs ?s10 = [Ended] \<and> srvPanic ?s10 = None
    else srvSent ?s10 = [] \<and> srvPanic ?s10 = Some ''send''"
    unfolding ex
    by (cases "attempt 0 0"; cases "attempt 0 1"; cases "attempt 0 2")
      (simp_all add: srvStart_def srvStep_def maxTries_def eval_nat_numeral)
  then have "fold (srvStep attempt) (replicate (n - 10) 0) ?s10 = ?s10"
    by (intro srv_final) (auto split: if_splits)
  moreover have "replicate n 0 = replicate 10 (0::nat) @ replicate (n - 10) 0"
    using assms by (metis le_add_diff_inverse replicate_add)
  ultimately have run: "srvRun attempt (replicate n 0) (srvStart 1) = ?s10" by (simp add: srvRun_def)
  show ?thesis unfolding Let_def run by (rule ten)
qed

theorem server_goroutine_alone_witness:
  "srvSent (srvRun (\<lambda>i t. if t < 2 then Some ErrEOF else None) (replicate 10 0) (srvStart 1)) = [0]"
proof -
  have "\<exists>t < 3. (if t < (2::nat) then Some ErrEOF else None) = None" by (rule exI [of _ "2 :: nat"]) simp
  then show ?thesis
    using server_goroutine_alone [of 10 "\<lambda>i t. if t < 2 then Some ErrEOF else None"] by (simp add: Let_def)
qed

text \<open>
  C38: The shared error variable can hide a failure: with two entries in a message, when the
  first goroutine's attempt fails and the second one's succeeds before the first tests
  \<open>err\<close>, both end without a panic and the first message is never sent.
\<close>

theorem server_shared_err_loses_message:
  assumes "attempt 0 0 = Some e" and "attempt 1 0 = None"
  shows "let s = srvRun attempt [0, 1, 0, 0, 1, 1] (srvStart 2) in
    srvPcs s = [Ended, Ended] \<and> srvPanic s = None \<and> srvSent s = [1]"
  using assms by (simp add: srvRun_def srvStart_def srvStep_def maxTries_def eval_nat_numeral)

theorem server_shared_err_loses_message_witness:
  "let s = srvRun (\<lambda>i t. if i = 0 then Some ErrEOF else None) [0, 1, 0, 0, 1, 1] (srvStart 2) in
    srvPcs s = [Ended, Ended] \<and> srvPanic s = None \<and> srvSent s = [1]"
  by (rule server_shared_err_loses_message) simp_all

text \<open>
  When every first attempt succeeds no schedule of the goroutines panics, no message is
  sent twice, and a message has been sent exactly when its goroutine has made its attempt.
\<close>

theorem server_sends_once:
  assumes "\<And>i. attempt i 0 = None"
  shows "let s = srvRun attempt sched (srvStart n) in
    srvPanic s = None \<and> distinct (srvSent s) \<and>
    set (srvSent s) = {i. i < length (srvPcs s) \<and> srvPcs s ! i \<noteq> Attempt 0}"
  using srvRun_quiet [of attempt, OF assms srvStart_quiet, of sched n] by (auto simp: Let_def srvQuiet_def)

theorem server_sends_once_witness:
  "let s = srvRun (\<lambda>i t. None) [1, 0, 1] (srvStart 3) in
    srvPanic s = None \<and> distinct (srvSent s) \<and>
    set (srvSent s) = {i. i < length (srvPcs s) \<and> srvPcs s ! i \<noteq> Attempt 0}"
  by (rule server_sends_once) simp

text \<open>
  C13: The goroutines of a message come to an end whatever attempts fail and however they
  disturb each other through the shared error: after any schedule in which each of the \<open>n\<close>
  goroutines has had ten turns, all of them have ended or the process has panicked.
\<close>

theorem server_goroutines_terminate:
  assumes "\<And>i. i < n \<Longrightarrow> 10 \<le> count_list sched i"
  shows "srvPanic (srvRun attempt sched (srvStart n)) \<noteq> None \<or>
    srvPcs (srvRun attempt sched (srvStart n)) = replicate n Ended"
proof (cases "srvPanic (srvRun attempt sched (srvStart n))")
  case None
  have len: "length (srvPcs (srvRun attempt sched (srvStart n))) = n" by (simp add: srvRun_length srvStart_def)
  moreover have "srvPcs (srvRun attempt sched (srvStart n)) ! i = Ended" if "i < n" for i
  proof -
    have "turnsLeft (srvPcs (srvRun attempt sched (srvStart n)) ! i) \<le> 10 - count_list sched i"
      using srvRun_turns [OF _ None, of i] that by (simp add: srvStart_def)
    then have "turnsLeft (srvPcs (srvRun attempt sched (srvStart n)) ! i) = 0" using assms [OF that] by simp
    then show ?thesis by (simp add: turnsLeft_zero)
  qed
  ultimately show ?thesis by (auto intro: nth_equalityI)
qed simp

theorem server_goroutines_terminate_witness:
  "srvPcs (srvRun (\<lambda>i t. None) (concat (replicate 10 [0, 1])) (srvStart 2)) = replicate 2 Ended"
proof -
  have "srvPanic (srvRun (\<lambda>i t. None) (concat (replicate 10 [0, 1])) (srvStart 2)) \<noteq> None \<or>
     srvPcs (srvRun (\<lambda>i t. None) (concat (replicate 10 [0, 1])) (srvStart 2)) = replicate 2 Ended"
    by (rule server_goroutines_terminate) (auto simp: eval_nat_numeral less_Suc_eq)
  moreover have "srvPanic (srvRun (\<lambda>i t. None) (concat (replicate 10 [0, 1])) (srvStart 2)) = None"
    by code_simp
  ultimately show ?thesis by simp
qed

end
