(* ===== verification/ExchangeSystem.thy ===== *)
theory ExchangeSystem
  imports ExchangeProps
begin

text \<open>
  The Bitswap client of client.go and the Bitswap server of server.go as one system: the
  requests the client has written to its stream, the goroutines that the server has started
  for each message, the reply streams that no handler of the client has taken yet, and the
  state of the server's block store. All of them move independently, and a panic on one side
  leaves the other running. The invariant at the end covers every failure: whatever is sent to
  a channel is the stored block of the CID that the channel was made for.
\<close>

section \<open>The system\<close>

text \<open>
  The goroutines of one message (server.go, lines 59 to 107): the entries they were started
  for, the blocks they have read, and their retry loops over the shared error.
\<close>

record ('c, 'b) served =
  sdEntries :: "'c wlEntry list"
  sdBlocks :: "'b option list"
  sdSrv :: srvState

definition serveEntries :: "'c wlEntry list \<Rightarrow> ('c, 'b) served" where
  "serveEntries es = \<lparr>sdEntries = es, sdBlocks = replicate (length es) None, sdSrv = srvStart (length es)\<rparr>"

text \<open>
  A reply is a whole message or the error that reading it gives. \<open>xsPanic\<close> is set when a
  goroutine of the server has panicked, which ends the server's process, and \<open>xsCrash\<close> when
  one of the client has, which ends the client's. \<open>xsAsked\<close> records the channel and the CID
  of every request and is read by no step.
\<close>

record ('c, 'b, 'w) exSystem =
  xsClient :: "('c, 'b) client"
  xsWire :: "'c wlEntry list list"
  xsServed :: "('c, 'b) served list"
  xsReplies :: "(goerr + 'b) list"
  xsStore :: 'w
  xsPanic :: "string option"
  xsCrash :: "string option"
  xsAsked :: "(nat \<times> 'c) list"

definition exInit :: "string \<Rightarrow> 'w \<Rightarrow> ('c, 'b, 'w) exSystem" where
  "exInit p w = \<lparr>xsClient = NewClient p, xsWire = [], xsServed = [], xsReplies = [], xsStore = w, xsPanic = None,
     xsCrash = None, xsAsked = []\<rparr>"

definition setServed :: "nat \<Rightarrow> ('c, 'b) served \<Rightarrow> ('c, 'b, 'w) exSystem \<Rightarrow> ('c, 'b, 'w) exSystem" where
  "setServed g sd s = s\<lparr>xsServed := (xsServed s)[g := sd]\<rparr>"

text \<open>A request: the wants are registered and one message is written to the stream.\<close>

definition askFor :: "('c \<Rightarrow> string) \<Rightarrow> (nat \<Rightarrow> string) \<Rightarrow> goerr option \<Rightarrow> goerr option \<Rightarrow> 'c list \<Rightarrow> ('c, 'b, 'w) exSystem
    \<Rightarrow> (nat list \<times> ('c, 'b, 'w) exSystem) option" where
  "askFor cidString newUuid streamErr netErr cids s =
     (case getBlockFromPeer cidString newUuid streamErr netErr cids (xsClient s) of
        Ret (Inr chs, cl) \<Rightarrow>
          Some (chs, s\<lparr>xsClient := cl, xsWire := xsWire s @ [map wantEntry cids], xsAsked := xsAsked s @ zip chs cids\<rparr>)
      | _ \<Rightarrow> None)"

text \<open>
  Goroutine \<open>i\<close> of message \<open>g\<close> reads its block; the error of the store and a want that is
  not for a block panic.
\<close>

definition fetchEntry :: "('c, 'b, 'w) blockstore \<Rightarrow> nat \<Rightarrow> nat \<Rightarrow> ('c, 'b, 'w) exSystem \<Rightarrow> ('c, 'b, 'w) exSystem" where
  "fetchEntry bs g i s =
     (let sd = xsServed s ! g
      in case entryMsg bs (sdEntries sd ! i) (xsStore s) of
           (Ret blk, w) \<Rightarrow> (setServed g (sd\<lparr>sdBlocks := (sdBlocks sd)[i := Some blk]\<rparr>) s)\<lparr>xsStore := w\<rparr>
         | (Panic msg, w) \<Rightarrow> s\<lparr>xsStore := w, xsPanic := Some msg\<rparr>)"

text \<open>
  What an attempt that did not end well leaves at the client: nothing, a stream that breaks
  off before the message is complete, or a whole message all the same.
\<close>

datatype arrival = Lost | Broken goerr | Whole

fun leftBehind :: "arrival \<Rightarrow> 'b \<Rightarrow> (goerr + 'b) list" where
  "leftBehind Lost blk = []"
| "leftBehind (Broken err) blk = [Inl err]"
| "leftBehind Whole blk = [Inr blk]"

text \<open>
  The goroutine takes a step of its retry loop. The message arrives when the attempt reports
  no error.
\<close>

definition tryEntry :: "(nat \<Rightarrow> nat \<Rightarrow> nat \<Rightarrow> goerr option) \<Rightarrow> arrival \<Rightarrow> nat \<Rightarrow> nat \<Rightarrow> 'b \<Rightarrow> ('c, 'b, 'w) exSystem
    \<Rightarrow> ('c, 'b, 'w) exSystem" where
  "tryEntry attempt arrived g i blk s =
     (let sd = xsServed s ! g;
          srv = srvStep (attempt g) i (sdSrv sd);
          attempted = (\<exists>t. srvPcs (sdSrv sd) ! i = Attempt t \<and> srvPcs srv ! i = Test t);
          sent = (srvSent srv \<noteq> srvSent (sdSrv sd))
      in (setServed g (sd\<lparr>sdSrv := srv\<rparr>) s)
           \<lparr>xsReplies := xsReplies s @ (if sent then [Inr blk] else if attempted then leftBehind arrived blk else []),
            xsPanic := srvPanic srv\<rparr>)"

text \<open>The process ends while the goroutine is in an attempt.\<close>

definition cutEntry :: "arrival \<Rightarrow> nat \<Rightarrow> nat \<Rightarrow> 'b \<Rightarrow> ('c, 'b, 'w) exSystem \<Rightarrow> ('c, 'b, 'w) exSystem" where
  "cutEntry arrived g i blk s =
     (let sd = xsServed s ! g;
          srv = (sdSrv sd)\<lparr>srvPcs := (srvPcs (sdSrv sd))[i := Ended]\<rparr>
      in (setServed g (sd\<lparr>sdSrv := srv\<rparr>) s)\<lparr>xsReplies := xsReplies s @ leftBehind arrived blk\<rparr>)"

text \<open>
  The steps that need no caller: the server reads a message, its goroutines read blocks and
  send, and handlers of the client run. A panic of the server stops the server only, and one
  of the client the client only. A handler panics when it cannot read its message.
  \<open>allowed\<close> restricts the requests of a run.
\<close>

inductive exWork :: "('c \<Rightarrow> string) \<Rightarrow> ('b \<Rightarrow> 'c) \<Rightarrow> ((string \<rightharpoonup> nat) \<Rightarrow> (string \<times> nat) list) \<Rightarrow> ('c, 'b, 'w) blockstore
    \<Rightarrow> (nat \<Rightarrow> nat \<Rightarrow> nat \<Rightarrow> goerr option) \<Rightarrow> ('c, 'b, 'w) exSystem \<Rightarrow> ('c, 'b, 'w) exSystem \<Rightarrow> bool"
  for cidString blkCid iter bs attempt where
  read: "xsPanic s = None \<Longrightarrow> xsWire s = wl # wire \<Longrightarrow> checkEntries wl = Ret es \<Longrightarrow>
     exWork cidString blkCid iter bs attempt s (s\<lparr>xsWire := wire, xsServed := xsServed s @ [serveEntries es]\<rparr>)"
| read_panic: "xsPanic s = None \<Longrightarrow> xsWire s = wl # wire \<Longrightarrow> checkEntries wl = Panic msg \<Longrightarrow>
     exWork cidString blkCid iter bs attempt s (s\<lparr>xsWire := wire, xsPanic := Some msg\<rparr>)"
| fetch: "xsPanic s = None \<Longrightarrow> g < length (xsServed s) \<Longrightarrow> i < length (sdBlocks (xsServed s ! g)) \<Longrightarrow>
     sdBlocks (xsServed s ! g) ! i = None \<Longrightarrow>
     exWork cidString blkCid iter bs attempt s (fetchEntry bs g i s)"
| retry: "xsPanic s = None \<Longrightarrow> g < length (xsServed s) \<Longrightarrow> i < length (sdBlocks (xsServed s ! g)) \<Longrightarrow>
     sdBlocks (xsServed s ! g) ! i = Some blk \<Longrightarrow> srvPcs (sdSrv (xsServed s ! g)) ! i \<noteq> Ended \<Longrightarrow>
     exWork cidString blkCid iter bs attempt s (tryEntry attempt arrived g i blk s)"
| cut: "xsPanic s \<noteq> None \<Longrightarrow> g < length (xsServed s) \<Longrightarrow> i < length (sdBlocks (xsServed s ! g)) \<Longrightarrow>
     sdBlocks (xsServed s ! g) ! i = Some blk \<Longrightarrow> srvPcs (sdSrv (xsServed s ! g)) ! i = Attempt t \<Longrightarrow>
     exWork cidString blkCid iter bs attempt s (cutEntry arrived g i blk s)"
| broken: "xsCrash s = None \<Longrightarrow> Inl err \<in> set (xsReplies s) \<Longrightarrow>
     handleStart cidString blkCid iter (clPeer (xsClient s)) (Inl err) (xsClient s) = Panic msg \<Longrightarrow>
     exWork cidString blkCid iter bs attempt s (s\<lparr>xsReplies := remove1 (Inl err) (xsReplies s), xsCrash := Some msg\<rparr>)"
| handle: "xsCrash s = None \<Longrightarrow> Inr blk \<in> set (xsReplies s) \<Longrightarrow> clHandler (xsClient s) = None \<Longrightarrow>
     handleStart cidString blkCid iter (clPeer (xsClient s)) (Inr ([], [blk])) (xsClient s) = Ret cl \<Longrightarrow>
     exWork cidString blkCid iter bs attempt s (s\<lparr>xsClient := cl, xsReplies := remove1 (Inr blk) (xsReplies s)\<rparr>)"
| send: "xsCrash s = None \<Longrightarrow> handleSend (xsClient s) = Some cl \<Longrightarrow>
     exWork cidString blkCid iter bs attempt s (s\<lparr>xsClient := cl\<rparr>)"
| finish: "xsCrash s = None \<Longrightarrow> handleEnd (xsClient s) = Some cl \<Longrightarrow>
     exWork cidString blkCid iter bs attempt s (s\<lparr>xsClient := cl\<rparr>)"

text \<open>Every step: also the requests of callers, whose message is written, and their receives.\<close>

inductive exStep :: "('c list \<Rightarrow> ('c, 'b) client \<Rightarrow> bool) \<Rightarrow> ('c \<Rightarrow> string) \<Rightarrow> (nat \<Rightarrow> string) \<Rightarrow> ('b \<Rightarrow> 'c)
    \<Rightarrow> ((string \<rightharpoonup> nat) \<Rightarrow> (string \<times> nat) list) \<Rightarrow> ('c, 'b, 'w) blockstore \<Rightarrow> (nat \<Rightarrow> nat \<Rightarrow> nat \<Rightarrow> goerr option)
    \<Rightarrow> ('c, 'b, 'w) exSystem \<Rightarrow> ('c, 'b, 'w) exSystem \<Rightarrow> bool"
  for allowed cidString newUuid blkCid iter bs attempt where
  ask: "xsCrash s = None \<Longrightarrow> clHandler (xsClient s) = None \<Longrightarrow> allowed cids (xsClient s) \<Longrightarrow>
     askFor cidString newUuid streamErr netErr cids s = Some (chs, s') \<Longrightarrow>
     exStep allowed cidString newUuid blkCid iter bs attempt s s'"
| work: "exWork cidString blkCid iter bs attempt s s' \<Longrightarrow>
     exStep allowed cidString newUuid blkCid iter bs attempt s s'"
| receive: "xsCrash s = None \<Longrightarrow> receiveFrom ch (xsClient s) = Some (v, cl) \<Longrightarrow>
     exStep allowed cidString newUuid blkCid iter bs attempt s (s\<lparr>xsClient := cl\<rparr>)"

inductive exReach :: "('c list \<Rightarrow> ('c, 'b) client \<Rightarrow> bool) \<Rightarrow> ('c \<Rightarrow> string) \<Rightarrow> (nat \<Rightarrow> string) \<Rightarrow> ('b \<Rightarrow> 'c)
    \<Rightarrow> ((string \<rightharpoonup> nat) \<Rightarrow> (string \<times> nat) list) \<Rightarrow> ('c, 'b, 'w) blockstore \<Rightarrow> (nat \<Rightarrow> nat \<Rightarrow> nat \<Rightarrow> goerr option)
    \<Rightarrow> string \<Rightarrow> 'w \<Rightarrow> ('c, 'b, 'w) exSystem \<Rightarrow> bool"
  for allowed cidString newUuid blkCid iter bs attempt p w where
  start: "exReach allowed cidString newUuid blkCid iter bs attempt p w (exInit p w)"
| step: "exReach allowed cidString newUuid blkCid iter bs attempt p w s \<Longrightarrow>
     exStep allowed cidString newUuid blkCid iter bs attempt s s' \<Longrightarrow>
     exReach allowed cidString newUuid blkCid iter bs attempt p w s'"

declare exWork.intros [step_intros] exStep.intros [step_intros] exReach.intros [step_intros]

inductive_cases exWorkE: "exWork cidString blkCid iter bs attempt s s'"

section \<open>The client inside the system\<close>

lemma setServed_fields [simp]:
  "xsClient (setServed g sd s) = xsClient s" "xsWire (setServed g sd s) = xsWire s"
  "xsReplies (setServed g sd s) = xsReplies s" "xsStore (setServed g sd s) = xsStore s"
  "xsPanic (setServed g sd s) = xsPanic s" "xsCrash (setServed g sd s) = xsCrash s" "xsAsked (setServed g sd s) = xsAsked s"
  "xsServed (setServed g sd s) = (xsServed s)[g := sd]"
  by (simp_all add: setServed_def)

lemma fetchEntry_frame [simp]:
  "xsClient (fetchEntry bs g i s) = xsClient s" "xsWire (fetchEntry bs g i s) = xsWire s"
  "xsReplies (fetchEntry bs g i s) = xsReplies s" "xsAsked (fetchEntry bs g i s) = xsAsked s"
  "xsCrash (fetchEntry bs g i s) = xsCrash s"
  by (auto simp: fetchEntry_def Let_def split: prod.splits outcome.splits)

lemma tryEntry_frame [simp]:
  "xsClient (tryEntry attempt arrived g i blk s) = xsClient s" "xsWire (tryEntry attempt arrived g i blk s) = xsWire s"
  "xsStore (tryEntry attempt arrived g i blk s) = xsStore s" "xsAsked (tryEntry attempt arrived g i blk s) = xsAsked s"
  "xsCrash (tryEntry attempt arrived g i blk s) = xsCrash s"
  by (simp_all add: tryEntry_def Let_def)

lemma cutEntry_frame [simp]:
  "xsClient (cutEntry arrived g i blk s) = xsClient s" "xsWire (cutEntry arrived g i blk s) = xsWire s"
  "xsStore (cutEntry arrived g i blk s) = xsStore s" "xsAsked (cutEntry arrived g i blk s) = xsAsked s"
  "xsCrash (cutEntry arrived g i blk s) = xsCrash s" "xsPanic (cutEntry arrived g i blk s) = xsPanic s"
  by (simp_all add: cutEntry_def Let_def)

lemma leftBehind_set: "Inr b \<in> set (leftBehind arrived blk) \<Longrightarrow> b = blk" "length (leftBehind arrived blk) \<le> 1"
  by (cases arrived; simp)+

lemma checkEntries_all: "checkEntries wl = Ret es \<Longrightarrow> es = wl"
  by (induction wl arbitrary: es) (auto split: if_splits outcome.splits)

lemma askFor_SomeE:
  assumes "askFor cidString newUuid streamErr netErr cids s = Some (chs, s')"
  obtains cl where "getBlockFromPeer cidString newUuid streamErr netErr cids (xsClient s) = Ret (Inr chs, cl)"
    and "s' = s\<lparr>xsClient := cl, xsWire := xsWire s @ [map wantEntry cids], xsAsked := xsAsked s @ zip chs cids\<rparr>"
  using assms by (auto simp: askFor_def split: outcome.splits sum.splits)

text \<open>A step of the system leaves the client alone or is a step of the client.\<close>

lemma exStep_client:
  assumes "exStep allowed cidString newUuid blkCid iter bs attempt s s'"
  shows "xsClient s' = xsClient s \<or> clientStep allowed cidString newUuid blkCid iter (xsClient s) (xsClient s')"
  using assms
proof cases
  case (ask cids streamErr netErr chs)
  then show ?thesis by (auto elim!: askFor_SomeE intro: clientStep.request)
next
  case work
  then show ?thesis
  proof cases
    case (handle blk cl)
    then show ?thesis
      using clientStep.response [of "xsClient s" blkCid "[blk]" cidString iter "clPeer (xsClient s)" "[]" cl] by simp
  qed (auto intro: clientStep.intros)
next
  case (receive ch v cl)
  then show ?thesis by (auto intro: clientStep.receive)
qed

lemma exReach_client:
  assumes "exReach allowed cidString newUuid blkCid iter bs attempt p w s"
  shows "clientReach allowed cidString newUuid blkCid iter p (xsClient s)"
  using assms
proof induction
  case start
  then show ?case by (simp add: exInit_def clientReach.start)
next
  case (step s s')
  then show ?case using exStep_client [OF step.hyps(2)] by (metis clientReach.step)
qed

lemma clientReach_mono:
  assumes "clientReach allowed cidString newUuid blkCid iter p cl" and "\<And>cids cl. allowed cids cl \<Longrightarrow> allowed' cids cl"
  shows "clientReach allowed' cidString newUuid blkCid iter p cl"
  using assms(1)
proof induction
  case (step cl cl')
  from step.hyps(2) have "clientStep allowed' cidString newUuid blkCid iter cl cl'"
    by cases (auto intro: clientStep.intros assms(2))
  then show ?case using step.IH by (rule clientReach.step [rotated])
qed (rule clientReach.start)

lemma addWants_peer: "clPeer (snd (addWants cidString newUuid cids cl)) = clPeer cl"
  by (induction cids arbitrary: cl) (simp_all add: addWants_Cons split_beta del: addWants.simps(2))

lemma clientStep_peer:
  assumes "clientStep allowed cidString newUuid blkCid iter cl cl'"
  shows "clPeer cl' = clPeer cl"
  using assms
proof cases
  case (request cids streamErr netErr r)
  then show ?thesis
    by (auto simp: getBlockFromPeer_def openStream_def Let_def split_beta addWants_peer split: if_splits option.splits)
qed (auto simp: handleStart_def pushChan_def receiveFrom_def Let_def elim!: handleSend_SomeE handleEnd_SomeE
      split: if_splits list.splits)

lemma clientReach_peer: "clientReach allowed cidString newUuid blkCid iter p cl \<Longrightarrow> clPeer cl = p"
  by (induction rule: clientReach.induct) (simp_all add: NewClient_def clientStep_peer)

section \<open>What was asked for\<close>

lemma addWants_chans: "fst (addWants cidString newUuid cids cl) = [clNext cl ..< clNext cl + length cids]
    \<and> clNext (snd (addWants cidString newUuid cids cl)) = clNext cl + length cids"
  by (induction cids arbitrary: cl) (simp_all add: addWants_Cons split_beta upt_rec del: addWants.simps(2))

text \<open>The effect of a request on the table of wants.\<close>

lemma request_effect:
  assumes "inj cidString" and "freshWants cidString cids cl"
    and "getBlockFromPeer cidString newUuid streamErr netErr cids cl = Ret (Inr chs, cl')"
  shows "registered cl' k r ch \<longleftrightarrow> registered cl k r ch \<or>
      (\<exists>i < length cids. k = wantsKey cidString (cids ! i) (clPeer cl) \<and> ch = chs ! i \<and> r = newUuid ch)"
    and "chs = [clNext cl ..< clNext cl + length cids]" and "clNext cl' = clNext cl + length cids"
    and "clDelivered cl' = clDelivered cl" and "clHandler cl' = clHandler cl" and "clPeer cl' = clPeer cl"
proof -
  obtain cl0 where o: "openStream streamErr cl = Inr cl0"
    using assms(3) by (auto simp: getBlockFromPeer_def split: sum.splits)
  then have f: "clPeer cl0 = clPeer cl" "clWants cl0 = clWants cl" "clNext cl0 = clNext cl" "clDelivered cl0 = clDelivered cl"
      "clHandler cl0 = clHandler cl"
    by (auto simp: openStream_def split: if_splits option.splits)
  then have "freshWants cidString cids cl0" using assms(2) by (simp add: freshWants_def registered_def)
  note reg = addWants_registered [OF assms(1) this, of newUuid]
  have eq: "chs = fst (addWants cidString newUuid cids cl0)"
      "clWants cl' = clWants (snd (addWants cidString newUuid cids cl0))"
      "clNext cl' = clNext (snd (addWants cidString newUuid cids cl0))"
      "clDelivered cl' = clDelivered (snd (addWants cidString newUuid cids cl0))"
      "clHandler cl' = clHandler (snd (addWants cidString newUuid cids cl0))"
      "clPeer cl' = clPeer (snd (addWants cidString newUuid cids cl0))"
    using assms(3) o by (auto simp: getBlockFromPeer_def Let_def split: prod.splits option.splits)
  show "registered cl' k r ch \<longleftrightarrow> registered cl k r ch \<or>
      (\<exists>i < length cids. k = wantsKey cidString (cids ! i) (clPeer cl) \<and> ch = chs ! i \<and> r = newUuid ch)"
    using reg [of k r ch] f eq by (simp add: registered_def)
  show "chs = [clNext cl ..< clNext cl + length cids]" "clNext cl' = clNext cl + length cids"
    using addWants_chans [of cidString newUuid cids cl0] f eq by simp_all
  show "clDelivered cl' = clDelivered cl" "clHandler cl' = clHandler cl" "clPeer cl' = clPeer cl"
    using f eq addWants_frame [of cidString newUuid cids cl0] by (simp_all add: addWants_idle addWants_peer)
qed

text \<open>
  The table and the channels against the record of requests: only what was asked for is
  registered or delivered, on the channel it was asked on; a request is registered or
  answered; what a handler is about to delete is answered. \<open>genuine\<close> holds of the blocks
  that replies carry.
\<close>

definition askedInv :: "('c \<Rightarrow> string) \<Rightarrow> ('b \<Rightarrow> 'c) \<Rightarrow> ('b \<Rightarrow> bool) \<Rightarrow> (nat \<times> 'c) list \<Rightarrow> ('c, 'b) client \<Rightarrow> bool" where
  "askedInv cidString blkCid genuine asked cl \<longleftrightarrow>
     (\<forall>k r ch b. (k, r, ch, b) \<in> set (workOf cl) \<longrightarrow> k = wantsKey cidString (blkCid b) (clPeer cl) \<and> genuine b) \<and>
     (\<forall>k r ch. registered cl k r ch \<longrightarrow> (\<exists>c. k = wantsKey cidString c (clPeer cl) \<and> (ch, c) \<in> set asked)) \<and>
     (\<forall>ch b. (ch, b) \<in> set (clDelivered cl) \<longrightarrow> (ch, blkCid b) \<in> set asked \<and> genuine b) \<and>
     (\<forall>ch c. (ch, c) \<in> set asked \<longrightarrow> ch < clNext cl) \<and>
     (\<forall>ch c. (ch, c) \<in> set asked \<longrightarrow> (\<exists>b. (ch, b) \<in> set (clDelivered cl)) \<or>
        (\<exists>r. registered cl (wantsKey cidString c (clPeer cl)) r ch)) \<and>
     (\<forall>k r ch. registered cl k r ch \<longrightarrow> delOf cl k = Some r \<longrightarrow> (\<exists>b. (ch, b) \<in> set (clDelivered cl))) \<and>
     distinct (map fst asked)"

lemma askedInvD:
  assumes "askedInv cidString blkCid genuine asked cl"
  shows "(k, r, ch, b) \<in> set (workOf cl) \<Longrightarrow> k = wantsKey cidString (blkCid b) (clPeer cl) \<and> genuine b"
    and "registered cl k r ch \<Longrightarrow> \<exists>c. k = wantsKey cidString c (clPeer cl) \<and> (ch, c) \<in> set asked"
    and "(ch, b) \<in> set (clDelivered cl) \<Longrightarrow> (ch, blkCid b) \<in> set asked \<and> genuine b"
    and "(ch, c) \<in> set asked \<Longrightarrow> ch < clNext cl"
    and "(ch, c) \<in> set asked \<Longrightarrow> (\<exists>b. (ch, b) \<in> set (clDelivered cl)) \<or>
        (\<exists>r. registered cl (wantsKey cidString c (clPeer cl)) r ch)"
    and "registered cl k r ch \<Longrightarrow> delOf cl k = Some r \<Longrightarrow> \<exists>b. (ch, b) \<in> set (clDelivered cl)"
    and "distinct (map fst asked)"
  using assms unfolding askedInv_def by metis+

lemma askedInvI:
  assumes "\<And>k r ch b. (k, r, ch, b) \<in> set (workOf cl) \<Longrightarrow> k = wantsKey cidString (blkCid b) (clPeer cl) \<and> genuine b"
    and "\<And>k r ch. registered cl k r ch \<Longrightarrow> \<exists>c. k = wantsKey cidString c (clPeer cl) \<and> (ch, c) \<in> set asked"
    and "\<And>ch b. (ch, b) \<in> set (clDelivered cl) \<Longrightarrow> (ch, blkCid b) \<in> set asked \<and> genuine b"
    and "\<And>ch c. (ch, c) \<in> set asked \<Longrightarrow> ch < clNext cl"
    and "\<And>ch c. (ch, c) \<in> set asked \<Longrightarrow> (\<exists>b. (ch, b) \<in> set (clDelivered cl)) \<or>
        (\<exists>r. registered cl (wantsKey cidString c (clPeer cl)) r ch)"
    and "\<And>k r ch. registered cl k r ch \<Longrightarrow> delOf cl k = Some r \<Longrightarrow> \<exists>b. (ch, b) \<in> set (clDelivered cl)"
    and "distinct (map fst asked)"
  shows "askedInv cidString blkCid genuine asked cl"
  unfolding askedInv_def using assms by blast

lemma askedInv_init: "askedInv cidString blkCid genuine [] (NewClient p)"
  by (simp add: askedInv_def NewClient_def registered_def workOf_def delOf_def)

lemma askedInv_request:
  assumes "inj cidString" and "freshWants cidString cids cl" and "clHandler cl = None"
    and "getBlockFromPeer cidString newUuid streamErr netErr cids cl = Ret (Inr chs, cl')"
    and inv: "askedInv cidString blkCid genuine asked cl"
  shows "askedInv cidString blkCid genuine (asked @ zip chs cids) cl'"
proof -
  note eff = request_effect [OF assms(1,2,4)] and D = askedInvD [OF inv]
  have zip: "(ch, c) \<in> set (zip chs cids) \<longleftrightarrow> (\<exists>i < length cids. ch = chs ! i \<and> c = cids ! i)" for ch c
    using eff(2) by (auto simp: set_zip)
  have len: "map fst (zip chs cids) = chs" using eff(2) by simp
  have "distinct (map fst asked @ chs)" using D(7) by (auto simp: eff(2) dest!: D(4))
  then have "distinct (map fst (asked @ zip chs cids))" by (simp add: len del: map_fst_zip)
  moreover have "ch < clNext cl'" if "(ch, c) \<in> set (asked @ zip chs cids)" for ch c
    using that D(4) [of ch c] unfolding eff(3) by (auto simp: zip) (simp add: eff(2))
  moreover have "workOf cl' = []" "delOf cl' = Map.empty" using assms(3) eff(5) by (simp_all add: workOf_def delOf_def)
  moreover have "\<exists>c. k = wantsKey cidString c (clPeer cl') \<and> (ch, c) \<in> set (asked @ zip chs cids)" if "registered cl' k r ch" for k r ch
    using that D(2) [of k r ch] unfolding eff(1,6) by (auto simp: zip)
  moreover have "(\<exists>b. (ch, b) \<in> set (clDelivered cl')) \<or> (\<exists>r. registered cl' (wantsKey cidString c (clPeer cl')) r ch)"
    if "(ch, c) \<in> set (asked @ zip chs cids)" for ch c
    using that D(5) [of ch c] unfolding eff(1,4,6) by (auto simp: zip)
  ultimately show ?thesis unfolding askedInv_def using D(3) eff(4) by auto
qed

lemma askedInv_start:
  assumes "map_iteration iter" and "clientInv cl" and "clHandler cl = None" and "genuine blk"
    and "handleStart cidString blkCid iter (clPeer cl) (Inr ([], [blk])) cl = Ret cl'"
    and inv: "askedInv cidString blkCid genuine asked cl"
  shows "askedInv cidString blkCid genuine asked cl'"
    and "registered cl' = registered cl" and "clDelivered cl' = clDelivered cl" and "delOf cl' = Map.empty"
    and "workOf cl' = blockSends cidString blkCid iter (clPeer cl) cl blk" and "clPeer cl' = clPeer cl"
proof -
  have cl': "cl' = cl\<lparr>clHandler := Some (blockSends cidString blkCid iter (clPeer cl) cl blk, Map.empty)\<rparr>"
    using assms(5) by (simp add: handleStart_def)
  show v: "registered cl' = registered cl" "clDelivered cl' = clDelivered cl" "delOf cl' = Map.empty" "clPeer cl' = clPeer cl"
    and w: "workOf cl' = blockSends cidString blkCid iter (clPeer cl) cl blk"
    by (simp_all add: cl' registered_def workOf_def delOf_def fun_eq_iff)
  have "clNext cl' = clNext cl" by (simp add: cl')
  then show "askedInv cidString blkCid genuine asked cl'"
    using inv assms(4) unfolding askedInv_def v w by (auto simp: map_iteration.blockSends_set [OF assms(1,2)])
qed

lemma askedInv_send:
  assumes "inj cidString" and "clientInv cl" and "handleSend cl = Some cl'"
    and inv: "askedInv cidString blkCid genuine asked cl"
  shows "askedInv cidString blkCid genuine asked cl'"
proof -
  note D = askedInvD [OF inv] and C = clientInvD [OF assms(2)]
  obtain k0 r0 ch0 b0 work toDelete where h: "clHandler cl = Some ((k0, r0, ch0, b0) # work, toDelete)"
    and cl': "cl' = (pushChan ch0 b0 cl)\<lparr>clHandler := Some (work, toDelete(k0 \<mapsto> r0))\<rparr>"
    using assms(3) by (rule handleSend_SomeE)
  have W: "workOf cl = (k0, r0, ch0, b0) # work" "delOf cl = toDelete" "workOf cl' = work" "delOf cl' = toDelete(k0 \<mapsto> r0)"
    using h by (simp_all add: cl' workOf_def delOf_def)
  have v: "registered cl' = registered cl" "clDelivered cl' = clDelivered cl @ [(ch0, b0)]" "clPeer cl' = clPeer cl" "clNext cl' = clNext cl"
    by (simp_all add: cl') (simp_all add: pushChan_def Let_def)
  have head: "registered cl k0 r0 ch0" using C(9) [of k0 r0 ch0 b0] W by simp
  have key: "k0 = wantsKey cidString (blkCid b0) (clPeer cl)" "genuine b0" using D(1) [of k0 r0 ch0 b0] W by simp_all
  then have asked: "(ch0, blkCid b0) \<in> set asked" using D(2) [OF head] by (auto simp: wantsKey_inj [OF assms(1)])
  have "\<exists>b. (ch, b) \<in> set (clDelivered cl')" if "registered cl k r ch" "(toDelete(k0 \<mapsto> r0)) k = Some r" for k r ch
  proof (cases "k = k0")
    case True
    then have "r = r0" using that(2) by simp
    then have "ch = ch0" using that(1) head True by (auto simp: registered_def split: option.splits)
    then show ?thesis using v(2) by auto
  next
    case False
    then show ?thesis using D(6) [OF that(1)] that(2) W(2) v(2) by auto
  qed
  then show ?thesis
  proof (intro askedInvI, unfold v(1,3,4) W(3,4))
    show "(\<exists>b. (ch, b) \<in> set (clDelivered cl')) \<or> (\<exists>r. registered cl (wantsKey cidString c (clPeer cl)) r ch)"
      if "(ch, c) \<in> set asked" for ch c
      using D(5) [OF that] unfolding v(2) by auto
    show "(ch, blkCid b) \<in> set asked \<and> genuine b" if "(ch, b) \<in> set (clDelivered cl')" for ch b
      using that D(3) [of ch b] asked key(2) unfolding v(2) by auto
    show "k = wantsKey cidString (blkCid b) (clPeer cl) \<and> genuine b" if "(k, r, ch, b) \<in> set work" for k r ch b
      using that D(1) [of k r ch b] W(1) by simp
  qed (use D(2,4,7) in blast)+
qed

lemma askedInv_end:
  assumes "handleEnd cl = Some cl'" and inv: "askedInv cidString blkCid genuine asked cl"
  shows "askedInv cidString blkCid genuine asked cl'"
proof -
  note D = askedInvD [OF inv] and reg = end_registered [OF assms(1)]
  have v: "clDelivered cl' = clDelivered cl" "clPeer cl' = clPeer cl" "clNext cl' = clNext cl" "workOf cl' = []" "delOf cl' = Map.empty"
    using assms(1) by (auto simp: workOf_def delOf_def elim!: handleEnd_SomeE)
  have "(\<exists>b. (ch, b) \<in> set (clDelivered cl)) \<or> (\<exists>r. registered cl' (wantsKey cidString c (clPeer cl)) r ch)"
    if "(ch, c) \<in> set asked" for ch c
    using D(5) [OF that] D(6) reg by blast
  then show ?thesis using inv unfolding askedInv_def v by (auto simp: reg)
qed

lemma askedInv_receive:
  assumes "receiveFrom ch cl = Some (v, cl')" and "askedInv cidString blkCid genuine asked cl"
  shows "askedInv cidString blkCid genuine asked cl'"
proof -
  have "registered cl' = registered cl" "workOf cl' = workOf cl" "delOf cl' = delOf cl" "clDelivered cl' = clDelivered cl"
      "clPeer cl' = clPeer cl" "clNext cl' = clNext cl"
    using assms(1) by (auto simp: receiveFrom_def registered_def workOf_def delOf_def fun_eq_iff split: list.splits)
  then show ?thesis using assms(2) by (simp add: askedInv_def)
qed

section \<open>Safety\<close>

text \<open>
  What replies carry comes from the store: the system's invariant, whatever fails. A
  request must not name a CID that is outstanding.
\<close>

locale exchange_system = map_iteration iter + block_store bs blkCid contents
  for iter :: "(string \<rightharpoonup> nat) \<Rightarrow> (string \<times> nat) list" and bs :: "('c, 'b, 'w) blockstore"
    and blkCid :: "'b \<Rightarrow> 'c" and contents :: "'w \<Rightarrow> 'c \<rightharpoonup> 'b" +
  fixes cidString :: "'c \<Rightarrow> string" and newUuid :: "nat \<Rightarrow> string" and attempt :: "nat \<Rightarrow> nat \<Rightarrow> nat \<Rightarrow> goerr option"
    and p :: string and w :: 'w and allowed :: "'c list \<Rightarrow> ('c, 'b) client \<Rightarrow> bool"
  assumes cidString_inj: "inj cidString"
    and allowed_fresh: "allowed cids cl \<Longrightarrow> freshWants cidString cids cl"
begin

abbreviation works :: "('c, 'b, 'w) exSystem \<Rightarrow> ('c, 'b, 'w) exSystem \<Rightarrow> bool" where
  "works \<equiv> exWork cidString blkCid iter bs attempt"

abbreviation steps :: "('c, 'b, 'w) exSystem \<Rightarrow> ('c, 'b, 'w) exSystem \<Rightarrow> bool" where
  "steps \<equiv> exStep allowed cidString newUuid blkCid iter bs attempt"

abbreviation reachable :: "('c, 'b, 'w) exSystem \<Rightarrow> bool" where
  "reachable \<equiv> exReach allowed cidString newUuid blkCid iter bs attempt p w"

definition stored :: "'b \<Rightarrow> bool" where
  "stored b \<longleftrightarrow> (\<exists>c. contents w c = Some b)"

definition servedOk :: "('c, 'b) served \<Rightarrow> bool" where
  "servedOk sd \<longleftrightarrow> length (sdBlocks sd) = length (sdEntries sd) \<and> length (srvPcs (sdSrv sd)) = length (sdEntries sd) \<and>
     (\<forall>i b. i < length (sdEntries sd) \<longrightarrow> sdBlocks sd ! i = Some b \<longrightarrow> contents w (weCid (sdEntries sd ! i)) = Some b)"

definition exSafe :: "('c, 'b, 'w) exSystem \<Rightarrow> bool" where
  "exSafe s \<longleftrightarrow> contents (xsStore s) = contents w \<and> (\<forall>sd \<in> set (xsServed s). servedOk sd) \<and>
     (xsPanic s = None \<longrightarrow> (\<forall>sd \<in> set (xsServed s). srvPanic (sdSrv sd) = None)) \<and>
     (\<forall>b. Inr b \<in> set (xsReplies s) \<longrightarrow> stored b) \<and> askedInv cidString blkCid stored (xsAsked s) (xsClient s)"

lemma reachable_client: "reachable s \<Longrightarrow> clientInv (xsClient s)"
  by (rule reach_inv [OF clientReach_mono [OF exReach_client allowed_fresh] map_iteration_axioms cidString_inj])

lemma reachable_peer: "reachable s \<Longrightarrow> clPeer (xsClient s) = p"
  by (rule clientReach_peer [OF exReach_client])

lemma entryMsg_contents:
  assumes "entryMsg bs e w1 = (r, w2)"
  shows "contents w2 = contents w1" and "r = Ret b \<Longrightarrow> contents w1 (weCid e) = Some b"
proof -
  show "contents w2 = contents w1"
    using assms get_frame [of "weCid e" w1] by (auto simp: entryMsg_def split: wantType.splits prod.splits sum.splits)
  show "contents w1 (weCid e) = Some b" if "r = Ret b"
    using assms that get_found [of w1 "weCid e"] get_missing [of w1 "weCid e"]
    by (cases "contents w1 (weCid e)") (auto simp: entryMsg_def split: wantType.splits prod.splits sum.splits)
qed

lemma fetchEntry_safe:
  assumes "exSafe s" and "g < length (xsServed s)" and "i < length (sdBlocks (xsServed s ! g))"
  shows "exSafe (fetchEntry bs g i s)"
proof -
  let ?sd = "xsServed s ! g"
  obtain r w2 where e: "entryMsg bs (sdEntries ?sd ! i) (xsStore s) = (r, w2)" by fastforce
  note c = entryMsg_contents [OF e]
  show ?thesis
  proof (cases r)
    case (Ret b)
    have "servedOk ?sd" using assms(1,2) by (simp add: exSafe_def)
    then have "servedOk (?sd\<lparr>sdBlocks := (sdBlocks ?sd)[i := Some b]\<rparr>)"
      using assms(1,3) c(2) [OF Ret] by (auto simp: servedOk_def exSafe_def nth_list_update)
    then show ?thesis
      using assms(1,2) c(1) e Ret by (auto simp: exSafe_def fetchEntry_def Let_def dest!: set_update_subset_insert [THEN subsetD])
  next
    case (Panic msg)
    then show ?thesis using assms(1) c(1) e by (simp add: exSafe_def fetchEntry_def)
  qed
qed

text \<open>A group of goroutines is replaced, and replies may follow.\<close>

lemma served_update_safe:
  assumes "exSafe s" and "g < length (xsServed s)" and "servedOk sd" and "\<And>b. Inr b \<in> set reps \<Longrightarrow> stored b"
    and "p' = None \<Longrightarrow> xsPanic s = None \<and> srvPanic (sdSrv sd) = None"
  shows "exSafe ((setServed g sd s)\<lparr>xsReplies := xsReplies s @ reps, xsPanic := p'\<rparr>)"
proof -
  have "set ((xsServed s)[g := sd]) \<subseteq> insert sd (set (xsServed s))" by (rule set_update_subset_insert)
  then show ?thesis using assms unfolding exSafe_def by auto
qed

lemma tryEntry_safe:
  assumes "exSafe s" and "xsPanic s = None" and "g < length (xsServed s)" and "i < length (sdBlocks (xsServed s ! g))"
    and "sdBlocks (xsServed s ! g) ! i = Some blk"
  shows "exSafe (tryEntry attempt arrived g i blk s)"
proof -
  let ?sd = "xsServed s ! g"
  have ok: "servedOk ?sd" using assms(1,3) by (simp add: exSafe_def)
  then have "servedOk (?sd\<lparr>sdSrv := srvStep (attempt g) i (sdSrv ?sd)\<rparr>)" by (simp add: servedOk_def srvStep_frame)
  moreover have "stored blk" using ok assms(4,5) by (auto simp: servedOk_def stored_def)
  ultimately show ?thesis
    unfolding tryEntry_def Let_def using assms(1-3)
    by (intro served_update_safe) (auto dest: leftBehind_set(1) split: if_splits)
qed

lemma cutEntry_safe:
  assumes "exSafe s" and "g < length (xsServed s)" and "i < length (sdBlocks (xsServed s ! g))"
    and "sdBlocks (xsServed s ! g) ! i = Some blk"
  shows "exSafe (cutEntry arrived g i blk s)"
proof -
  let ?sd = "xsServed s ! g"
  let ?sd' = "?sd\<lparr>sdSrv := (sdSrv ?sd)\<lparr>srvPcs := (srvPcs (sdSrv ?sd))[i := Ended]\<rparr>\<rparr>"
  have ok: "servedOk ?sd" using assms(1,2) by (simp add: exSafe_def)
  then have "servedOk ?sd'" by (simp add: servedOk_def)
  moreover have "stored blk" using ok assms(3,4) by (auto simp: servedOk_def stored_def)
  moreover have "xsPanic s = None \<Longrightarrow> srvPanic (sdSrv ?sd) = None" using assms(1,2) by (simp add: exSafe_def)
  moreover have "cutEntry arrived g i blk s = (setServed g ?sd' s)\<lparr>xsReplies := xsReplies s @ leftBehind arrived blk, xsPanic := xsPanic s\<rparr>"
    by (simp add: cutEntry_def Let_def setServed_def)
  ultimately show ?thesis
    using served_update_safe [OF assms(1,2), of ?sd' "leftBehind arrived blk" "xsPanic s"] by (auto dest: leftBehind_set(1))
qed

lemma step_safe:
  assumes "reachable s" and "exSafe s" and "steps s s'"
  shows "exSafe s'"
  using assms(3)
proof cases
  case (ask cids streamErr netErr chs)
  then show ?thesis
    using assms(2) askedInv_request [OF cidString_inj allowed_fresh [OF ask(3)] ask(2)]
    by (auto simp: exSafe_def elim!: askFor_SomeE)
next
  case (receive ch v cl)
  then show ?thesis using assms(2) by (auto simp: exSafe_def intro: askedInv_receive)
next
  case work
  then show ?thesis
  proof cases
    case (read wl wire es)
    then show ?thesis using assms(2) by (auto simp: exSafe_def servedOk_def serveEntries_def srvStart_def)
  next
    case (fetch g i)
    then show ?thesis using fetchEntry_safe [OF assms(2)] by simp
  next
    case (retry g i blk arrived)
    then show ?thesis using tryEntry_safe [OF assms(2)] by simp
  next
    case (cut g i blk t arrived)
    then show ?thesis using cutEntry_safe [OF assms(2)] by simp
  next
    case (broken err msg)
    then show ?thesis using assms(2) by (auto simp: exSafe_def dest: notin_set_remove1)
  next
    case (handle blk cl)
    then have "stored blk" using assms(2) by (simp add: exSafe_def)
    then have "askedInv cidString blkCid stored (xsAsked s) cl"
      using askedInv_start(1) [OF map_iteration_axioms reachable_client [OF assms(1)] handle(4) _ handle(5)] assms(2)
      by (simp add: exSafe_def)
    then show ?thesis using handle(1) assms(2) by (auto simp: exSafe_def dest: notin_set_remove1)
  next
    case (send cl)
    then show ?thesis
      using assms(2) askedInv_send [OF cidString_inj reachable_client [OF assms(1)] send(3)] by (simp add: exSafe_def)
  next
    case (finish cl)
    then show ?thesis using assms(2) askedInv_end [OF finish(3)] by (simp add: exSafe_def)
  qed (use assms(2) in \<open>simp add: exSafe_def\<close>)
qed

lemma reachable_safe: "reachable s \<Longrightarrow> exSafe s"
proof (induction rule: exReach.induct)
  case start
  then show ?case by (simp add: exSafe_def exInit_def askedInv_init)
next
  case (step s s')
  then show ?case by (blast intro: step_safe)
qed

end

end
