(* ===== verification/ExchangeSpec.thy ===== *)
theory ExchangeSpec
  imports ExchangeSystem
begin

text \<open>
  What the exchange of client.go and server.go promises, as an abstract machine: a set of
  pending requests, each with its channel, and the answers given. The system of theory
  ExchangeSystem refines it under every schedule and with every failure. When first attempts
  to send succeed and the requested blocks are in the store, the system also comes to rest,
  and then every request has its answer.
\<close>

section \<open>The abstract machine\<close>

record ('c, 'b) remote =
  rmPending :: "(nat \<times> 'c) set"
  rmAnswered :: "(nat \<times> 'b) set"

definition remoteInit :: "('c, 'b) remote" where
  "remoteInit = \<lparr>rmPending = {}, rmAnswered = {}\<rparr>"

text \<open>
  New requests come on channels never used before and for CIDs that are not pending; an
  answer takes a pending request and gives it the block of the store.
\<close>

inductive remoteStep :: "('c \<rightharpoonup> 'b) \<Rightarrow> ('c, 'b) remote \<Rightarrow> ('c, 'b) remote \<Rightarrow> bool" for store where
  ask: "length chs = length cids \<Longrightarrow> distinct chs \<Longrightarrow> distinct cids \<Longrightarrow>
     set chs \<inter> (fst ` rmPending a \<union> fst ` rmAnswered a) = {} \<Longrightarrow> set cids \<inter> snd ` rmPending a = {} \<Longrightarrow>
     remoteStep store a (a\<lparr>rmPending := rmPending a \<union> set (zip chs cids)\<rparr>)"
| answer: "(ch, c) \<in> rmPending a \<Longrightarrow> store c = Some b \<Longrightarrow>
     remoteStep store a \<lparr>rmPending = rmPending a - {(ch, c)}, rmAnswered = insert (ch, b) (rmAnswered a)\<rparr>"

text \<open>A want is pending until a handler has sent its block.\<close>

definition pendingOf :: "('c \<Rightarrow> string) \<Rightarrow> ('c, 'b) client \<Rightarrow> (nat \<times> 'c) set" where
  "pendingOf cidString cl = {(ch, c). \<exists>r. registered cl (wantsKey cidString c (clPeer cl)) r ch
     \<and> delOf cl (wantsKey cidString c (clPeer cl)) \<noteq> Some r}"

definition exAbs :: "('c \<Rightarrow> string) \<Rightarrow> ('c, 'b, 'w) exSystem \<Rightarrow> ('c, 'b) remote" where
  "exAbs cidString s = \<lparr>rmPending = pendingOf cidString (xsClient s), rmAnswered = set (clDelivered (xsClient s))\<rparr>"

lemma exAbs_init: "exAbs cidString (exInit p w) = remoteInit"
  by (simp add: exAbs_def pendingOf_def exInit_def remoteInit_def NewClient_def registered_def)

lemma exAbs_frame: "xsClient s' = xsClient s \<Longrightarrow> exAbs cidString s' = exAbs cidString s"
  by (simp add: exAbs_def)

section \<open>Simulation\<close>

context exchange_system
begin

lemma abs_ask:
  assumes "reachable s" and "clHandler (xsClient s) = None" and "allowed cids (xsClient s)"
    and "askFor cidString newUuid streamErr netErr cids s = Some (chs, s')"
  shows "remoteStep store (exAbs cidString s) (exAbs cidString s')"
proof -
  let ?cl = "xsClient s"
  obtain cl' where r: "getBlockFromPeer cidString newUuid streamErr netErr cids ?cl = Ret (Inr chs, cl')" and s': "xsClient s' = cl'"
    using assms(4) by (auto elim!: askFor_SomeE)
  have fresh: "freshWants cidString cids ?cl" by (rule allowed_fresh [OF assms(3)])
  note eff = request_effect [OF cidString_inj fresh r] and C = clientInvD [OF reachable_client [OF assms(1)]]
  have del: "delOf ?cl = Map.empty" "delOf cl' = Map.empty" using assms(2) eff(5) by (simp_all add: delOf_def)
  have zip: "(ch, c) \<in> set (zip chs cids) \<longleftrightarrow> (\<exists>i < length cids. ch = chs ! i \<and> c = cids ! i)" for ch c
    using eff(2) by (auto simp: set_zip)
  have "pendingOf cidString cl' = pendingOf cidString ?cl \<union> set (zip chs cids)"
    unfolding pendingOf_def eff(1,6) del by (auto simp: zip wantsKey_inj [OF cidString_inj]) blast
  then have abs: "exAbs cidString s' = (exAbs cidString s)\<lparr>rmPending := rmPending (exAbs cidString s) \<union> set (zip chs cids)\<rparr>"
    using eff(4) s' by (simp add: exAbs_def)
  have low: "ch < clNext ?cl" if "ch \<in> fst ` rmPending (exAbs cidString s) \<union> fst ` rmAnswered (exAbs cidString s)" for ch
  proof -
    have "ch < clNext ?cl" if "(ch, b) \<in> set (clDelivered ?cl)" for b
      using C(4) [of ch] that by (force simp: deliveredTo_def count_if_def filter_empty_conv)
    then show ?thesis using that C(1) by (auto simp: exAbs_def pendingOf_def)
  qed
  show ?thesis unfolding abs
  proof (rule remoteStep.ask)
    show "set chs \<inter> (fst ` rmPending (exAbs cidString s) \<union> fst ` rmAnswered (exAbs cidString s)) = {}"
      using low eff(2) by fastforce
    show "set cids \<inter> snd ` rmPending (exAbs cidString s) = {}"
      using fresh by (auto simp: freshWants_def exAbs_def pendingOf_def)
  qed (use eff(2) fresh in \<open>simp_all add: freshWants_def\<close>)
qed

lemma abs_send:
  assumes "reachable s" and "\<And>c b. contents w c = Some b \<Longrightarrow> blkCid b = c" and "handleSend (xsClient s) = Some cl'"
  shows "remoteStep (contents w) (exAbs cidString s) (exAbs cidString (s\<lparr>xsClient := cl'\<rparr>))"
proof -
  let ?cl = "xsClient s"
  note C = clientInvD [OF reachable_client [OF assms(1)]]
  have inv: "askedInv cidString blkCid stored (xsAsked s) ?cl" using reachable_safe [OF assms(1)] by (simp add: exSafe_def)
  obtain k0 r0 ch0 b0 work toDelete where h: "clHandler ?cl = Some ((k0, r0, ch0, b0) # work, toDelete)"
    and cl': "cl' = (pushChan ch0 b0 ?cl)\<lparr>clHandler := Some (work, toDelete(k0 \<mapsto> r0))\<rparr>"
    using assms(3) by (rule handleSend_SomeE)
  have W: "workOf ?cl = (k0, r0, ch0, b0) # work" "delOf ?cl = toDelete" "delOf cl' = toDelete(k0 \<mapsto> r0)"
    using h by (simp_all add: cl' workOf_def delOf_def)
  have v: "registered cl' = registered ?cl" "clDelivered cl' = clDelivered ?cl @ [(ch0, b0)]" "clPeer cl' = clPeer ?cl"
    by (simp_all add: cl') (simp_all add: pushChan_def Let_def)
  have head: "registered ?cl k0 r0 ch0" "toDelete k0 = None" using C(9) [of k0 r0 ch0 b0] W by simp_all
  have key: "k0 = wantsKey cidString (blkCid b0) (clPeer ?cl)" and "stored b0"
    using askedInvD(1) [OF inv, of k0 r0 ch0 b0] W by simp_all
  then have store: "contents w (blkCid b0) = Some b0" using assms(2) by (auto simp: stored_def)
  have "pendingOf cidString cl' = pendingOf cidString ?cl - {(ch0, blkCid b0)}"
  proof (intro set_eqI)
    fix x :: "nat \<times> 'c"
    obtain ch c where x: "x = (ch, c)" by (cases x)
    have k: "wantsKey cidString c (clPeer ?cl) = k0 \<longleftrightarrow> c = blkCid b0" by (simp add: key wantsKey_inj [OF cidString_inj])
    have one: "registered ?cl k0 r ch \<Longrightarrow> r = r0 \<and> ch = ch0" for r
      using C(2) [of k0 r ch r0 ch0] head(1) by (auto simp: registered_def split: option.splits)
    show "x \<in> pendingOf cidString cl' \<longleftrightarrow> x \<in> pendingOf cidString ?cl - {(ch0, blkCid b0)}"
      using k one head unfolding pendingOf_def v W x by (cases "c = blkCid b0") auto
  qed
  then have "exAbs cidString (s\<lparr>xsClient := cl'\<rparr>) = \<lparr>rmPending = rmPending (exAbs cidString s) - {(ch0, blkCid b0)},
      rmAnswered = insert (ch0, b0) (rmAnswered (exAbs cidString s))\<rparr>"
    using v(2) by (simp add: exAbs_def)
  moreover have "(ch0, blkCid b0) \<in> rmPending (exAbs cidString s)"
    using head key W by (auto simp: exAbs_def pendingOf_def)
  ultimately show ?thesis using remoteStep.answer [of ch0 "blkCid b0" "exAbs cidString s" "contents w" b0] store by simp
qed

lemma abs_end:
  assumes "handleEnd (xsClient s) = Some cl'"
  shows "exAbs cidString (s\<lparr>xsClient := cl'\<rparr>) = exAbs cidString s"
proof -
  have v: "clDelivered cl' = clDelivered (xsClient s)" "clPeer cl' = clPeer (xsClient s)" "delOf cl' = Map.empty"
    using assms by (auto simp: delOf_def elim!: handleEnd_SomeE)
  show ?thesis by (auto simp: exAbs_def pendingOf_def v end_registered [OF assms])
qed

lemma step_simulated:
  assumes "reachable s" and "\<And>c b. contents w c = Some b \<Longrightarrow> blkCid b = c" and "steps s s'"
  shows "exAbs cidString s' = exAbs cidString s \<or> remoteStep (contents w) (exAbs cidString s) (exAbs cidString s')"
  using assms(3)
proof cases
  case (ask cids streamErr netErr chs)
  then show ?thesis using abs_ask [OF assms(1)] by blast
next
  case (receive ch v cl)
  then have "pendingOf cidString cl = pendingOf cidString (xsClient s)" "clDelivered cl = clDelivered (xsClient s)"
    by (auto simp: receiveFrom_def pendingOf_def registered_def delOf_def split: list.splits)
  then show ?thesis using receive(1) by (simp add: exAbs_def)
next
  case work
  then show ?thesis
  proof cases
    case (handle blk cl)
    have "askedInv cidString blkCid stored (xsAsked s) (xsClient s)" "stored blk"
      using reachable_safe [OF assms(1)] handle(3) by (simp_all add: exSafe_def)
    note st = askedInv_start [OF map_iteration_axioms reachable_client [OF assms(1)] handle(4) this(2) handle(5) this(1)]
    have "delOf (xsClient s) = Map.empty" using handle(4) by (simp add: delOf_def)
    then show ?thesis using handle(1) by (simp add: exAbs_def pendingOf_def st)
  next
    case (send cl)
    then show ?thesis using abs_send [OF assms(1,2)] by simp
  next
    case (finish cl)
    then show ?thesis using abs_end [of s cl] by simp
  qed (simp_all add: exAbs_def)
qed

end

section \<open>Coming to rest\<close>

definition pcWeight :: "srvPc \<Rightarrow> nat" where
  "pcWeight pc = 4 * turnsLeft pc"

definition goWeight :: "'b option \<times> srvPc \<Rightarrow> nat" where
  "goWeight x = (if fst x = None then 1 else 0) + pcWeight (snd x)"

definition servedWeight :: "('c, 'b) served \<Rightarrow> nat" where
  "servedWeight sd = sum_list (map goWeight (zip (sdBlocks sd) (srvPcs (sdSrv sd))))"

definition handlerWeight :: "('c, 'b) client \<Rightarrow> nat" where
  "handlerWeight cl = (case clHandler cl of None \<Rightarrow> 0 | Some (work, _) \<Rightarrow> 1 + length work)"

definition aliveWeight :: "string option \<Rightarrow> nat" where
  "aliveWeight p = (if p = None then 1 else 0)"

text \<open>
  What is left to do: every step of \<open>exWork\<close> decreases it, whatever attempts fail. A turn of
  a goroutine weighs four, a reply three and a panic one; an entry on the wire has ten turns
  and a read of the store before it.
\<close>

definition exWeight :: "('c, 'b, 'w) exSystem \<Rightarrow> nat" where
  "exWeight s = sum_list (map (\<lambda>wl. 1 + 41 * length wl) (xsWire s)) + sum_list (map servedWeight (xsServed s))
     + 3 * length (xsReplies s) + handlerWeight (xsClient s) + aliveWeight (xsPanic s) + aliveWeight (xsCrash s)"

lemma serveEntries_weight: "servedWeight (serveEntries es) = 41 * length es"
proof -
  have "sum_list (map goWeight (zip (replicate n None) (replicate n (Attempt 0)))) = 41 * n" for n
    by (induction n) (simp_all add: goWeight_def pcWeight_def)
  then show ?thesis by (simp add: servedWeight_def serveEntries_def srvStart_def)
qed

lemma setServed_weight:
  assumes "g < length (xsServed s)"
  shows "exWeight (setServed g sd s) + servedWeight (xsServed s ! g) = exWeight s + servedWeight sd"
  using sum_list_update_nat [OF assms, of servedWeight sd] by (simp add: exWeight_def)

lemma servedWeight_pc:
  assumes "i < length (sdBlocks sd)" and "length (sdBlocks sd) = length (srvPcs (sdSrv sd))"
    and "srvPcs srv = (srvPcs (sdSrv sd))[i := pc]"
  shows "servedWeight (sd\<lparr>sdSrv := srv\<rparr>) + pcWeight (srvPcs (sdSrv sd) ! i) = servedWeight sd + pcWeight pc"
proof -
  have "zip (sdBlocks sd) ((srvPcs (sdSrv sd))[i := pc]) = (zip (sdBlocks sd) (srvPcs (sdSrv sd)))[i := (sdBlocks sd ! i, pc)]"
    using update_zip [of "sdBlocks sd" "srvPcs (sdSrv sd)" i "(sdBlocks sd ! i, pc)"] by simp
  then show ?thesis
    using sum_list_update_nat [of i "zip (sdBlocks sd) (srvPcs (sdSrv sd))" goWeight "(sdBlocks sd ! i, pc)"] assms
    by (simp add: servedWeight_def goWeight_def)
qed

lemma servedWeight_fetched:
  assumes "i < length (sdBlocks sd)" and "length (sdBlocks sd) = length (srvPcs (sdSrv sd))" and "sdBlocks sd ! i = None"
  shows "servedWeight (sd\<lparr>sdBlocks := (sdBlocks sd)[i := Some blk]\<rparr>) < servedWeight sd"
proof -
  have "zip ((sdBlocks sd)[i := Some blk]) (srvPcs (sdSrv sd)) = (zip (sdBlocks sd) (srvPcs (sdSrv sd)))[i := (Some blk, srvPcs (sdSrv sd) ! i)]"
    using update_zip [of "sdBlocks sd" "srvPcs (sdSrv sd)" i "(Some blk, srvPcs (sdSrv sd) ! i)"] by simp
  then show ?thesis
    using sum_list_update_nat [of i "zip (sdBlocks sd) (srvPcs (sdSrv sd))" goWeight "(Some blk, srvPcs (sdSrv sd) ! i)"] assms
    by (simp add: servedWeight_def goWeight_def)
qed

text \<open>A step of a retry loop: the goroutine comes nearer to its end, or it panics.\<close>

lemma srvStep_progress:
  assumes "i < length (srvPcs s)" and "srvPanic s = None" and "srvPcs s ! i \<noteq> Ended"
  shows "(srvPanic (srvStep att i s) \<noteq> None \<and> srvPcs (srvStep att i s) = srvPcs s \<and> srvSent (srvStep att i s) = srvSent s) \<or>
    (\<exists>pc. srvPanic (srvStep att i s) = None \<and> srvPcs (srvStep att i s) = (srvPcs s)[i := pc] \<and> turnsLeft pc < turnsLeft (srvPcs s ! i))"
proof (cases "srvPcs s ! i")
  case (Test t)
  have "turnsLeft (Logging (t + 1)) < turnsLeft (Test t)" by (simp add: diff_mult_distrib2) linarith
  then show ?thesis using Test assms by (cases "srvErr s") (fastforce simp: srvStep_def)+
qed (use assms in \<open>auto simp: srvStep_def maxTries_def\<close>)

context exchange_system
begin

text \<open>The handler of a reply has at most one send.\<close>

lemma blockSends_one:
  assumes "clientInv cl"
  shows "length (blockSends cidString blkCid iter q cl b) \<le> 1"
proof -
  let ?xs = "blockSends cidString blkCid iter q cl b"
  have "set (map fst ?xs) \<subseteq> {wantsKey cidString (blkCid b) q}" by (auto simp: blockSends_set [OF assms])
  then have "card (set (map fst ?xs)) \<le> 1" using card_mono [of "{wantsKey cidString (blkCid b) q}"] by fastforce
  then show ?thesis using distinct_card [OF blockSends_keys [OF assms, of cidString blkCid q b]] by simp
qed

lemma retry_decreases:
  assumes "exSafe s" and "xsPanic s = None" and g: "g < length (xsServed s)" and i: "i < length (sdBlocks (xsServed s ! g))"
    and "srvPcs (sdSrv (xsServed s ! g)) ! i \<noteq> Ended"
  shows "exWeight (tryEntry attempt arrived g i blk s) < exWeight s"
proof -
  let ?sd = "xsServed s ! g"
  let ?srv = "srvStep (attempt g) i (sdSrv ?sd)"
  let ?reps = "xsReplies (tryEntry attempt arrived g i blk s)"
  have len: "length (sdBlocks ?sd) = length (srvPcs (sdSrv ?sd))" and np: "srvPanic (sdSrv ?sd) = None"
    using assms(1,2) g by (simp_all add: exSafe_def servedOk_def)
  have s': "tryEntry attempt arrived g i blk s = (setServed g (?sd\<lparr>sdSrv := ?srv\<rparr>) s)\<lparr>xsReplies := ?reps, xsPanic := srvPanic ?srv\<rparr>"
    by (simp add: tryEntry_def Let_def)
  have wt: "exWeight (tryEntry attempt arrived g i blk s) + servedWeight ?sd + 3 * length (xsReplies s) + 1 =
      exWeight s + servedWeight (?sd\<lparr>sdSrv := ?srv\<rparr>) + 3 * length ?reps + aliveWeight (srvPanic ?srv)"
    using setServed_weight [OF g, of "?sd\<lparr>sdSrv := ?srv\<rparr>"] assms(2) by (subst s') (simp add: exWeight_def aliveWeight_def)
  have reps: "?reps = xsReplies s @ (if srvSent ?srv \<noteq> srvSent (sdSrv ?sd) then [Inr blk]
      else if \<exists>t. srvPcs (sdSrv ?sd) ! i = Attempt t \<and> srvPcs ?srv ! i = Test t then leftBehind arrived blk else [])"
    by (simp add: tryEntry_def Let_def)
  then have more: "length ?reps \<le> length (xsReplies s) + 1" using leftBehind_set(2) [of arrived blk] by simp
  from i len have il: "i < length (srvPcs (sdSrv ?sd))" by simp
  from srvStep_progress [OF il np assms(5), of "attempt g"] show ?thesis
  proof (elim disjE exE conjE)
    assume p: "srvPanic ?srv \<noteq> None" "srvPcs ?srv = srvPcs (sdSrv ?sd)" "srvSent ?srv = srvSent (sdSrv ?sd)"
    then have "length ?reps = length (xsReplies s)" unfolding reps by auto
    moreover have "servedWeight (?sd\<lparr>sdSrv := ?srv\<rparr>) = servedWeight ?sd" using p(2) by (simp add: servedWeight_def)
    ultimately show ?thesis using wt p(1) by (simp add: aliveWeight_def)
  next
    fix pc assume p: "srvPanic ?srv = None" "srvPcs ?srv = (srvPcs (sdSrv ?sd))[i := pc]" "turnsLeft pc < turnsLeft (srvPcs (sdSrv ?sd) ! i)"
    then show ?thesis using wt more servedWeight_pc [OF i len p(2)] by (simp add: aliveWeight_def pcWeight_def)
  qed
qed

lemma cut_decreases:
  assumes "exSafe s" and g: "g < length (xsServed s)" and i: "i < length (sdBlocks (xsServed s ! g))"
    and "srvPcs (sdSrv (xsServed s ! g)) ! i = Attempt t"
  shows "exWeight (cutEntry arrived g i blk s) < exWeight s"
proof -
  let ?sd = "xsServed s ! g"
  let ?srv = "(sdSrv ?sd)\<lparr>srvPcs := (srvPcs (sdSrv ?sd))[i := Ended]\<rparr>"
  have len: "length (sdBlocks ?sd) = length (srvPcs (sdSrv ?sd))" using assms(1) g by (simp add: exSafe_def servedOk_def)
  have "exWeight (cutEntry arrived g i blk s) + servedWeight ?sd = exWeight s + servedWeight (?sd\<lparr>sdSrv := ?srv\<rparr>) + 3 * length (leftBehind arrived blk)"
    using setServed_weight [OF g, of "?sd\<lparr>sdSrv := ?srv\<rparr>"] by (simp add: cutEntry_def Let_def exWeight_def)
  moreover have "servedWeight (?sd\<lparr>sdSrv := ?srv\<rparr>) + pcWeight (Attempt t) = servedWeight ?sd + pcWeight Ended"
    using servedWeight_pc [OF i len, of ?srv Ended] assms(4) by simp
  moreover have "4 \<le> pcWeight (Attempt t)" "pcWeight Ended = 0" by (simp_all add: pcWeight_def)
  ultimately show ?thesis using leftBehind_set(2) [of arrived blk] by linarith
qed

lemma fetch_decreases:
  assumes "exSafe s" and "xsPanic s = None" and g: "g < length (xsServed s)" and i: "i < length (sdBlocks (xsServed s ! g))"
    and "sdBlocks (xsServed s ! g) ! i = None"
  shows "exWeight (fetchEntry bs g i s) < exWeight s"
proof -
  let ?sd = "xsServed s ! g"
  obtain r w2 where e: "entryMsg bs (sdEntries ?sd ! i) (xsStore s) = (r, w2)" by fastforce
  show ?thesis
  proof (cases r)
    case (Ret blk)
    have len: "length (sdBlocks ?sd) = length (srvPcs (sdSrv ?sd))" using assms(1) g by (simp add: exSafe_def servedOk_def)
    have "exWeight (fetchEntry bs g i s) = exWeight (setServed g (?sd\<lparr>sdBlocks := (sdBlocks ?sd)[i := Some blk]\<rparr>) s)"
      using e Ret by (simp add: fetchEntry_def Let_def exWeight_def)
    then show ?thesis using setServed_weight [OF g] servedWeight_fetched [OF i len assms(5), of blk] by (metis add_less_cancel_left add_less_cancel_right add.commute)
  next
    case (Panic msg)
    then show ?thesis using e assms(2) by (simp add: fetchEntry_def exWeight_def aliveWeight_def)
  qed
qed

lemma remove_reply: "r \<in> set rs \<Longrightarrow> length rs = Suc (length (remove1 r rs))"
  using length_pos_if_in_set [of r rs] by (simp add: length_remove1)

lemma work_decreases:
  assumes "reachable s" and "works s s'"
  shows "exWeight s' < exWeight s"
  using assms(2)
proof cases
  case (read wl wire es)
  then show ?thesis using checkEntries_all [of wl es] by (simp add: exWeight_def serveEntries_weight)
next
  case (read_panic wl wire msg)
  then show ?thesis by (simp add: exWeight_def aliveWeight_def)
next
  case (fetch g i)
  then show ?thesis using fetch_decreases [OF reachable_safe [OF assms(1)]] by simp
next
  case (retry g i blk arrived)
  then show ?thesis using retry_decreases [OF reachable_safe [OF assms(1)]] by simp
next
  case (cut g i blk t arrived)
  then show ?thesis using cut_decreases [OF reachable_safe [OF assms(1)]] by simp
next
  case (broken err msg)
  then show ?thesis using remove_reply [OF broken(3)] by (simp add: exWeight_def aliveWeight_def)
next
  case (handle blk cl)
  moreover have "cl = (xsClient s)\<lparr>clHandler := Some (blockSends cidString blkCid iter (clPeer (xsClient s)) (xsClient s) blk, Map.empty)\<rparr>"
    using handle(5) by (simp add: handleStart_def)
  ultimately show ?thesis
    using remove_reply [OF handle(3)] blockSends_one [OF reachable_client [OF assms(1)], of "clPeer (xsClient s)" blk]
    by (simp add: exWeight_def handlerWeight_def)
next
  case (send cl)
  then show ?thesis by (auto simp: exWeight_def handlerWeight_def elim!: handleSend_SomeE)
next
  case (finish cl)
  then show ?thesis by (auto simp: exWeight_def handlerWeight_def elim!: handleEnd_SomeE)
qed

lemma work_run:
  assumes "reachable s" and "works s s'"
  shows "reachable s' \<and> exWeight s' < exWeight s"
  using exReach.step [OF assms(1) exStep.work [OF assms(2)]] work_decreases [OF assms] by blast

lemma comes_to_rest:
  assumes "reachable s"
  shows "\<exists>s'. works\<^sup>*\<^sup>* s s' \<and> reachable s' \<and> (\<nexists>t. works s' t)"
  by (rule measure_run_ends [where I = reachable and m = exWeight]) (use work_run assms in blast)+

text \<open>No run of work is longer than the weight of the state it starts in.\<close>

lemma work_bounded:
  assumes "reachable (f 0)" and "\<And>n. n < m \<Longrightarrow> works (f n) (f (Suc n))"
  shows "m \<le> exWeight (f 0)"
proof -
  have "n \<le> m \<longrightarrow> reachable (f n) \<and> exWeight (f n) + n \<le> exWeight (f 0)" for n
  proof (induction n)
    case (Suc n)
    then show ?case using work_run [of "f n" "f (Suc n)"] assms(2) [of n] by auto
  qed (use assms(1) in simp)
  then show ?thesis by (metis add_leE le_refl)
qed

end

text \<open>A want that is still open is on its way to its answer.\<close>

definition onWay :: "('b \<Rightarrow> 'c) \<Rightarrow> 'c \<Rightarrow> ('c, 'b, 'w) exSystem \<Rightarrow> bool" where
  "onWay blkCid c s \<longleftrightarrow> (\<exists>wl \<in> set (xsWire s). wantEntry c \<in> set wl) \<or>
     (\<exists>sd \<in> set (xsServed s). \<exists>i < length (sdEntries sd). sdEntries sd ! i = wantEntry c \<and> srvPcs (sdSrv sd) ! i = Attempt 0) \<or>
     (\<exists>b. Inr b \<in> set (xsReplies s) \<and> blkCid b = c) \<or> (\<exists>k r ch b. (k, r, ch, b) \<in> set (workOf (xsClient s)) \<and> blkCid b = c)"

locale reliable_exchange = exchange_system iter bs blkCid contents cidString newUuid attempt p w allowed
  for iter :: "(string \<rightharpoonup> nat) \<Rightarrow> (string \<times> nat) list" and bs :: "('c, 'b, 'w) blockstore"
    and blkCid :: "'b \<Rightarrow> 'c" and contents :: "'w \<Rightarrow> 'c \<rightharpoonup> 'b" and cidString :: "'c \<Rightarrow> string" and newUuid :: "nat \<Rightarrow> string"
    and attempt :: "nat \<Rightarrow> nat \<Rightarrow> nat \<Rightarrow> goerr option" and p :: string and w :: 'w
    and allowed :: "'c list \<Rightarrow> ('c, 'b) client \<Rightarrow> bool" +
  assumes first_try: "attempt g i 0 = None"
    and named: "contents w c = Some b \<Longrightarrow> blkCid b = c"
    and allowed_stored: "allowed cids cl \<Longrightarrow> set cids \<subseteq> dom (contents w)"
begin

definition wanted :: "'c wlEntry \<Rightarrow> bool" where
  "wanted e \<longleftrightarrow> (\<exists>c \<in> dom (contents w). e = wantEntry c)"

definition servedLive :: "('c, 'b) served \<Rightarrow> bool" where
  "servedLive sd \<longleftrightarrow> srvQuiet (sdSrv sd) \<and> length (srvPcs (sdSrv sd)) = length (sdEntries sd) \<and> (\<forall>e \<in> set (sdEntries sd). wanted e)"

definition exLive :: "('c, 'b, 'w) exSystem \<Rightarrow> bool" where
  "exLive s \<longleftrightarrow> xsPanic s = None \<and> xsCrash s = None \<and> (\<forall>r \<in> set (xsReplies s). \<exists>b. r = Inr b) \<and> (\<forall>wl \<in> set (xsWire s). \<forall>e \<in> set wl. wanted e) \<and>
     (\<forall>sd \<in> set (xsServed s). servedLive sd) \<and> (\<forall>ch c. (ch, c) \<in> pendingOf cidString (xsClient s) \<longrightarrow> onWay blkCid c s)"

lemma wanted_checked: "(\<forall>e \<in> set wl. wanted e) \<Longrightarrow> checkEntries wl = Ret wl"
  by (induction wl) (auto simp: wanted_def wantEntry_def)

text \<open>The goroutine whose step it is: what the step of its retry loop does.\<close>

lemma quiet_step:
  assumes "srvQuiet s" and "i < length (srvPcs s)" and "srvPcs s ! i \<noteq> Ended"
  shows "srvPcs s ! i = Attempt 0 \<Longrightarrow> srvStep (attempt g) i s =
      s\<lparr>srvErr := None, srvPcs := (srvPcs s)[i := Test 0], srvSent := srvSent s @ [i]\<rparr>"
    and "srvPcs s ! i \<noteq> Attempt 0 \<Longrightarrow> \<exists>pc. srvStep (attempt g) i s = s\<lparr>srvPcs := (srvPcs s)[i := pc]\<rparr> \<and>
      (\<forall>t. pc \<noteq> Attempt t \<and> pc \<noteq> Test t) \<and> (\<forall>t. srvPcs s ! i \<noteq> Attempt t)"
proof -
  have q: "srvErr s = None" "srvPanic s = None" "firstTry (srvPcs s ! i)" using assms(1,2) by (simp_all add: srvQuiet_def)
  show "srvStep (attempt g) i s = s\<lparr>srvErr := None, srvPcs := (srvPcs s)[i := Test 0], srvSent := srvSent s @ [i]\<rparr>"
    if "srvPcs s ! i = Attempt 0"
    using that q assms(2) by (simp add: srvStep_def maxTries_def first_try)
  show "\<exists>pc. srvStep (attempt g) i s = s\<lparr>srvPcs := (srvPcs s)[i := pc]\<rparr> \<and>
      (\<forall>t. pc \<noteq> Attempt t \<and> pc \<noteq> Test t) \<and> (\<forall>t. srvPcs s ! i \<noteq> Attempt t)"
    if "srvPcs s ! i \<noteq> Attempt 0"
    using that q assms(2,3) by (cases "srvPcs s ! i") (auto simp: srvStep_def)
qed

lemma tryEntry_first:
  assumes "exLive s" and "g < length (xsServed s)" and "i < length (sdEntries (xsServed s ! g))"
    and "srvPcs (sdSrv (xsServed s ! g)) ! i = Attempt 0"
  shows "\<exists>srv. tryEntry attempt arrived g i blk s =
      (setServed g ((xsServed s ! g)\<lparr>sdSrv := srv\<rparr>) s)\<lparr>xsReplies := xsReplies s @ [Inr blk], xsPanic := None\<rparr> \<and>
      srvPcs srv = (srvPcs (sdSrv (xsServed s ! g)))[i := Test 0] \<and> srvQuiet srv"
proof -
  let ?srv = "sdSrv (xsServed s ! g)"
  have live: "servedLive (xsServed s ! g)" using assms(1,2) by (simp add: exLive_def)
  then have q: "srvQuiet ?srv" "i < length (srvPcs ?srv)" using assms(3) by (simp_all add: servedLive_def)
  have st: "srvStep (attempt g) i ?srv = ?srv\<lparr>srvErr := None, srvPcs := (srvPcs ?srv)[i := Test 0], srvSent := srvSent ?srv @ [i]\<rparr>"
    by (rule quiet_step(1) [OF q _ assms(4)]) (simp add: assms(4))
  have "srvPanic ?srv = None" using q(1) by (simp add: srvQuiet_def)
  moreover have "srvQuiet (srvStep (attempt g) i ?srv)" using srvStep_quiet [of "attempt g", OF _ q(1)] first_try by simp
  ultimately show ?thesis unfolding tryEntry_def Let_def st by (intro exI conjI) simp_all
qed

lemma tryEntry_later:
  assumes "exLive s" and "g < length (xsServed s)" and "i < length (sdEntries (xsServed s ! g))"
    and "srvPcs (sdSrv (xsServed s ! g)) ! i \<noteq> Attempt 0" and "srvPcs (sdSrv (xsServed s ! g)) ! i \<noteq> Ended"
  shows "\<exists>srv pc. tryEntry attempt arrived g i blk s = (setServed g ((xsServed s ! g)\<lparr>sdSrv := srv\<rparr>) s)\<lparr>xsPanic := None\<rparr> \<and>
      srvPcs srv = (srvPcs (sdSrv (xsServed s ! g)))[i := pc] \<and> srvQuiet srv"
proof -
  let ?srv = "sdSrv (xsServed s ! g)"
  have live: "servedLive (xsServed s ! g)" using assms(1,2) by (simp add: exLive_def)
  then have q: "srvQuiet ?srv" "i < length (srvPcs ?srv)" using assms(3) by (simp_all add: servedLive_def)
  obtain pc where st: "srvStep (attempt g) i ?srv = ?srv\<lparr>srvPcs := (srvPcs ?srv)[i := pc]\<rparr>"
    and pc: "\<forall>t. srvPcs ?srv ! i \<noteq> Attempt t"
    using quiet_step(2) [OF q assms(5,4), of g] by blast
  have "srvPanic ?srv = None" using q(1) by (simp add: srvQuiet_def)
  moreover have "srvQuiet (srvStep (attempt g) i ?srv)" using srvStep_quiet [of "attempt g", OF _ q(1)] first_try by simp
  ultimately show ?thesis unfolding tryEntry_def Let_def st using pc by (intro exI conjI) simp_all
qed

lemma fetchEntry_live:
  assumes "exSafe s" and "exLive s" and "g < length (xsServed s)" and "i < length (sdEntries (xsServed s ! g))"
  shows "\<exists>blk w'. fetchEntry bs g i s =
      (setServed g ((xsServed s ! g)\<lparr>sdBlocks := (sdBlocks (xsServed s ! g))[i := Some blk]\<rparr>) s)\<lparr>xsStore := w'\<rparr>"
proof -
  have "servedLive (xsServed s ! g)" using assms(2,3) by (simp add: exLive_def)
  then have "wanted (sdEntries (xsServed s ! g) ! i)" using assms(4) by (simp add: servedLive_def)
  then obtain c b where c: "sdEntries (xsServed s ! g) ! i = wantEntry c" "contents w c = Some b" by (auto simp: wanted_def)
  then have "fst (entryMsg bs (wantEntry c) (xsStore s)) = Ret b"
    using assms(1) by (intro entryMsg_present [OF block_store_axioms]) (simp add: exSafe_def)
  then obtain w' where "entryMsg bs (sdEntries (xsServed s ! g) ! i) (xsStore s) = (Ret b, w')" using c(1) by (metis prod.collapse)
  then show ?thesis by (intro exI [of _ b] exI [of _ w']) (simp add: fetchEntry_def Let_def)
qed

lemma onWay_more:
  assumes "onWay blkCid c s" and "set (xsWire s) \<subseteq> set (xsWire s')" and "set (xsServed s) \<subseteq> set (xsServed s')"
    and "set (xsReplies s) \<subseteq> set (xsReplies s')" and "set (workOf (xsClient s)) \<subseteq> set (workOf (xsClient s'))"
  shows "onWay blkCid c s'"
  using assms unfolding onWay_def by blast

text \<open>Only the group of the goroutine that moves changes; a want it has not sent is still with it.\<close>

lemma onWay_served:
  assumes "onWay blkCid c s" and g: "g < length (xsServed s)"
    and served: "xsServed s' = (xsServed s)[g := sd]" and "sdEntries sd = sdEntries (xsServed s ! g)"
    and frame: "xsWire s' = xsWire s" "set (xsReplies s) \<subseteq> set (xsReplies s')" "xsClient s' = xsClient s"
    and keep: "\<And>j. j < length (sdEntries sd) \<Longrightarrow> srvPcs (sdSrv (xsServed s ! g)) ! j = Attempt 0 \<Longrightarrow>
      srvPcs (sdSrv sd) ! j = Attempt 0 \<or> (\<exists>b. Inr b \<in> set (xsReplies s') \<and> wantEntry (blkCid b) = sdEntries sd ! j)"
  shows "onWay blkCid c s'"
proof -
  have inj: "wantEntry a = wantEntry b \<longleftrightarrow> a = b" for a b :: 'c by (simp add: wantEntry_def)
  have "onWay blkCid c s'" if h: "h < length (xsServed s)" and j: "j < length (sdEntries (xsServed s ! h))"
    and e: "sdEntries (xsServed s ! h) ! j = wantEntry c" "srvPcs (sdSrv (xsServed s ! h)) ! j = Attempt 0" for h j
  proof (cases "h = g")
    case True
    have "sd \<in> set (xsServed s')" using served g by (simp add: set_update_memI)
    then show ?thesis using keep [of j] j e assms(4) unfolding onWay_def True inj by (metis inj)
  next
    case False
    then have "xsServed s ! h \<in> set (xsServed s')" using h served by (metis length_list_update nth_list_update_neq nth_mem)
    then show ?thesis using j e unfolding onWay_def by blast
  qed
  then have "onWay blkCid c s'" if "\<exists>sd \<in> set (xsServed s). \<exists>i < length (sdEntries sd). sdEntries sd ! i = wantEntry c
      \<and> srvPcs (sdSrv sd) ! i = Attempt 0"
    using that by (metis in_set_conv_nth)
  moreover have "onWay blkCid c s'" if "\<exists>wl \<in> set (xsWire s). wantEntry c \<in> set wl" using that frame(1) by (simp add: onWay_def)
  moreover have "onWay blkCid c s'" if "\<exists>b. Inr b \<in> set (xsReplies s) \<and> blkCid b = c" using that frame(2) unfolding onWay_def by blast
  moreover have "onWay blkCid c s'" if "\<exists>k r ch b. (k, r, ch, b) \<in> set (workOf (xsClient s)) \<and> blkCid b = c"
    using that frame(3) by (simp add: onWay_def)
  ultimately show ?thesis using assms(1) unfolding onWay_def [of blkCid c s] by blast
qed

lemma retry_live:
  assumes "exSafe s" and "exLive s" and g: "g < length (xsServed s)" and i: "i < length (sdEntries (xsServed s ! g))"
    and blk: "sdBlocks (xsServed s ! g) ! i = Some blk" and "srvPcs (sdSrv (xsServed s ! g)) ! i \<noteq> Ended"
  shows "exLive (tryEntry attempt arrived g i blk s)"
proof -
  let ?sd = "xsServed s ! g" let ?s' = "tryEntry attempt arrived g i blk s"
  have live: "servedLive ?sd" and ok: "servedOk ?sd" using assms(1,2) g by (simp_all add: exLive_def exSafe_def)
  have entry: "sdEntries ?sd ! i = wantEntry (blkCid blk)"
  proof -
    have "wanted (sdEntries ?sd ! i)" using live i by (simp add: servedLive_def)
    moreover have "contents w (weCid (sdEntries ?sd ! i)) = Some blk" using ok i blk by (simp add: servedOk_def)
    ultimately show ?thesis using named by (auto simp: wanted_def wantEntry_def)
  qed
  obtain srv pc where s': "?s' = (setServed g (?sd\<lparr>sdSrv := srv\<rparr>) s)\<lparr>xsReplies := xsReplies ?s', xsPanic := None\<rparr>"
    and srv: "srvPcs srv = (srvPcs (sdSrv ?sd))[i := pc]" "srvQuiet srv"
    and rep: "set (xsReplies s) \<subseteq> set (xsReplies ?s')" "set (xsReplies ?s') \<subseteq> insert (Inr blk) (set (xsReplies s))"
      "srvPcs (sdSrv ?sd) ! i = Attempt 0 \<Longrightarrow> Inr blk \<in> set (xsReplies ?s')"
  proof (cases "srvPcs (sdSrv ?sd) ! i = Attempt 0")
    case True
    show ?thesis using tryEntry_first [OF assms(2) g i True, of arrived blk] by (elim exE conjE) (rule that, simp_all add: subset_insertI)
  next
    case False
    show ?thesis using tryEntry_later [OF assms(2) g i False assms(6), of arrived blk] False
      by (elim exE conjE) (rule that, simp_all add: subset_insertI)
  qed
  have "servedLive (?sd\<lparr>sdSrv := srv\<rparr>)" using live srv by (simp add: servedLive_def)
  then have "\<forall>sd \<in> set (xsServed ?s'). servedLive sd"
    using assms(2) by (subst s') (auto simp: exLive_def dest!: set_update_subset_insert [THEN subsetD])
  moreover have "onWay blkCid c ?s'" if "(ch, c) \<in> pendingOf cidString (xsClient s)" for ch c
  proof (rule onWay_served [OF _ g, where sd = "?sd\<lparr>sdSrv := srv\<rparr>"])
    show "onWay blkCid c s" using assms(2) that by (simp add: exLive_def)
    show "xsServed ?s' = (xsServed s)[g := ?sd\<lparr>sdSrv := srv\<rparr>]" by (subst s') simp
    show "srvPcs (sdSrv (?sd\<lparr>sdSrv := srv\<rparr>)) ! j = Attempt 0 \<or>
        (\<exists>b. Inr b \<in> set (xsReplies ?s') \<and> wantEntry (blkCid b) = sdEntries (?sd\<lparr>sdSrv := srv\<rparr>) ! j)"
      if "j < length (sdEntries (?sd\<lparr>sdSrv := srv\<rparr>))" "srvPcs (sdSrv ?sd) ! j = Attempt 0" for j
      using that entry rep(3) srv(1) by (cases "j = i") auto
  qed (use rep in simp_all)
  moreover have "xsPanic ?s' = None" by (subst s') simp
  moreover have "\<forall>r \<in> set (xsReplies ?s'). \<exists>b. r = Inr b" using assms(2) rep(2) unfolding exLive_def by blast
  ultimately show ?thesis using assms(2) by (simp add: exLive_def)
qed

text \<open>Every step keeps the invariant.\<close>

lemma ask_live:
  assumes "exLive s" and "clHandler (xsClient s) = None" and "allowed cids (xsClient s)"
    and "askFor cidString newUuid streamErr netErr cids s = Some (chs, s')"
  shows "exLive s'"
proof -
  let ?cl = "xsClient s"
  obtain cl' where r: "getBlockFromPeer cidString newUuid streamErr netErr cids ?cl = Ret (Inr chs, cl')"
    and s': "s' = s\<lparr>xsClient := cl', xsWire := xsWire s @ [map wantEntry cids], xsAsked := xsAsked s @ zip chs cids\<rparr>"
    using assms(4) by (rule askFor_SomeE)
  note eff = request_effect [OF cidString_inj allowed_fresh [OF assms(3)] r]
  have del: "delOf ?cl = Map.empty" "delOf cl' = Map.empty" "workOf ?cl = []"
    using assms(2) eff(5) by (simp_all add: delOf_def workOf_def)
  have "onWay blkCid c s'" if "(ch, c) \<in> pendingOf cidString cl'" for ch c
  proof -
    have "(ch, c) \<in> pendingOf cidString ?cl \<or> c \<in> set cids"
      using that unfolding pendingOf_def eff(1,6) del by (auto simp: wantsKey_inj [OF cidString_inj])
    then show ?thesis
    proof
      assume "(ch, c) \<in> pendingOf cidString ?cl"
      then have "onWay blkCid c s" using assms(1) by (simp add: exLive_def)
      then show ?thesis by (rule onWay_more) (auto simp: s' del)
    next
      assume "c \<in> set cids"
      then show ?thesis by (auto simp: onWay_def s')
    qed
  qed
  moreover have "\<forall>e \<in> set (map wantEntry cids). wanted e" using allowed_stored [OF assms(3)] by (auto simp: wanted_def)
  ultimately show ?thesis using assms(1) by (auto simp: exLive_def s')
qed

lemma handle_live:
  assumes "reachable s" and "exLive s" and "Inr blk \<in> set (xsReplies s)" and "clHandler (xsClient s) = None"
    and "handleStart cidString blkCid iter (clPeer (xsClient s)) (Inr ([], [blk])) (xsClient s) = Ret cl"
  shows "exLive (s\<lparr>xsClient := cl, xsReplies := remove1 (Inr blk) (xsReplies s)\<rparr>)" (is "exLive ?s'")
proof -
  have "askedInv cidString blkCid stored (xsAsked s) (xsClient s)" "stored blk"
    using reachable_safe [OF assms(1)] assms(3) by (simp_all add: exSafe_def)
  note st = askedInv_start [OF map_iteration_axioms reachable_client [OF assms(1)] assms(4) this(2) assms(5) this(1)]
  have idle: "delOf (xsClient s) = Map.empty" "workOf (xsClient s) = []" using assms(4) by (simp_all add: delOf_def workOf_def)
  have pend: "pendingOf cidString cl = pendingOf cidString (xsClient s)" by (simp add: pendingOf_def st idle)
  have "onWay blkCid c ?s'" if pc: "(ch, c) \<in> pendingOf cidString cl" for ch c
  proof (cases "c = blkCid blk")
    case True
    then obtain r where "registered (xsClient s) (wantsKey cidString (blkCid blk) (clPeer (xsClient s))) r ch"
      using pc by (auto simp: pendingOf_def st)
    then have "(wantsKey cidString (blkCid blk) (clPeer (xsClient s)), r, ch, blk) \<in> set (workOf cl)"
      by (simp add: st blockSends_set [OF reachable_client [OF assms(1)]])
    then have "\<exists>k r ch b. (k, r, ch, b) \<in> set (workOf (xsClient ?s')) \<and> blkCid b = c" unfolding True by auto
    then show ?thesis unfolding onWay_def by blast
  next
    case False
    have "onWay blkCid c s" using assms(2) pc pend by (auto simp: exLive_def)
    moreover have "Inr b \<in> set (remove1 (Inr blk) (xsReplies s))" if "Inr b \<in> set (xsReplies s)" "blkCid b = c" for b
      using that False by (metis in_set_remove1 sum.inject(2))
    ultimately show ?thesis by (auto simp: onWay_def idle)
  qed
  then show ?thesis using assms(2) by (auto simp: exLive_def)
qed

lemma send_live:
  assumes "reachable s" and "exLive s" and "handleSend (xsClient s) = Some cl"
  shows "exLive (s\<lparr>xsClient := cl\<rparr>)" (is "exLive ?s'")
proof -
  obtain k0 r0 ch0 b0 work toDelete where h: "clHandler (xsClient s) = Some ((k0, r0, ch0, b0) # work, toDelete)"
    and cl: "cl = (pushChan ch0 b0 (xsClient s))\<lparr>clHandler := Some (work, toDelete(k0 \<mapsto> r0))\<rparr>"
    using assms(3) by (rule handleSend_SomeE)
  have inv: "askedInv cidString blkCid stored (xsAsked s) (xsClient s)"
    using reachable_safe [OF assms(1)] by (simp add: exSafe_def)
  have W: "workOf (xsClient s) = (k0, r0, ch0, b0) # work" "workOf cl = work" "delOf (xsClient s) = toDelete"
      "delOf cl = toDelete(k0 \<mapsto> r0)" "registered cl = registered (xsClient s)" "clPeer cl = clPeer (xsClient s)"
    using h by (simp_all add: cl workOf_def delOf_def) (simp add: pushChan_def Let_def)
  have k0: "k0 = wantsKey cidString (blkCid b0) (clPeer (xsClient s))" using askedInvD(1) [OF inv, of k0 r0 ch0 b0] W by simp
  note C = clientInvD [OF reachable_client [OF assms(1)]]
  have head: "registered (xsClient s) k0 r0 ch0" "toDelete k0 = None" using C(9) [of k0 r0 ch0 b0] W by simp_all
  have "onWay blkCid c ?s'" if pend: "(ch, c) \<in> pendingOf cidString cl" for ch c
  proof -
    obtain r where r: "registered (xsClient s) (wantsKey cidString c (clPeer (xsClient s))) r ch"
        "(toDelete(k0 \<mapsto> r0)) (wantsKey cidString c (clPeer (xsClient s))) \<noteq> Some r"
      using pend unfolding pendingOf_def W by blast
    then have ne: "c \<noteq> blkCid b0" using C(2) [of k0 r ch r0 ch0] head(1) k0 by auto
    then have "(ch, c) \<in> pendingOf cidString (xsClient s)"
      using r by (auto simp: pendingOf_def W k0 wantsKey_inj [OF cidString_inj])
    then have "onWay blkCid c s" using assms(2) by (simp add: exLive_def)
    moreover have "\<exists>k r ch b. (k, r, ch, b) \<in> set work \<and> blkCid b = c"
      if "\<exists>k r ch b. (k, r, ch, b) \<in> set (workOf (xsClient s)) \<and> blkCid b = c"
      using that ne unfolding W by (metis prod.inject set_ConsD)
    ultimately show ?thesis unfolding onWay_def by (simp add: W(2)) blast
  qed
  then show ?thesis using assms(2) by (simp add: exLive_def)
qed

lemma finish_live:
  assumes "exLive s" and "handleEnd (xsClient s) = Some cl"
  shows "exLive (s\<lparr>xsClient := cl\<rparr>)"
proof -
  have "rmPending (exAbs cidString (s\<lparr>xsClient := cl\<rparr>)) = rmPending (exAbs cidString s)" using abs_end [OF assms(2)] by simp
  then have "pendingOf cidString cl = pendingOf cidString (xsClient s)" by (simp add: exAbs_def)
  moreover have "workOf (xsClient s) = []" "workOf cl = []" using assms(2) by (auto simp: workOf_def elim!: handleEnd_SomeE)
  ultimately show ?thesis using assms(1) by (simp add: exLive_def onWay_def)
qed

lemma step_live:
  assumes "reachable s" and "exLive s" and "steps s s'"
  shows "exLive s'"
  using assms(3)
proof cases
  case (ask cids streamErr netErr chs)
  then show ?thesis using ask_live [OF assms(2)] by blast
next
  case (receive ch v cl)
  then have "pendingOf cidString cl = pendingOf cidString (xsClient s)" "workOf cl = workOf (xsClient s)"
    by (auto simp: receiveFrom_def pendingOf_def registered_def delOf_def workOf_def split: list.splits)
  then show ?thesis using assms(2) receive(1) by (simp add: exLive_def onWay_def)
next
  case work
  have safe: "exSafe s" by (rule reachable_safe [OF assms(1)])
  have len: "length (sdBlocks (xsServed s ! g)) = length (sdEntries (xsServed s ! g))" if "g < length (xsServed s)" for g
    using safe that by (simp add: exSafe_def servedOk_def)
  have groups: "servedLive (xsServed s ! g)" if "g < length (xsServed s)" for g using assms(2) that by (simp add: exLive_def)
  from work show ?thesis
  proof cases
    case (read wl wire es)
    then have es: "es = wl" "\<forall>e \<in> set wl. wanted e" using assms(2) wanted_checked [of wl] by (simp_all add: exLive_def)
    then have "servedLive (serveEntries wl)" by (simp add: servedLive_def serveEntries_def srvStart_quiet) (simp add: srvStart_def)
    moreover have "onWay blkCid c s'" if "onWay blkCid c s" for c
    proof -
      have "\<exists>i < length (sdEntries (serveEntries wl)). sdEntries (serveEntries wl) ! i = wantEntry c \<and>
          srvPcs (sdSrv (serveEntries wl)) ! i = Attempt 0" if "wantEntry c \<in> set wl"
        using that by (auto simp: serveEntries_def srvStart_def in_set_conv_nth)
      then show ?thesis using that read(1,3) es(1) unfolding onWay_def by auto
    qed
    ultimately show ?thesis using assms(2) read es(1) by (auto simp: exLive_def)
  next
    case (read_panic wl wire msg)
    then show ?thesis using assms(2) wanted_checked [of wl] by (simp add: exLive_def)
  next
    case (fetch g i)
    obtain blk w' where f: "s' = (setServed g ((xsServed s ! g)\<lparr>sdBlocks := (sdBlocks (xsServed s ! g))[i := Some blk]\<rparr>) s)\<lparr>xsStore := w'\<rparr>"
      using fetchEntry_live [OF safe assms(2) fetch(3), of i] fetch(1,4) len [OF fetch(3)] by auto
    have "servedLive ((xsServed s ! g)\<lparr>sdBlocks := (sdBlocks (xsServed s ! g))[i := Some blk]\<rparr>)"
      using groups [OF fetch(3)] by (simp add: servedLive_def)
    moreover have "onWay blkCid c s'" if "onWay blkCid c s" for c
      by (rule onWay_served [OF that fetch(3), where sd = "(xsServed s ! g)\<lparr>sdBlocks := (sdBlocks (xsServed s ! g))[i := Some blk]\<rparr>"])
        (simp_all add: f)
    ultimately show ?thesis
      using assms(2) by (auto simp: exLive_def f dest!: set_update_subset_insert [THEN subsetD])
  next
    case (retry g i blk arrived)
    then show ?thesis using retry_live [OF safe assms(2) retry(3)] len [OF retry(3)] by simp
  next
    case (cut g i blk t arrived)
    then show ?thesis using assms(2) by (simp add: exLive_def)
  next
    case (broken err msg)
    then show ?thesis using assms(2) by (auto simp: exLive_def)
  next
    case (handle blk cl)
    then show ?thesis using handle_live [OF assms(1,2)] by simp
  next
    case (send cl)
    then show ?thesis using send_live [OF assms(1,2)] by simp
  next
    case (finish cl)
    then show ?thesis using finish_live [OF assms(2)] by simp
  qed
qed

lemma reachable_live: "reachable s \<Longrightarrow> exLive s"
proof (induction rule: exReach.induct)
  case start
  then show ?case by (simp add: exLive_def exInit_def pendingOf_def NewClient_def registered_def)
next
  case (step s s')
  then show ?case by (blast intro: step_live)
qed

text \<open>While a want is open some goroutine can move.\<close>

lemma handler_moves:
  assumes "reachable s" and "clHandler (xsClient s) \<noteq> None"
  shows "\<exists>s'. works s s'"
proof -
  have np: "xsCrash s = None" using reachable_live [OF assms(1)] by (simp add: exLive_def)
  obtain work toDelete where h: "clHandler (xsClient s) = Some (work, toDelete)" using assms(2) by auto
  show ?thesis
  proof (cases work)
    case Nil
    then show ?thesis using h exWork.finish [OF np] by (fastforce simp: handleEnd_def)
  next
    case (Cons x work')
    obtain k r ch b where x: "x = (k, r, ch, b)" by (cases x)
    then have "hasRoom ch (xsClient s)" using head_room(1) [OF reachable_client [OF assms(1)]] h Cons by blast
    then show ?thesis using h Cons x exWork.send [OF np] by (fastforce simp: handleSend_def)
  qed
qed

lemma pending_moves:
  assumes "reachable s" and "(ch, c) \<in> pendingOf cidString (xsClient s)"
  shows "\<exists>s'. works s s'"
proof (cases "clHandler (xsClient s)")
  case None
  have live: "exLive s" and np: "xsPanic s = None" "xsCrash s = None" using reachable_live [OF assms(1)] by (simp_all add: exLive_def)
  have safe: "exSafe s" by (rule reachable_safe [OF assms(1)])
  have "onWay blkCid c s" using live assms(2) by (simp add: exLive_def)
  then consider (wire) wl wire where "xsWire s = wl # wire" | (reply) b where "Inr b \<in> set (xsReplies s)"
    | (served) g i where "g < length (xsServed s)" "i < length (sdEntries (xsServed s ! g))" "srvPcs (sdSrv (xsServed s ! g)) ! i = Attempt 0"
    using None unfolding onWay_def by (cases "xsWire s") (auto simp: workOf_def in_set_conv_nth)
  then show ?thesis
  proof cases
    case wire
    then show ?thesis using exWork.read [OF np(1) wire] exWork.read_panic [OF np(1) wire] by (cases "checkEntries wl") blast+
  next
    case reply
    then show ?thesis using exWork.handle [OF np(2) reply None] by (fastforce simp: handleStart_def)
  next
    case served
    then have "i < length (sdBlocks (xsServed s ! g))" using safe by (simp add: exSafe_def servedOk_def)
    then show ?thesis
      using exWork.fetch [OF np(1) served(1)] exWork.retry [OF np(1) served(1)] served(3)
      by (cases "sdBlocks (xsServed s ! g) ! i") (blast, metis srvPc.distinct(13))
  qed
qed (use handler_moves [OF assms(1)] in simp)

text \<open>At rest every request has its answer.\<close>

lemma rest_answered:
  assumes "reachable s" and "\<nexists>s'. works s s'"
  shows "clHandler (xsClient s) = None" and "\<not> registered (xsClient s) k r ch"
    and "(ch, c) \<in> set (xsAsked s) \<Longrightarrow> \<exists>b. contents w c = Some b \<and> (ch, b) \<in> set (clDelivered (xsClient s))"
proof -
  have inv: "askedInv cidString blkCid stored (xsAsked s) (xsClient s)"
    using reachable_safe [OF assms(1)] by (simp add: exSafe_def)
  show idle: "clHandler (xsClient s) = None" using handler_moves [OF assms(1)] assms(2) by blast
  show none: "\<not> registered (xsClient s) k r ch" for k r ch
  proof
    assume reg: "registered (xsClient s) k r ch"
    obtain c where "k = wantsKey cidString c (clPeer (xsClient s))" using askedInvD(2) [OF inv reg] by blast
    then have "(ch, c) \<in> pendingOf cidString (xsClient s)" using reg idle by (auto simp: pendingOf_def delOf_def)
    then show False using pending_moves [OF assms(1)] assms(2) by blast
  qed
  show "\<exists>b. contents w c = Some b \<and> (ch, b) \<in> set (clDelivered (xsClient s))" if asked: "(ch, c) \<in> set (xsAsked s)"
  proof -
    obtain b where b: "(ch, b) \<in> set (clDelivered (xsClient s))" using askedInvD(5) [OF inv asked] none by blast
    then have "(ch, blkCid b) \<in> set (xsAsked s)" "stored b" using askedInvD(3) [OF inv] by blast+
    moreover have "blkCid b = c"
      using eq_key_imp_eq_value [OF askedInvD(7) [OF inv] \<open>(ch, blkCid b) \<in> set (xsAsked s)\<close> asked] .
    ultimately show ?thesis using b named by (auto simp: stored_def)
  qed
qed

lemma work_asked: "works\<^sup>*\<^sup>* s s' \<Longrightarrow> xsAsked s' = xsAsked s"
proof (induction rule: rtranclp_induct)
  case (step s1 s2)
  from step.hyps(2) have "xsAsked s2 = xsAsked s1" by cases simp_all
  then show ?case using step.IH by simp
qed simp

end

section \<open>An instance\<close>

text \<open>The requests of a run: nothing that is outstanding, and only what is stored.\<close>

definition storedWants :: "('c \<Rightarrow> string) \<Rightarrow> ('c \<rightharpoonup> 'b) \<Rightarrow> 'c list \<Rightarrow> ('c, 'b) client \<Rightarrow> bool" where
  "storedWants cidString store cids cl \<longleftrightarrow> freshWants cidString cids cl \<and> set cids \<subseteq> dom store"

text \<open>Every block of a store has the CID it is stored under.\<close>

definition wellNamed :: "('b \<Rightarrow> 'c) \<Rightarrow> ('c \<rightharpoonup> 'b) \<Rightarrow> bool" where
  "wellNamed blkCid store \<longleftrightarrow> (\<forall>c b. store c = Some b \<longrightarrow> blkCid b = c)"

lemma exchange_systemI:
  assumes "map_iteration iter" and "inj cidString" and "block_store bs blkCid contents"
    and "\<And>cids cl. allowed cids cl \<Longrightarrow> freshWants cidString cids cl"
  shows "exchange_system iter bs blkCid contents cidString allowed"
  by (intro exchange_system.intro exchange_system_axioms.intro assms)

lemma reliable_exchangeI:
  assumes "map_iteration iter" and "inj cidString" and "block_store bs blkCid contents"
    and "\<And>g i. attempt g i 0 = None" and "wellNamed blkCid (contents w)"
  shows "reliable_exchange iter bs blkCid contents cidString attempt w (storedWants cidString (contents w))"
  by (intro reliable_exchange.intro exchange_system.intro exchange_system_axioms.intro reliable_exchange_axioms.intro assms(1-4))
    (use assms(5) in \<open>simp_all add: storedWants_def wellNamed_def\<close>)

abbreviation demoStore :: "nat \<rightharpoonup> nat" where
  "demoStore \<equiv> [4 \<mapsto> 4, 5 \<mapsto> 5]"

lemma demo_named: "wellNamed id demoStore"
  by (simp add: wellNamed_def)

lemma demo_reliable: "reliable_exchange demoIter (memBS id) id (\<lambda>w. w) demoString (\<lambda>_ _ _. None) demoStore
    (storedWants demoString demoStore)"
  by (rule reliable_exchangeI [OF demo_iter.map_iteration_axioms demoString_inj mem.block_store_axioms])
    (simp_all add: wellNamed_def)

interpretation demo_ex: reliable_exchange demoIter "memBS id" id "\<lambda>w. w" demoString demoString "\<lambda>_ _ _. None" "''p''" demoStore
  "storedWants demoString demoStore"
  by (rule demo_reliable)

end
