(* ===== verification/SystemProps.thy ===== *)
theory SystemProps
  imports ExchangeSpec
begin

text \<open>
  The properties of the exchange as one system: it refines the abstract machine of pending
  requests, what it delivers is what was asked for, and when the network is reliable it
  comes to rest with every request answered.
\<close>

section \<open>An example run\<close>

definition demoSys :: "(nat, nat, nat \<rightharpoonup> nat) exSystem" where
  "demoSys = (exInit ''p'' demoStore)\<lparr>xsClient := demoAsked, xsWire := [[wantEntry 4, wantEntry 5]], xsAsked := [(0, 4), (1, 5)]\<rparr>"

lemma demoSys_asked: "askFor demoString demoString None None [4, 5] (exInit ''p'' demoStore) = Some ([0, 1], demoSys)"
  by (simp add: askFor_def demoSys_def exInit_def demoAsked_run)

lemma demoSys_step:
  assumes "allowed [4, 5] (NewClient ''p'')"
  shows "exStep allowed demoString demoString id demoIter (memBS id) attempt (exInit ''p'' demoStore) demoSys"
  by (rule exStep.ask [OF _ _ _ demoSys_asked]) (simp_all add: exInit_def assms, simp add: NewClient_def)

lemma demoSys_reach:
  assumes "allowed [4, 5] (NewClient ''p'')"
  shows "exReach allowed demoString demoString id demoIter (memBS id) attempt ''p'' demoStore demoSys"
  by (rule exReach.step [OF exReach.start]) (rule demoSys_step, rule assms)

lemma demo_stored: "storedWants demoString demoStore [4, 5] (NewClient ''p'')"
  by (simp add: storedWants_def demoFresh)

section \<open>Properties\<close>

text \<open>
  C4: The exchange refines its specification. In every state the system of client and server
  reaches while no outstanding CID is asked for again, whatever attempts to send fail, each
  step of it leaves the pending requests and the answers as they are, or is a step of the
  abstract machine: it adds requests on new channels, or it answers one pending request with
  the block that the server's store has under its CID.
\<close>

theorem exchange_refines_remote:
  assumes "map_iteration iter" and "inj cidString" and "block_store bs blkCid contents"
    and "wellNamed blkCid (contents w)"
    and "exReach (freshWants cidString) cidString newUuid blkCid iter bs attempt p w s"
    and "exStep (freshWants cidString) cidString newUuid blkCid iter bs attempt s s'"
  shows "exAbs cidString (exInit p w) = remoteInit \<and>
    (exAbs cidString s' = exAbs cidString s \<or> remoteStep (contents w) (exAbs cidString s) (exAbs cidString s'))"
proof -
  have sys: "exchange_system iter bs blkCid contents cidString (freshWants cidString)" by (rule exchange_systemI [OF assms(1-3)])
  show ?thesis using exchange_system.step_simulated [OF sys assms(5) _ assms(6)] assms(4) exAbs_init by (simp add: wellNamed_def)
qed

theorem exchange_refines_remote_witness:
  "exAbs demoString demoSys = exAbs demoString (exInit ''p'' demoStore) \<or>
   remoteStep demoStore (exAbs demoString (exInit ''p'' demoStore)) (exAbs demoString demoSys)"
proof -
  have step: "exStep (freshWants demoString) demoString demoString id demoIter (memBS id) (\<lambda>_ _ _. Some ErrEOF) (exInit ''p'' demoStore) demoSys"
    by (rule demoSys_step) (rule demoFresh)
  show ?thesis
    by (rule exchange_refines_remote [OF demo_iter.map_iteration_axioms demoString_inj mem.block_store_axioms _ exReach.start step,
          THEN conjunct2]) (rule demo_named)
qed

text \<open>
  C3: Every request is answered. Let first attempts to send succeed, let stored blocks have
  the CIDs they are stored under, and let only stored CIDs be asked for, none while it is
  outstanding. Then from every state the system can reach, the work that is under way leads
  to a state at rest; and in every state at rest that is reached neither process has panicked, the
  table of wants is empty, and each channel of a request has been sent the block that the
  store has under the CID it was made for.
\<close>

theorem exchange_answers_all:
  assumes "map_iteration iter" and "inj cidString" and "block_store bs blkCid contents"
    and "\<And>g i. attempt g i 0 = None" and "wellNamed blkCid (contents w)"
    and "exReach (storedWants cidString (contents w)) cidString newUuid blkCid iter bs attempt p w s"
  shows "(\<exists>s'. (exWork cidString blkCid iter bs attempt)\<^sup>*\<^sup>* s s' \<and> (\<nexists>t. exWork cidString blkCid iter bs attempt s' t)) \<and>
    (\<forall>s'. (exWork cidString blkCid iter bs attempt)\<^sup>*\<^sup>* s s' \<longrightarrow> (\<nexists>t. exWork cidString blkCid iter bs attempt s' t) \<longrightarrow>
       xsPanic s' = None \<and> xsCrash s' = None \<and> (\<forall>k r ch. \<not> registered (xsClient s') k r ch) \<and>
       (\<forall>ch c. (ch, c) \<in> set (xsAsked s) \<longrightarrow> (\<exists>b. contents w c = Some b \<and> (ch, b) \<in> set (clDelivered (xsClient s')))))"
proof -
  have rel: "reliable_exchange iter bs blkCid contents cidString attempt w (storedWants cidString (contents w))"
    by (rule reliable_exchangeI [OF assms(1-3)]) (simp_all add: assms(4,5))
  have reach: "exReach (storedWants cidString (contents w)) cidString newUuid blkCid iter bs attempt p w s'"
    if "(exWork cidString blkCid iter bs attempt)\<^sup>*\<^sup>* s s'" for s'
    using that assms(6) by induction (blast intro: exReach.step exStep.work)+
  show ?thesis
  proof (intro conjI allI impI)
    show "\<exists>s'. (exWork cidString blkCid iter bs attempt)\<^sup>*\<^sup>* s s' \<and> (\<nexists>t. exWork cidString blkCid iter bs attempt s' t)"
      using exchange_system.comes_to_rest [OF reliable_exchange.axioms(1) [OF rel] assms(6)] by blast
    fix s' assume run: "(exWork cidString blkCid iter bs attempt)\<^sup>*\<^sup>* s s'" and rest: "\<nexists>t. exWork cidString blkCid iter bs attempt s' t"
    note reach' = reach [OF run]
    show "xsPanic s' = None" "xsCrash s' = None"
      using reliable_exchange.reachable_live [OF rel reach'] unfolding reliable_exchange.exLive_def [OF rel] by blast+
    show "\<not> registered (xsClient s') k r ch" for k r ch by (rule reliable_exchange.rest_answered(2) [OF rel reach' rest])
    show "\<exists>b. contents w c = Some b \<and> (ch, b) \<in> set (clDelivered (xsClient s'))" if "(ch, c) \<in> set (xsAsked s)" for ch c
      by (rule reliable_exchange.rest_answered(3) [OF rel reach' rest]) (simp add: that reliable_exchange.work_asked [OF rel run])
  qed
qed

theorem exchange_answers_all_witness:
  "\<exists>s'. (exWork demoString id demoIter (memBS id) (\<lambda>_ _ _. None))\<^sup>*\<^sup>* demoSys s' \<and> xsPanic s' = None \<and> xsCrash s' = None \<and>
     (0, 4) \<in> set (clDelivered (xsClient s')) \<and> (1, 5) \<in> set (clDelivered (xsClient s'))"
proof -
  have reach: "exReach (storedWants demoString demoStore) demoString demoString id demoIter (memBS id) (\<lambda>_ _ _. None) ''p'' demoStore demoSys"
    by (rule demoSys_reach) (rule demo_stored)
  have none: "\<And>g i. (\<lambda>_ _ _. None :: goerr option) g i (0 :: nat) = None" by simp
  note all = exchange_answers_all [OF demo_iter.map_iteration_axioms demoString_inj mem.block_store_axioms none demo_named reach]
  obtain s' where run: "(exWork demoString id demoIter (memBS id) (\<lambda>_ _ _. None))\<^sup>*\<^sup>* demoSys s'"
    and rest: "\<nexists>t. exWork demoString id demoIter (memBS id) (\<lambda>_ _ _. None) s' t"
    using all [THEN conjunct1] by (elim exE conjE)
  note at_rest = all [THEN conjunct2, rule_format, OF run rest]
  have "(0, 4) \<in> set (xsAsked demoSys)" "(1, 5) \<in> set (xsAsked demoSys)" by (simp_all add: demoSys_def)
  from this [THEN at_rest [THEN conjunct2, THEN conjunct2, THEN conjunct2, rule_format]]
  have "(0, 4) \<in> set (clDelivered (xsClient s'))" "(1, 5) \<in> set (clDelivered (xsClient s'))" by simp_all
  then show ?thesis using run at_rest [THEN conjunct1] at_rest [THEN conjunct2, THEN conjunct1] by (intro exI conjI)
qed

text \<open>
  C12: The work of the exchange ends, whatever attempts to send fail, however often, and
  whatever panics. While no outstanding CID is asked for again, every run of the server's
  goroutines and the client's handlers without a new request stops after at most as many
  steps as the weight of the state it starts in says: 41 for each entry of a message that the
  server has not read, the turns that are left for each of its goroutines, and the replies
  and sends that are under way.
\<close>

theorem exchange_work_ends:
  assumes "map_iteration iter" and "inj cidString" and "block_store bs blkCid contents"
    and "exReach (freshWants cidString) cidString newUuid blkCid iter bs attempt p w (f 0)"
  shows "\<exists>n \<le> exWeight (f 0). \<not> exWork cidString blkCid iter bs attempt (f n) (f (Suc n))"
proof (rule ccontr)
  have sys: "exchange_system iter bs blkCid contents cidString (freshWants cidString)" by (rule exchange_systemI [OF assms(1-3)])
  assume "\<not> ?thesis"
  then have "Suc (exWeight (f 0)) \<le> exWeight (f 0)"
    using exchange_system.work_bounded [OF sys, where f = f and m = "Suc (exWeight (f 0))", OF assms(4)] by auto
  then show False by simp
qed

text \<open>An example: all attempts fail, and the server has just read the message.\<close>

definition demoRun :: "nat \<Rightarrow> (nat, nat, nat \<rightharpoonup> nat) exSystem" where
  "demoRun n = (if n = 0 then demoSys else demoSys\<lparr>xsWire := [], xsServed := [serveEntries [wantEntry 4, wantEntry 5]]\<rparr>)"

theorem exchange_work_ends_witness:
  "exWork demoString id demoIter (memBS id) (\<lambda>_ _ _. Some ErrEOF) (demoRun 0) (demoRun 1) \<and>
   (\<exists>n \<le> 85. \<not> exWork demoString id demoIter (memBS id) (\<lambda>_ _ _. Some ErrEOF) (demoRun n) (demoRun (Suc n)))"
proof
  have "exWork demoString id demoIter (memBS id) (\<lambda>_ _ _. Some ErrEOF) demoSys
      (demoSys\<lparr>xsWire := [], xsServed := xsServed demoSys @ [serveEntries [wantEntry 4, wantEntry 5]]\<rparr>)"
    by (rule exWork.read [where wl = "[wantEntry 4, wantEntry 5]"]) (simp_all add: demoSys_def exInit_def wantEntry_def)
  then show "exWork demoString id demoIter (memBS id) (\<lambda>_ _ _. Some ErrEOF) (demoRun 0) (demoRun 1)"
    by (simp add: demoRun_def demoSys_def exInit_def)
  have reach: "exReach (freshWants demoString) demoString demoString id demoIter (memBS id) (\<lambda>_ _ _. Some ErrEOF) ''p'' demoStore (demoRun 0)"
    unfolding demoRun_def if_P [OF refl] by (rule demoSys_reach) (rule demoFresh)
  have "exWeight (demoRun 0) = 85"
    by (simp add: demoRun_def exWeight_def demoSys_def exInit_def aliveWeight_def handlerWeight_def demoAsked_idle)
  then show "\<exists>n \<le> 85. \<not> exWork demoString id demoIter (memBS id) (\<lambda>_ _ _. Some ErrEOF) (demoRun n) (demoRun (Suc n))"
    using exchange_work_ends [where f = demoRun, OF demo_iter.map_iteration_axioms demoString_inj mem.block_store_axioms reach] by simp
qed

text \<open>
  C7: Nothing else is delivered. As long as no CID is asked for again while a want for it is
  outstanding, and no request names a CID twice, the following holds whatever attempts to
  send fail or are repeated: a channel of a request is sent at most one block, that block is
  in the server's store, and its CID is the one the request with this channel was made for.
\<close>

theorem exchange_delivers_requested:
  assumes "map_iteration iter" and "inj cidString" and "block_store bs blkCid contents"
    and "\<And>cids cl. allowed cids cl \<Longrightarrow> freshWants cidString cids cl"
    and "exReach allowed cidString newUuid blkCid iter bs attempt p w s"
    and "(ch, b) \<in> set (clDelivered (xsClient s))"
  shows "(ch, blkCid b) \<in> set (xsAsked s) \<and> (\<exists>c. contents w c = Some b) \<and>
    deliveredTo ch (xsClient s) = 1 \<and> (\<forall>c. (ch, c) \<in> set (xsAsked s) \<longrightarrow> c = blkCid b)"
proof -
  have sys: "exchange_system iter bs blkCid contents cidString allowed"
    by (rule exchange_systemI [OF assms(1-3)]) (rule assms(4))
  have inv: "askedInv cidString blkCid (exchange_system.stored contents w) (xsAsked s) (xsClient s)"
    using exchange_system.reachable_safe [OF sys assms(5)] unfolding exchange_system.exSafe_def [OF sys] by blast
  note client = clientInvD [OF exchange_system.reachable_client [OF sys assms(5)]]
  have asked: "(ch, blkCid b) \<in> set (xsAsked s)" and "exchange_system.stored contents w b" using askedInvD(3) [OF inv assms(6)] by blast+
  then have "\<exists>c. contents w c = Some b" unfolding exchange_system.stored_def [OF sys] by blast
  moreover have "0 < deliveredTo ch (xsClient s)" using assms(6) by (force simp: deliveredTo_def count_if_def filter_empty_conv)
  then have "deliveredTo ch (xsClient s) = 1" using client(6) [of ch] by simp
  moreover have "c = blkCid b" if "(ch, c) \<in> set (xsAsked s)" for c
    by (rule eq_key_imp_eq_value [OF askedInvD(7) [OF inv] that asked])
  ultimately show ?thesis using asked by blast
qed

theorem exchange_delivers_requested_witness:
  "\<exists>s :: (nat, nat, nat \<rightharpoonup> nat) exSystem. (0, 4) \<in> set (clDelivered (xsClient s)) \<and> deliveredTo 0 (xsClient s) = 1"
proof -
  have reach: "demo_ex.reachable demoSys" by (rule demoSys_reach) (rule demo_stored)
  obtain s where run: "demo_ex.works\<^sup>*\<^sup>* demoSys s" and s: "demo_ex.reachable s" and rest: "\<nexists>t. demo_ex.works s t"
    using demo_ex.comes_to_rest [OF reach] by blast
  have "(0, 4) \<in> set (xsAsked s)" using demo_ex.work_asked [OF run] by (simp add: demoSys_def)
  then have d: "(0, 4) \<in> set (clDelivered (xsClient s))" using demo_ex.rest_answered(3) [OF s rest] by fastforce
  have "storedWants demoString demoStore cids cl \<Longrightarrow> freshWants demoString cids cl" for cids and cl :: "(nat, nat) client"
    by (simp add: storedWants_def)
  then have "deliveredTo 0 (xsClient s) = 1"
    using exchange_delivers_requested [OF demo_iter.map_iteration_axioms demoString_inj mem.block_store_axioms _ s d] by blast
  then show ?thesis using d by blast
qed

end
