(* ===== verification/Download.thy ===== *)
theory Download
  imports SystemProps DagService BlockService
begin

text \<open>
  A download through all layers: the walk of \<open>basicDAGWalker\<close> (bitswap.go) asks a node getter
  for each node, the getter looks into the local store and then asks the exchange, and a call
  of \<open>Client.GetBlock\<close> (client.go, lines 162 to 177) is a request to the system of client and
  server that ends when its select receives the block. Whatever the schedule of the system
  is, the call returns the block of the server's store.
\<close>

section \<open>A call of GetBlock\<close>

text \<open>
  The call first waits for the lock, then makes its request, and receives when the response
  is there, also when its context has ended by then. In between the server and the handlers
  work.
\<close>

inductive exGet :: "('c \<Rightarrow> string) \<Rightarrow> (nat \<Rightarrow> string) \<Rightarrow> ('b \<Rightarrow> 'c) \<Rightarrow> ((string \<rightharpoonup> nat) \<Rightarrow> (string \<times> nat) list)
    \<Rightarrow> ('c, 'b, 'w) blockstore \<Rightarrow> (nat \<Rightarrow> nat \<Rightarrow> nat \<Rightarrow> goerr option) \<Rightarrow> 'c \<Rightarrow> ('c, 'b, 'w) exSystem \<Rightarrow> 'b \<Rightarrow> ('c, 'b, 'w) exSystem
    \<Rightarrow> bool"
  for cidString newUuid blkCid iter bs attempt c s where
  call: "(exWork cidString blkCid iter bs attempt)\<^sup>*\<^sup>* s s0 \<Longrightarrow> xsCrash s0 = None \<Longrightarrow> clHandler (xsClient s0) = None \<Longrightarrow>
     askFor cidString newUuid None None [c] s0 = Some ([ch], s1) \<Longrightarrow>
     (exWork cidString blkCid iter bs attempt)\<^sup>*\<^sup>* s1 s2 \<Longrightarrow> xsCrash s2 = None \<Longrightarrow>
     getBlockSelect preferCtx ctxDone ch (xsClient s2) = Some (Inr (Some b), cl) \<Longrightarrow>
     exGet cidString newUuid blkCid iter bs attempt c s b (s2\<lparr>xsClient := cl\<rparr>)"

text \<open>What the handlers send to a channel is what it holds more than before.\<close>

lemma handleSend_channel:
  assumes "handleSend cl = Some cl'"
  shows "\<exists>ds. clDelivered cl' = clDelivered cl @ ds \<and> chBuf (clChans cl' ch) =
    chBuf (clChans cl ch) @ map (\<lambda>d. \<lparr>rspBlk = Some (snd d)\<rparr>) (filter (\<lambda>d. fst d = ch) ds)"
proof -
  obtain k r ch0 b work del where "cl' = (pushChan ch0 b cl)\<lparr>clHandler := Some (work, del)\<rparr>"
    using assms by (auto elim!: handleSend_SomeE)
  then show ?thesis by (intro exI [of _ "[(ch0, b)]"]) (simp add: pushChan_def Let_def)
qed

lemma work_channel:
  assumes "exWork cidString blkCid iter bs attempt s s'"
  shows "\<exists>ds. clDelivered (xsClient s') = clDelivered (xsClient s) @ ds \<and> chBuf (clChans (xsClient s') ch) =
    chBuf (clChans (xsClient s) ch) @ map (\<lambda>d. \<lparr>rspBlk = Some (snd d)\<rparr>) (filter (\<lambda>d. fst d = ch) ds)"
  using assms
proof cases
  case (handle blk cl)
  then show ?thesis by (intro exI [of _ "[]"]) (auto simp: handleStart_def)
next
  case (send cl)
  then show ?thesis using handleSend_channel [OF send(3), of ch] by simp
next
  case (finish cl)
  then show ?thesis by (intro exI [of _ "[]"]) (auto elim!: handleEnd_SomeE)
qed simp_all

lemma works_channel:
  assumes "(exWork cidString blkCid iter bs attempt)\<^sup>*\<^sup>* s s'"
  shows "\<exists>ds. clDelivered (xsClient s') = clDelivered (xsClient s) @ ds \<and> chBuf (clChans (xsClient s') ch) =
    chBuf (clChans (xsClient s) ch) @ map (\<lambda>d. \<lparr>rspBlk = Some (snd d)\<rparr>) (filter (\<lambda>d. fst d = ch) ds)"
  using assms
proof induction
  case (step s1 s2)
  then obtain ds where "clDelivered (xsClient s1) = clDelivered (xsClient s) @ ds" "chBuf (clChans (xsClient s1) ch) =
      chBuf (clChans (xsClient s) ch) @ map (\<lambda>d. \<lparr>rspBlk = Some (snd d)\<rparr>) (filter (\<lambda>d. fst d = ch) ds)" by blast
  moreover obtain es where "clDelivered (xsClient s2) = clDelivered (xsClient s1) @ es" "chBuf (clChans (xsClient s2) ch) =
      chBuf (clChans (xsClient s1) ch) @ map (\<lambda>d. \<lparr>rspBlk = Some (snd d)\<rparr>) (filter (\<lambda>d. fst d = ch) es)"
    using work_channel [OF step.hyps(2)] by blast
  ultimately show ?case by (intro exI [of _ "ds @ es"]) simp
qed simp

lemma request_buffer:
  assumes "getBlockFromPeer cidString newUuid streamErr netErr [c] cl = Ret (Inr [ch], cl')"
  shows "chBuf (clChans cl' ch) = []"
  using assms by (auto simp: getBlockFromPeer_def openStream_def makeChan_def addWant_def Let_def split: if_splits option.splits)

lemma request_succeeds: "\<exists>ch cl'. getBlockFromPeer cidString newUuid None None [c] cl = Ret (Inr [ch], cl')"
  by (simp add: getBlockFromPeer_def openStream_def makeChan_def)

section \<open>Calls one after the other\<close>

text \<open>Between the calls of one caller no want is open; a handler may still have to clean up.\<close>

context reliable_exchange
begin

definition quietState :: "('c, 'b, 'w) exSystem \<Rightarrow> bool" where
  "quietState s \<longleftrightarrow> reachable s \<and> pendingOf cidString (xsClient s) = {}"

abbreviation gets :: "'c \<Rightarrow> ('c, 'b, 'w) exSystem \<Rightarrow> 'b \<Rightarrow> ('c, 'b, 'w) exSystem \<Rightarrow> bool" where
  "gets \<equiv> exGet cidString newUuid blkCid iter bs attempt"

lemma works_reachable: "works\<^sup>*\<^sup>* s s' \<Longrightarrow> reachable s \<Longrightarrow> reachable s'"
  by (induction rule: rtranclp_induct) (blast intro: exReach.step exStep.work)+

lemma work_pending:
  assumes "reachable s" and "works s s'"
  shows "pendingOf cidString (xsClient s') \<subseteq> pendingOf cidString (xsClient s)"
  using assms(2)
proof cases
  case (handle blk cl)
  have "askedInv cidString blkCid stored (xsAsked s) (xsClient s)" "stored blk"
    using reachable_safe [OF assms(1)] handle(3) by (simp_all add: exSafe_def)
  note st = askedInv_start [OF map_iteration_axioms reachable_client [OF assms(1)] handle(4) this(2) handle(5) this(1)]
  have "delOf (xsClient s) = Map.empty" using handle(4) by (simp add: delOf_def)
  then show ?thesis using handle(1) by (simp add: pendingOf_def st)
next
  case (send cl)
  obtain k r ch b work del where h: "clHandler (xsClient s) = Some ((k, r, ch, b) # work, del)"
    and cl: "cl = (pushChan ch b (xsClient s))\<lparr>clHandler := Some (work, del(k \<mapsto> r))\<rparr>"
    using send(3) by (rule handleSend_SomeE)
  have "del k = None" using clientInvD(9) [OF reachable_client [OF assms(1)], of k r ch b] h by (simp add: workOf_def delOf_def)
  moreover have "registered cl = registered (xsClient s)" "delOf cl = del(k \<mapsto> r)" "delOf (xsClient s) = del" "clPeer cl = clPeer (xsClient s)"
    using h by (simp_all add: cl delOf_def) (simp add: pushChan_def Let_def)
  ultimately show ?thesis using send(1) by (auto simp: pendingOf_def split: if_splits)
next
  case (finish cl)
  then show ?thesis using abs_end [OF finish(3)] by (simp add: exAbs_def)
qed simp_all

lemma works_pending: "works\<^sup>*\<^sup>* s s' \<Longrightarrow> reachable s \<Longrightarrow> pendingOf cidString (xsClient s') \<subseteq> pendingOf cidString (xsClient s)"
proof (induction rule: rtranclp_induct)
  case (step s1 s2)
  then show ?case using work_pending [OF works_reachable [OF step.hyps(1)]] by blast
qed simp

lemma quiet_fresh:
  assumes "quietState s" and "clHandler (xsClient s) = None"
  shows "freshWants cidString [c] (xsClient s)"
  using assms by (auto simp: quietState_def freshWants_def pendingOf_def delOf_def)

lemma works_quiet: "works\<^sup>*\<^sup>* s s' \<Longrightarrow> quietState s \<Longrightarrow> quietState s'"
  using works_reachable works_pending by (fastforce simp: quietState_def)

text \<open>The request of a call, in a state in which the lock is free.\<close>

lemma call_asks:
  assumes "quietState s" and "xsCrash s = None" and "clHandler (xsClient s) = None" and "allowed [c] (xsClient s)"
    and "askFor cidString newUuid None None [c] s = Some ([ch], s1)"
  shows "reachable s1" and "(ch, c) \<in> set (xsAsked s1)" and "chBuf (clChans (xsClient s1) ch) = []"
    and "pendingOf cidString (xsClient s1) \<subseteq> {(ch, c)}" and "ch \<notin> fst ` set (clDelivered (xsClient s1))"
proof -
  have reach: "reachable s" using assms(1) by (simp add: quietState_def)
  obtain cl where r: "getBlockFromPeer cidString newUuid None None [c] (xsClient s) = Ret (Inr [ch], cl)"
    and s1: "s1 = s\<lparr>xsClient := cl, xsWire := xsWire s @ [map wantEntry [c]], xsAsked := xsAsked s @ zip [ch] [c]\<rparr>"
    using assms(5) by (rule askFor_SomeE)
  note eff = request_effect [OF cidString_inj allowed_fresh [OF assms(4)] r]
  show "reachable s1" by (rule exReach.step [OF reach exStep.ask [where allowed = allowed, OF assms(2-5)]])
  show "(ch, c) \<in> set (xsAsked s1)" "chBuf (clChans (xsClient s1) ch) = []" using request_buffer [OF r] by (simp_all add: s1)
  have del: "delOf (xsClient s) = Map.empty" "delOf cl = Map.empty" using assms(3) eff(5) by (simp_all add: delOf_def)
  show "pendingOf cidString (xsClient s1) \<subseteq> {(ch, c)}"
    using assms(1) unfolding quietState_def pendingOf_def s1 by (auto simp: eff(1,6) del wantsKey_inj [OF cidString_inj])
  have "d < clNext (xsClient s)" if "d \<in> fst ` set (clDelivered (xsClient s))" for d
    using that clientInvD(4) [OF reachable_client [OF reach], of d] by (force simp: deliveredTo_def count_if_def filter_empty_conv)
  then show "ch \<notin> fst ` set (clDelivered (xsClient s1))" using eff(2,4) by (fastforce simp: s1)
qed

lemma channel_sent:
  assumes "reachable s1" and "chBuf (clChans (xsClient s1) ch) = []" and "ch \<notin> fst ` set (clDelivered (xsClient s1))"
    and "works\<^sup>*\<^sup>* s1 s2"
  shows "chBuf (clChans (xsClient s2) ch) = map (\<lambda>d. \<lparr>rspBlk = Some (snd d)\<rparr>) (filter (\<lambda>d. fst d = ch) (clDelivered (xsClient s2)))"
proof -
  obtain ds where ds: "clDelivered (xsClient s2) = clDelivered (xsClient s1) @ ds" "chBuf (clChans (xsClient s2) ch) =
      chBuf (clChans (xsClient s1) ch) @ map (\<lambda>d. \<lparr>rspBlk = Some (snd d)\<rparr>) (filter (\<lambda>d. fst d = ch) ds)"
    using works_channel [OF assms(4)] by blast
  have "filter (\<lambda>d. fst d = ch) (clDelivered (xsClient s1)) = []" using assms(3) by (force simp: filter_empty_conv)
  then show ?thesis using ds assms(2) by simp
qed

lemma delivered_right:
  assumes "reachable s" and "(ch, b) \<in> set (clDelivered (xsClient s))" and "(ch, c) \<in> set (xsAsked s)"
  shows "contents w c = Some b"
proof -
  have inv: "askedInv cidString blkCid stored (xsAsked s) (xsClient s)" using reachable_safe [OF assms(1)] by (simp add: exSafe_def)
  have "(ch, blkCid b) \<in> set (xsAsked s)" "stored b" using askedInvD(3) [OF inv assms(2)] by blast+
  moreover have "blkCid b = c" by (rule eq_key_imp_eq_value [OF askedInvD(7) [OF inv] \<open>(ch, blkCid b) \<in> set (xsAsked s)\<close> assms(3)])
  ultimately show ?thesis using named by (auto simp: stored_def)
qed

text \<open>A call that returns has the right block and leaves a quiet state.\<close>

lemma get_right:
  assumes "quietState s" and ok: "\<And>cl. freshWants cidString [c] cl \<Longrightarrow> allowed [c] cl" and "gets c s b s'"
  shows "contents w c = Some b \<and> quietState s'"
  using assms(3)
proof cases
  case (call s0 ch s1 s2 preferCtx ctxDone cl)
  have q0: "quietState s0" by (rule works_quiet [OF call(2) assms(1)])
  note asks = call_asks [OF q0 call(3,4) ok [OF quiet_fresh [OF q0 call(4)]] call(5)]
  have r2: "reachable s2" by (rule works_reachable [OF call(6) asks(1)])
  have asked: "(ch, c) \<in> set (xsAsked s2)" using asks(2) work_asked [OF call(6)] by simp
  obtain v vs where v: "chBuf (clChans (xsClient s2) ch) = v # vs" "rspBlk v = Some b" and rec: "receiveFrom ch (xsClient s2) = Some (v, cl)"
    using call(8) by (auto simp: getBlockSelect_def receiveFrom_def split: list.splits if_splits)
  have del: "(ch, b) \<in> set (clDelivered (xsClient s2))"
  proof -
    have "v \<in> set (map (\<lambda>d. \<lparr>rspBlk = Some (snd d)\<rparr>) (filter (\<lambda>d. fst d = ch) (clDelivered (xsClient s2))))"
      using channel_sent [OF asks(1,3,5) call(6)] v(1) by (metis list.set_intros(1))
    then show ?thesis using v(2) by auto
  qed
  have "pendingOf cidString (xsClient s2) = {}"
  proof -
    have "0 < deliveredTo ch (xsClient s2)" using del by (force simp: deliveredTo_def count_if_def filter_empty_conv)
    then have "(ch, c) \<notin> pendingOf cidString (xsClient s2)"
      using clientInvD(7) [OF reachable_client [OF r2]] unfolding pendingOf_def by fastforce
    then show ?thesis using works_pending [OF call(6) asks(1)] asks(4) by blast
  qed
  moreover have "pendingOf cidString cl = pendingOf cidString (xsClient s2)"
    using rec by (auto simp: receiveFrom_def pendingOf_def registered_def delOf_def split: list.splits)
  moreover have "reachable s'" using exReach.step [OF r2 exStep.receive [OF call(7) rec]] call(1) by simp
  ultimately show ?thesis using delivered_right [OF r2 del asked] call(1) by (simp add: quietState_def)
qed

text \<open>And a call always can return.\<close>

lemma get_returns:
  assumes "quietState s" and ok: "\<And>cl. freshWants cidString [c] cl \<Longrightarrow> allowed [c] cl"
  shows "\<exists>b s'. gets c s b s'"
proof -
  have "reachable s" using assms(1) by (simp add: quietState_def)
  then obtain s0 where s0: "works\<^sup>*\<^sup>* s s0" "reachable s0" "\<nexists>t. works s0 t" using comes_to_rest by blast
  have q0: "quietState s0" by (rule works_quiet [OF s0(1) assms(1)])
  have np: "xsCrash s0 = None" using reachable_live [OF s0(2)] by (simp add: exLive_def)
  have idle: "clHandler (xsClient s0) = None" by (rule rest_answered(1) [OF s0(2,3)])
  obtain ch s1 where ask: "askFor cidString newUuid None None [c] s0 = Some ([ch], s1)"
    using request_succeeds [of cidString newUuid c "xsClient s0"] by (auto simp: askFor_def)
  note asks = call_asks [OF q0 np idle ok [OF quiet_fresh [OF q0 idle]] ask]
  obtain s2 where s2: "works\<^sup>*\<^sup>* s1 s2" "reachable s2" "\<nexists>t. works s2 t" using comes_to_rest [OF asks(1)] by blast
  have np2: "xsCrash s2 = None" using reachable_live [OF s2(2)] by (simp add: exLive_def)
  obtain b where "(ch, b) \<in> set (clDelivered (xsClient s2))"
    using rest_answered(3) [OF s2(2,3)] asks(2) work_asked [OF s2(1)] by metis
  then have "filter (\<lambda>d. fst d = ch) (clDelivered (xsClient s2)) \<noteq> []" by (force simp: filter_empty_conv)
  then obtain d ds where "filter (\<lambda>d. fst d = ch) (clDelivered (xsClient s2)) = d # ds" by (metis list.exhaust)
  then have "chBuf (clChans (xsClient s2) ch) = \<lparr>rspBlk = Some (snd d)\<rparr> # map (\<lambda>d. \<lparr>rspBlk = Some (snd d)\<rparr>) ds"
    using channel_sent [OF asks(1,3,5) s2(1)] by simp
  then obtain cl where "getBlockSelect False False ch (xsClient s2) = Some (Inr (Some (snd d)), cl)"
    by (simp add: getBlockSelect_def receiveFrom_def)
  then show ?thesis using exGet.call [OF s0(1) np idle ask s2(1) np2] by blast
qed

end

section \<open>The node getter\<close>

text \<open>
  What the walk's getter does with a CID: a block of the local store is decoded; otherwise
  the exchange is asked, and when the call can return, its block is decoded and may be kept
  in the local store. \<open>basicDAGWalker\<close> uses the session of the packages go-merkledag and
  go-blockservice for this, which are outside the repository. \<open>fetches c s b s'\<close> says that a
  call for \<open>c\<close> in state \<open>s\<close> may return \<open>b\<close> and leave \<open>s'\<close>.
\<close>

locale session_getter =
  fixes get :: "('c, 'n, 'e) nodeGet" and decodeNode :: "'b \<Rightarrow> goerr + 'n" and localOf :: "'e \<Rightarrow> 'c \<rightharpoonup> 'b"
    and sysOf :: "'e \<Rightarrow> 's" and fetches :: "'c \<Rightarrow> 's \<Rightarrow> 'b \<Rightarrow> 's \<Rightarrow> bool"
  assumes get_hit: "localOf e c = Some b \<Longrightarrow>
      fst (get c e) = decodeNode b \<and> sysOf (snd (get c e)) = sysOf e \<and> localOf (snd (get c e)) = localOf e"
    and get_miss: "localOf e c = None \<Longrightarrow> fetches c (sysOf e) b0 s0 \<Longrightarrow>
      \<exists>b. fetches c (sysOf e) b (sysOf (snd (get c e))) \<and> fst (get c e) = decodeNode b \<and>
        (localOf (snd (get c e)) = localOf e \<or> localOf (snd (get c e)) = (localOf e)(c \<mapsto> b))"

text \<open>
  The DAG service of mdag.go over the block service of bserv.go keeps this contract, with
  the set-up that \<open>RunEnv\<close> is set and every CID is valid. The environment is the map of the
  local store and the state of the exchange, whose calls return as some schedule lets them.
  \<open>basicDAGWalker\<close> itself takes the services of the same names from the libraries that mdag.go
  and bserv.go were copied from.
\<close>

definition onLocal :: "('m \<Rightarrow> 'a \<times> 'm) \<Rightarrow> 'm \<times> 's \<Rightarrow> 'a \<times> ('m \<times> 's)" where
  "onLocal f e = (let (r, m) = f (fst e) in (r, (m, snd e)))"

definition localBS :: "('b \<Rightarrow> 'c) \<Rightarrow> ('c, 'b, ('c \<rightharpoonup> 'b) \<times> 's) blockstore" where
  "localBS cidOf =
     \<lparr>bsDeleteBlock = (\<lambda>c. onLocal (bsDeleteBlock (memBS cidOf) c)), bsHas = (\<lambda>c. onLocal (bsHas (memBS cidOf) c)),
      bsGet = (\<lambda>c. onLocal (bsGet (memBS cidOf) c)), bsGetSize = (\<lambda>c. onLocal (bsGetSize (memBS cidOf) c)),
      bsPut = (\<lambda>b. onLocal (bsPut (memBS cidOf) b)), bsPutMany = (\<lambda>bl. onLocal (bsPutMany (memBS cidOf) bl)),
      bsAllKeysChan = onLocal (bsAllKeysChan (memBS cidOf)), bsHashOnRead = (\<lambda>enabled e. e)\<rparr>"

definition scheduledGet :: "('c \<Rightarrow> 's \<Rightarrow> 'b \<Rightarrow> 's \<Rightarrow> bool) \<Rightarrow> 'c \<Rightarrow> 'm \<times> 's \<Rightarrow> (goerr + 'b) \<times> ('m \<times> 's)" where
  "scheduledGet fetches c e =
     (if \<exists>b s'. fetches c (snd e) b s'
      then let x = (SOME x. fetches c (snd e) (fst x) (snd x)) in (Inr (fst x), (fst e, snd x))
      else (Inl ErrCtxDone, e))"

definition scheduledExchange :: "('c \<Rightarrow> 's \<Rightarrow> 'b \<Rightarrow> 's \<Rightarrow> bool) \<Rightarrow> ('c, 'b, 'm \<times> 's) exchange" where
  "scheduledExchange fetches =
     \<lparr>exFetcher = \<lparr>fGetBlock = scheduledGet fetches, fGetBlocks = (\<lambda>cs e. (Inl ErrCtxDone, e))\<rparr>,
      exHasBlock = (\<lambda>b e. (None, e)), exClose = (\<lambda>e. (None, e)), exNewSession = None\<rparr>"

definition serviceGet :: "('b \<Rightarrow> 'c) \<Rightarrow> ('c \<Rightarrow> 's \<Rightarrow> 'b \<Rightarrow> 's \<Rightarrow> bool) \<Rightarrow> 'c \<Rightarrow> ('c \<rightharpoonup> 'b) \<times> 's \<Rightarrow> (goerr + 'b) \<times> (('c \<rightharpoonup> 'b) \<times> 's)" where
  "serviceGet cidOf fetches c e =
     (case GetBlock True (\<lambda>_. None) (New (localBS cidOf) (Some (scheduledExchange fetches))) c (e, ()) of
        Ret (r, ez) \<Rightarrow> (r, fst ez)
      | Panic msg \<Rightarrow> (Inl (ErrExternal msg), e))"

definition serviceDag :: "('b \<Rightarrow> 'c) \<Rightarrow> ('c \<Rightarrow> 's \<Rightarrow> 'b \<Rightarrow> 's \<Rightarrow> bool) \<Rightarrow> ('c, 'b, ('c \<rightharpoonup> 'b) \<times> 's) dagService" where
  "serviceDag cidOf fetches = NewDAGService
     \<lparr>bvAddBlock = AddBlock (\<lambda>_. None) cidOf (New (localBS cidOf) (Some (scheduledExchange fetches))),
      bvAddBlocks = AddBlocks (\<lambda>_. None) cidOf (New (localBS cidOf) (Some (scheduledExchange fetches))),
      bvGetBlock = serviceGet cidOf fetches,
      bvDeleteBlock = DeleteBlock (New (localBS cidOf) (Some (scheduledExchange fetches)))\<rparr>"

lemma serviceGet_hit: "fst e c = Some b \<Longrightarrow> serviceGet cidOf fetches c e = (Inr b, e)"
  by (simp add: serviceGet_def GetBlock_def getBlock_def New_def localBS_def onLocal_def memBS_def)

lemma serviceGet_miss:
  assumes "fst e c = None" and "fetches c (snd e) b0 s0"
  shows "\<exists>b s'. fetches c (snd e) b s' \<and> serviceGet cidOf fetches c e = (Inr b, (fst e, s'))"
proof -
  have "fetches c (snd e) (fst (SOME x. fetches c (snd e) (fst x) (snd x))) (snd (SOME x. fetches c (snd e) (fst x) (snd x)))"
    by (rule someI [where x = "(b0, s0)"]) (simp add: assms(2))
  moreover have "serviceGet cidOf fetches c e = (Inr (fst (SOME x. fetches c (snd e) (fst x) (snd x))),
      (fst e, snd (SOME x. fetches c (snd e) (fst x) (snd x))))"
    using assms by (auto simp: serviceGet_def GetBlock_def getBlock_def New_def localBS_def onLocal_def memBS_def recordMessage_def
        scheduledExchange_def getExchange_def scheduledGet_def Let_def)
  ultimately show ?thesis by blast
qed

interpretation service_getter: session_getter "dagGet decodeNode (Some (serviceDag cidOf fetches))" decodeNode fst snd fetches
  for decodeNode :: "'b \<Rightarrow> goerr + 'n" and cidOf :: "'b \<Rightarrow> 'c" and fetches :: "'c \<Rightarrow> 's \<Rightarrow> 'b \<Rightarrow> 's \<Rightarrow> bool"
proof (unfold_locales, goal_cases)
  case (1 e c b)
  then show ?case by (simp add: dagGet_def serviceDag_def NewDAGService_def serviceGet_hit)
next
  case (2 e c b0 s0)
  then show ?case
    using serviceGet_miss [of e c fetches b0 s0 cidOf] by (auto simp: dagGet_def serviceDag_def NewDAGService_def)
qed

section \<open>The walk over the exchange\<close>

context reliable_exchange
begin

lemma quiet_init: "quietState (exInit p w)"
  by (simp add: quietState_def exReach.start) (simp add: pendingOf_def exInit_def NewClient_def registered_def)

text \<open>Environments in which the getter finds every stored node.\<close>

definition goodEnv :: "('e \<Rightarrow> 'c \<rightharpoonup> 'b) \<Rightarrow> ('e \<Rightarrow> ('c, 'b, 'w) exSystem) \<Rightarrow> 'e \<Rightarrow> bool" where
  "goodEnv localOf sysOf e \<longleftrightarrow> quietState (sysOf e) \<and> localOf e \<subseteq>\<^sub>m contents w"

lemma getter_finds:
  assumes sg: "session_getter get decodeNode localOf sysOf gets" and ok: "\<And>cl. freshWants cidString [c] cl \<Longrightarrow> allowed [c] cl"
    and "contents w c = Some b" and "goodEnv localOf sysOf e"
  shows "fst (get c e) = decodeNode b \<and> goodEnv localOf sysOf (snd (get c e))"
proof (cases "localOf e c")
  case (Some b')
  then have "b' = b" using assms(3,4) by (force simp: goodEnv_def map_le_def)
  then show ?thesis using session_getter.get_hit [OF sg Some] assms(4) by (simp add: goodEnv_def)
next
  case None
  have q: "quietState (sysOf e)" and le: "localOf e \<subseteq>\<^sub>m contents w" using assms(4) by (simp_all add: goodEnv_def)
  obtain b0 s0 where "gets c (sysOf e) b0 s0" using get_returns [OF q ok] by blast
  then obtain b' where b': "gets c (sysOf e) b' (sysOf (snd (get c e)))" "fst (get c e) = decodeNode b'"
      "localOf (snd (get c e)) = localOf e \<or> localOf (snd (get c e)) = (localOf e)(c \<mapsto> b')"
    using session_getter.get_miss [OF sg None] by blast
  have "contents w c = Some b'" "quietState (sysOf (snd (get c e)))" using get_right [OF q ok b'(1)] by simp_all
  moreover have "contents w a = Some y" if "localOf e a = Some y" for a y using that le unfolding map_le_def by (metis domI)
  ultimately have "localOf (snd (get c e)) \<subseteq>\<^sub>m contents w" using b'(3) by (auto simp: map_le_def split: if_splits)
  then show ?thesis using assms(3) b'(2) \<open>contents w c = Some b'\<close> \<open>quietState (sysOf (snd (get c e)))\<close> by (simp add: goodEnv_def)
qed

lemma walk_downloads:
  assumes sg: "session_getter get decodeNode localOf sysOf gets" and cs: "cid_set csNew csVisit csHas csElems"
    and ok: "\<And>c cl. c \<in> nodes \<Longrightarrow> freshWants cidString [c] cl \<Longrightarrow> allowed [c] cl"
    and "finite nodes" and "root \<in> nodes" and "\<And>c. c \<in> nodes \<Longrightarrow> defined c" and "\<not> defined undef"
    and node: "\<And>c. c \<in> nodes \<Longrightarrow> \<exists>b nd. contents w c = Some b \<and> decodeNode b = Inr nd \<and> nodeLinks nd = succs c \<and> set (succs c) \<subseteq> nodes"
    and "sysOf env = exInit p w" and "localOf env = Map.empty"
  shows "\<exists>s'. sequentialWalkDepth (Suc (card nodes)) (walkerLinks nodeLinks get)
      (visitDepth (visitProgress csVisit)) (applyOptions [Concurrency 1]) root 0 (walkerInit csNew env) = Some (None, s') \<and>
      csElems (wsSet s') = reach succs root \<and> Value (wsPt s') = int (card (reach succs root)) \<and>
      goodEnv localOf sysOf (wsEnv s')"
proof (rule basic_walk_env [OF cs assms(4,5)])
  show "\<exists>nd e'. get c e = (Inr nd, e') \<and> nodeLinks nd = succs c \<and> goodEnv localOf sysOf e'"
    if c: "c \<in> nodes" and e: "goodEnv localOf sysOf e" for c e
  proof -
    obtain b nd where "contents w c = Some b" "decodeNode b = Inr nd" "nodeLinks nd = succs c" using node [OF c] by blast
    moreover from this(1) have "fst (get c e) = decodeNode b \<and> goodEnv localOf sysOf (snd (get c e))"
      using getter_finds [OF sg _ _ e, of c b] ok [OF c] by blast
    ultimately show ?thesis by (metis prod.collapse)
  qed
  show "goodEnv localOf sysOf env" using assms(9,10) quiet_init by (simp add: goodEnv_def)
qed (use assms(6,7) node in blast)+

end

section \<open>Properties\<close>

text \<open>
  C2: The whole download. A server holds a finite DAG that is closed under links in its store,
  each block under its own CID; first attempts to send succeed. A client starts with an empty
  local store and walks from a root of the DAG with the walk of \<open>basicDAGWalker\<close>; its getter
  asks the local store and then the exchange, the system of Bitswap client and server, under
  any schedule. Then the walk returns, it returns nil, its CID set is exactly what the root
  reaches and its progress their number; and at the end the local store holds only blocks of
  the server's store and no want of the client is open.
\<close>

theorem download_complete:
  assumes "map_iteration iter" and "inj cidString" and "block_store bs blkCid contents"
    and "\<And>g i. attempt g i 0 = None" and "wellNamed blkCid (contents w)"
    and "cid_set csNew csVisit csHas csElems"
    and "session_getter get decodeNode localOf sysOf (exGet cidString newUuid blkCid iter bs attempt)"
    and "finite nodes" and "root \<in> nodes" and "\<And>c. c \<in> nodes \<Longrightarrow> defined c" and "\<not> defined undef"
    and "\<And>c. c \<in> nodes \<Longrightarrow> \<exists>b nd. contents w c = Some b \<and> decodeNode b = Inr nd \<and> nodeLinks nd = succs c \<and> set (succs c) \<subseteq> nodes"
    and "sysOf env = exInit p w" and "localOf env = Map.empty"
  shows "(\<exists>s'. basicWalk defined undef csNew csVisit nodeLinks get root env None s') \<and>
    (\<forall>r s'. basicWalk defined undef csNew csVisit nodeLinks get root env r s' \<longrightarrow>
       r = None \<and> csElems (wsSet s') = reach succs root \<and> Value (wsPt s') = int (card (reach succs root)) \<and>
       localOf (wsEnv s') \<subseteq>\<^sub>m contents w \<and> pendingOf cidString (xsClient (sysOf (wsEnv s'))) = {})"
proof -
  have rel: "reliable_exchange iter bs blkCid contents cidString attempt w (storedWants cidString (contents w))"
    by (rule reliable_exchangeI [OF assms(1-3)]) (simp_all add: assms(4,5))
  have ok: "storedWants cidString (contents w) [c] cl" if "c \<in> nodes" "freshWants cidString [c] cl" for c and cl :: "('a, 'b) client"
    using that assms(12) [OF that(1)] by (auto simp: storedWants_def)
  have "\<exists>s'. sequentialWalkDepth (Suc (card nodes)) (walkerLinks nodeLinks get)
      (visitDepth (visitProgress csVisit)) (applyOptions [Concurrency 1]) root 0 (walkerInit csNew env) = Some (None, s') \<and>
      csElems (wsSet s') = reach succs root \<and> Value (wsPt s') = int (card (reach succs root)) \<and>
      reliable_exchange.goodEnv iter bs blkCid contents cidString newUuid attempt p w
        (storedWants cidString (contents w)) localOf sysOf (wsEnv s')"
    by (rule reliable_exchange.walk_downloads [OF rel assms(7,6), where defined = defined and undef = undef])
      (fact assms | erule assms | erule (1) ok)+
  then obtain s0 where run: "sequentialWalkDepth (Suc (card nodes)) (walkerLinks nodeLinks get)
      (visitDepth (visitProgress csVisit)) (applyOptions [Concurrency 1]) root 0 (walkerInit csNew env) = Some (None, s0)"
    and s0: "csElems (wsSet s0) = reach succs root" "Value (wsPt s0) = int (card (reach succs root))"
    and good: "reliable_exchange.goodEnv iter bs blkCid contents cidString newUuid attempt p w
        (storedWants cidString (contents w)) localOf sysOf (wsEnv s0)"
    by blast
  have "localOf (wsEnv s0) \<subseteq>\<^sub>m contents w" "pendingOf cidString (xsClient (sysOf (wsEnv s0))) = {}"
    using good unfolding reliable_exchange.goodEnv_def [OF rel] reliable_exchange.quietState_def [OF rel] by blast+
  then show ?thesis unfolding basicWalk_iff using run s0 walk_fuel_unique [OF run] by blast
qed

text \<open>An example: two blocks, the first links to the second, over the services of the repository.\<close>

definition pairStore :: "nat \<rightharpoonup> nat" where
  "pairStore = [4 \<mapsto> 4, 5 \<mapsto> 5]"

definition pairLinks :: "nat \<Rightarrow> nat list" where
  "pairLinks c = (if c = 4 then [5] else [])"

abbreviation pairGet :: "(nat, nat, (nat \<rightharpoonup> nat) \<times> (nat, nat, nat \<rightharpoonup> nat) exSystem) nodeGet" where
  "pairGet \<equiv> dagGet Inr (Some (serviceDag id (exGet demoString demoString id demoIter (memBS id) (\<lambda>_ _ _. None))))"

lemma pair_reach: "reach pairLinks 4 = {4, 5}"
proof
  show "reach pairLinks 4 \<subseteq> {4, 5}" by (rule reach_least) (auto simp: pairLinks_def split: if_splits)
  have "5 \<in> set (pairLinks 4)" by (simp add: pairLinks_def)
  then show "{4, 5} \<subseteq> reach pairLinks 4" using reach_step [of 4 pairLinks 4 5] by auto
qed

theorem download_complete_witness:
  "\<exists>s' :: (nat set, _) walkerState. basicWalk (\<lambda>c. c \<noteq> 0) 0 {} setVisit pairLinks pairGet 4 (Map.empty, exInit ''p'' pairStore) None s' \<and>
     wsSet s' = {4, 5} \<and> Value (wsPt s') = 2"
proof -
  have named: "wellNamed id pairStore" by (simp add: wellNamed_def pairStore_def)
  have all: "(\<exists>s'. basicWalk (\<lambda>c. c \<noteq> 0) 0 {} setVisit pairLinks pairGet 4 (Map.empty, exInit ''p'' pairStore) None s') \<and>
    (\<forall>r s'. basicWalk (\<lambda>c. c \<noteq> 0) 0 {} setVisit pairLinks pairGet 4 (Map.empty, exInit ''p'' pairStore) r s' \<longrightarrow>
       r = None \<and> wsSet s' = reach pairLinks 4 \<and> Value (wsPt s') = int (card (reach pairLinks 4)) \<and>
       fst (wsEnv s') \<subseteq>\<^sub>m pairStore \<and> pendingOf demoString (xsClient (snd (wsEnv s'))) = {})"
  proof (rule download_complete [where nodes = "{4, 5}" and p = "''p''" and iter = demoIter and bs = "memBS id" and blkCid = id
        and contents = "\<lambda>w. w" and w = pairStore and attempt = "\<lambda>_ _ _. None" and decodeNode = Inr and localOf = fst and sysOf = snd
        and csElems = "\<lambda>S. S" and csHas = setHas and newUuid = demoString])
    show "session_getter pairGet Inr fst snd (exGet demoString demoString id demoIter (memBS id) (\<lambda>_ _ _. None))"
      by (rule service_getter.session_getter_axioms)
  qed (use named demo_iter.map_iteration_axioms demoString_inj mem.block_store_axioms hol_set.cid_set_axioms in
      \<open>auto simp: pairStore_def pairLinks_def\<close>)
  then show ?thesis unfolding pair_reach by auto
qed

end
