(* ===== verification/Walk2.thy ===== *)
theory Walk2
  imports Visitors
begin

text \<open>
  The walk with a manifest, bitswap/mdag/walk2.go: the getter that asks two getters at once
  (\<open>multing\<close>), the getter that waits for a block to arrive in the cache (\<open>ngwrapper\<close>), and
  the credit that limits how far the manifest requester runs ahead of the walk. The walk
  itself is \<open>Walk\<close> of the theory ParWalk.
\<close>

section \<open>Two getters at once\<close>

text \<open>
  \<open>first\<close> is the result of the getter that ends first and \<open>second\<close> that of the other one,
  whose context has been cancelled by then. The select of a getter that found a node chooses
  between the channel and the end of the context: \<open>send1\<close> and \<open>send2\<close> are its choice where
  both are ready, and \<open>cancelled\<close> says whether the context of the caller is done.
\<close>

definition multingSends :: "bool \<Rightarrow> bool \<Rightarrow> goerr + 'n \<Rightarrow> 'n list" where
  "multingSends ctxDone send r = (case r of Inl err \<Rightarrow> [] | Inr nd \<Rightarrow> if ctxDone \<and> \<not> send then [] else [nd])"

definition multingGet :: "bool \<Rightarrow> bool \<Rightarrow> bool \<Rightarrow> goerr + 'n \<Rightarrow> goerr + 'n \<Rightarrow> goerr + 'n" where
  "multingGet cancelled send1 send2 first second =
     (case multingSends cancelled send1 first @ multingSends True send2 second of
        nd # _ \<Rightarrow> Inr nd
      | [] \<Rightarrow> Inl ErrFormatNotFound)"

text \<open>The batch requests of \<open>multing\<close> and of \<open>ngwrapper\<close> are not implemented.\<close>

definition multingGetMany :: "'c list \<Rightarrow> (goerr + 'n) list outcome" where
  "multingGetMany cids = Panic ''implement me''"

definition ngGetMany :: "'c list \<Rightarrow> (goerr + 'n) list outcome" where
  "ngGetMany cids = Panic ''implement me''"

section \<open>Waiting for the cache\<close>

text \<open>
  The state around an \<open>ngwrapper\<close>: the cache by multihash, the waiting channels of each
  multihash, the channels that have been sent their value, the calls of \<open>Get\<close> with the
  channel of each (call \<open>i\<close> uses channel \<open>i\<close>), and the block that the receiving goroutine
  has put into the cache and not yet announced with \<open>Alert\<close>.
\<close>

datatype ('c, 'b) getPc = Calling 'c | Waiting 'c | Returned "goerr + 'b"

record ('c, 'h, 'b) ngState =
  ngStore :: "'h \<rightharpoonup> 'b"
  ngWaitMH :: "'h \<rightharpoonup> nat set"
  ngSignalled :: "nat set"
  ngCalls :: "('c, 'b) getPc list"
  ngPutDone :: "'c option"

definition ngInit :: "'c list \<Rightarrow> ('c, 'h, 'b) ngState" where
  "ngInit cids = \<lparr>ngStore = Map.empty, ngWaitMH = Map.empty, ngSignalled = {}, ngCalls = map Calling cids, ngPutDone = None\<rparr>"

text \<open>The first part of \<open>Get\<close>, under the lock. The cache reports nothing but "not found".\<close>

definition ngGet :: "('c \<Rightarrow> 'h) \<Rightarrow> nat \<Rightarrow> 'c \<Rightarrow> ('c, 'h, 'b) ngState \<Rightarrow> ('c, 'h, 'b) ngState" where
  "ngGet hashOf i c s =
     (case ngStore s (hashOf c) of
        Some b \<Rightarrow> s\<lparr>ngCalls := (ngCalls s)[i := Returned (Inr b)]\<rparr>
      | None \<Rightarrow>
          (let m = (case ngWaitMH s (hashOf c) of None \<Rightarrow> {} | Some m \<Rightarrow> m)
           in s\<lparr>ngWaitMH := (ngWaitMH s)(hashOf c \<mapsto> insert i m), ngCalls := (ngCalls s)[i := Waiting c]\<rparr>))"

text \<open>The branch of the select after a value on the channel, and the one after the end of the context.\<close>

definition ngWake :: "('c \<Rightarrow> 'h) \<Rightarrow> nat \<Rightarrow> 'c \<Rightarrow> ('c, 'h, 'b) ngState \<Rightarrow> ('c, 'h, 'b) ngState" where
  "ngWake hashOf i c s =
     (case ngStore s (hashOf c) of
        Some b \<Rightarrow> s\<lparr>ngCalls := (ngCalls s)[i := Returned (Inr b)]\<rparr>
      | None \<Rightarrow> s\<lparr>ngCalls := (ngCalls s)[i := Returned (Inl ErrFormatNotFound)]\<rparr>)"

definition ngCancel :: "nat \<Rightarrow> ('c, 'h, 'b) ngState \<Rightarrow> ('c, 'h, 'b) ngState" where
  "ngCancel i s = s\<lparr>ngCalls := (ngCalls s)[i := Returned (Inl ErrCtxDone)]\<rparr>"

text \<open>\<open>Alert\<close>, and the two steps of the goroutine that receives the blocks.\<close>

definition Alert :: "('c \<Rightarrow> 'h) \<Rightarrow> 'c \<Rightarrow> ('c, 'h, 'b) ngState \<Rightarrow> ('c, 'h, 'b) ngState" where
  "Alert hashOf c s =
     (case ngWaitMH s (hashOf c) of
        None \<Rightarrow> s
      | Some chMap \<Rightarrow> s\<lparr>ngSignalled := ngSignalled s \<union> chMap, ngWaitMH := (ngWaitMH s)(hashOf c := None)\<rparr>)"

definition cachePut :: "('c \<Rightarrow> 'h) \<Rightarrow> 'c \<Rightarrow> 'b \<Rightarrow> ('c, 'h, 'b) ngState \<Rightarrow> ('c, 'h, 'b) ngState" where
  "cachePut hashOf c b s = s\<lparr>ngStore := (ngStore s)(hashOf c \<mapsto> b), ngPutDone := Some c\<rparr>"

definition cacheAlert :: "('c \<Rightarrow> 'h) \<Rightarrow> 'c \<Rightarrow> ('c, 'h, 'b) ngState \<Rightarrow> ('c, 'h, 'b) ngState" where
  "cacheAlert hashOf c s = (Alert hashOf c s)\<lparr>ngPutDone := None\<rparr>"

inductive ngStep :: "('c \<Rightarrow> 'h) \<Rightarrow> ('c, 'h, 'b) ngState \<Rightarrow> ('c, 'h, 'b) ngState \<Rightarrow> bool" for hashOf where
  get: "i < length (ngCalls s) \<Longrightarrow> ngCalls s ! i = Calling c \<Longrightarrow> ngStep hashOf s (ngGet hashOf i c s)"
| wake: "i < length (ngCalls s) \<Longrightarrow> ngCalls s ! i = Waiting c \<Longrightarrow> i \<in> ngSignalled s \<Longrightarrow> ngStep hashOf s (ngWake hashOf i c s)"
| cancel: "i < length (ngCalls s) \<Longrightarrow> ngCalls s ! i = Waiting c \<Longrightarrow> ngStep hashOf s (ngCancel i s)"
| put: "ngPutDone s = None \<Longrightarrow> ngStep hashOf s (cachePut hashOf c b s)"
| alert: "ngPutDone s = Some c \<Longrightarrow> ngStep hashOf s (cacheAlert hashOf c s)"

inductive_cases ngStepE: "ngStep hashOf s s'"

inductive ngReach :: "('c \<Rightarrow> 'h) \<Rightarrow> 'c list \<Rightarrow> ('c, 'h, 'b) ngState \<Rightarrow> bool" for hashOf cids where
  start: "ngReach hashOf cids (ngInit cids)"
| step: "ngReach hashOf cids s \<Longrightarrow> ngStep hashOf s s' \<Longrightarrow> ngReach hashOf cids s'"

section \<open>Credit for the manifest\<close>

text \<open>
  The goroutine that requests the CIDs of the manifest: at its range loop, at its first test
  of the credit, on its way to the select after finding none, in the select, woken by a
  signal, with credit before and after the request, or ended.
\<close>

datatype 'c rqPc = RqNext | RqCheck 'c | RqNoCredit 'c | RqWaiting 'c | RqSignalled 'c | RqSend 'c | RqSent 'c
  | RqPanicked | RqDone

text \<open>
  \<open>w2Pend\<close> holds the CIDs whose \<open>visitProgress\<close> has passed its first lock and not yet its
  second one.
\<close>

record ('c, 'h) w2State =
  w2Manifest :: "'c list"
  w2Pc :: "'c rqPc"
  w2Cset :: "'c set"
  w2Pend :: "'c set"
  w2Outstanding :: "'h set"
  w2MaxCredit :: int
  w2CurrentCredit :: int
  w2Requested :: "'c list"
  w2Progress :: ProgressTracker

definition startingCredit :: int where
  "startingCredit = 100"

definition w2Init :: "'c list \<Rightarrow> ('c, 'h) w2State" where
  "w2Init cids = \<lparr>w2Manifest = cids, w2Pc = RqNext, w2Cset = {}, w2Pend = {}, w2Outstanding = {},
     w2MaxCredit = startingCredit, w2CurrentCredit = startingCredit, w2Requested = [], w2Progress = zeroTracker\<rparr>"

text \<open>Sending on \<open>manifestCreditAvailable\<close>, which succeeds only when the requester is in its select.\<close>

definition creditSignal :: "('c, 'h) w2State \<Rightarrow> ('c, 'h) w2State" where
  "creditSignal s = (case w2Pc s of RqWaiting c \<Rightarrow> s\<lparr>w2Pc := RqSignalled c\<rparr> | _ \<Rightarrow> s)"

definition visitStart :: "'c \<Rightarrow> ('c, 'h) w2State \<Rightarrow> ('c, 'h) w2State" where
  "visitStart c s = (if c \<in> w2Cset s then s else s\<lparr>w2Cset := insert c (w2Cset s), w2Pend := insert c (w2Pend s)\<rparr>)"

definition visitCredit :: "('c \<Rightarrow> 'h) \<Rightarrow> 'c \<Rightarrow> ('c, 'h) w2State \<Rightarrow> ('c, 'h) w2State" where
  "visitCredit hashOf c s =
     (if c \<notin> w2Pend s then s
      else let s1 = s\<lparr>w2Pend := w2Pend s - {c}, w2Progress := Increment (w2Progress s)\<rparr>
           in if hashOf c \<in> w2Outstanding s1
              then creditSignal (s1\<lparr>w2Outstanding := w2Outstanding s1 - {hashOf c}, w2MaxCredit := w2MaxCredit s1 + 1,
                                    w2CurrentCredit := w2CurrentCredit s1 + 2\<rparr>)
              else s1)"

text \<open>A step of the requester; \<open>RqWaiting\<close> waits for a signal. A timeout leaves the select to log.\<close>

definition rqStep :: "('c \<Rightarrow> 'h) \<Rightarrow> ('c, 'h) w2State \<Rightarrow> ('c, 'h) w2State" where
  "rqStep hashOf s =
     (case w2Pc s of
        RqNext \<Rightarrow> (case w2Manifest s of [] \<Rightarrow> s\<lparr>w2Pc := RqDone\<rparr> | c # cs \<Rightarrow> s\<lparr>w2Manifest := cs, w2Pc := RqCheck c\<rparr>)
      | RqCheck c \<Rightarrow>
          if w2CurrentCredit s > 0 then s\<lparr>w2CurrentCredit := w2CurrentCredit s - 1, w2Pc := RqSend c\<rparr>
          else s\<lparr>w2Pc := RqNoCredit c\<rparr>
      | RqNoCredit c \<Rightarrow> s\<lparr>w2Pc := RqWaiting c\<rparr>
      | RqWaiting c \<Rightarrow> s
      | RqSignalled c \<Rightarrow>
          if w2CurrentCredit s > 0 then s\<lparr>w2CurrentCredit := w2CurrentCredit s - 1, w2Pc := RqSend c\<rparr>
          else s\<lparr>w2Pc := RqPanicked\<rparr>
      | RqSend c \<Rightarrow> s\<lparr>w2Requested := w2Requested s @ [c], w2Pc := RqSent c\<rparr>
      | RqSent c \<Rightarrow>
          if c \<notin> w2Cset s then s\<lparr>w2Outstanding := insert (hashOf c) (w2Outstanding s), w2Pc := RqNext\<rparr>
          else creditSignal (s\<lparr>w2CurrentCredit := w2CurrentCredit s + 1, w2Pc := RqNext\<rparr>)
      | RqPanicked \<Rightarrow> s
      | RqDone \<Rightarrow> s)"

definition rqTimeout :: "('c, 'h) w2State \<Rightarrow> ('c, 'h) w2State" where
  "rqTimeout s = (case w2Pc s of RqWaiting c \<Rightarrow> s\<lparr>w2Pc := RqNoCredit c\<rparr> | _ \<Rightarrow> s)"

definition rqCancel :: "('c, 'h) w2State \<Rightarrow> ('c, 'h) w2State" where
  "rqCancel s = (case w2Pc s of RqSend c \<Rightarrow> s\<lparr>w2Pc := RqDone\<rparr> | _ \<Rightarrow> s)"

datatype 'c w2Event = Requester | Timeout | Cancel | VisitStart 'c | VisitCredit 'c

fun w2Step :: "('c \<Rightarrow> 'h) \<Rightarrow> 'c w2Event \<Rightarrow> ('c, 'h) w2State \<Rightarrow> ('c, 'h) w2State" where
  "w2Step hashOf Requester s = rqStep hashOf s"
| "w2Step hashOf Timeout s = rqTimeout s"
| "w2Step hashOf Cancel s = rqCancel s"
| "w2Step hashOf (VisitStart c) s = visitStart c s"
| "w2Step hashOf (VisitCredit c) s = visitCredit hashOf c s"

definition w2Run :: "('c \<Rightarrow> 'h) \<Rightarrow> 'c w2Event list \<Rightarrow> ('c, 'h) w2State \<Rightarrow> ('c, 'h) w2State" where
  "w2Run hashOf es s = fold (w2Step hashOf) es s"

end
