(* ===== verification/Walk2Props.thy ===== *)
theory Walk2Props
  imports Walk2
begin

text \<open>
  Properties of the walk with a manifest: the cache getter loses no wake-up and never
  answers "not found" to a call that was woken, the credit never becomes negative and its
  panic is out of reach, no credit is lost between a request and a visit, and the one way in
  which the requester can wait for ever.
\<close>

section \<open>The cache getter\<close>

definition waits :: "('c, 'h, 'b) ngState \<Rightarrow> nat \<Rightarrow> 'c \<Rightarrow> bool" where
  "waits s i c \<longleftrightarrow> i < length (ngCalls s) \<and> ngCalls s ! i = Waiting c"

definition listed :: "('c, 'h, 'b) ngState \<Rightarrow> 'h \<Rightarrow> nat \<Rightarrow> bool" where
  "listed s h i \<longleftrightarrow> (case ngWaitMH s h of None \<Rightarrow> False | Some m \<Rightarrow> i \<in> m)"

text \<open>
  The invariant: who waits is listed under its multihash or has its signal; nobody listed has
  a signal, nor still has to call; a signal comes only with the block in the cache; and while
  somebody is listed for a block in the cache, the goroutine that put it there has its
  \<open>Alert\<close> still to do.
\<close>

definition ngInv :: "('c \<Rightarrow> 'h) \<Rightarrow> ('c, 'h, 'b) ngState \<Rightarrow> bool" where
  "ngInv hashOf s \<longleftrightarrow>
     (\<forall>i c. waits s i c \<longrightarrow> i \<in> ngSignalled s \<or> listed s (hashOf c) i) \<and>
     (\<forall>h i. listed s h i \<longrightarrow> i \<notin> ngSignalled s \<and> i < length (ngCalls s) \<and> (\<forall>c. ngCalls s ! i \<noteq> Calling c)) \<and>
     (\<forall>i \<in> ngSignalled s. i < length (ngCalls s) \<and> (\<forall>c. ngCalls s ! i \<noteq> Calling c)) \<and>
     (\<forall>i c. waits s i c \<longrightarrow> i \<in> ngSignalled s \<longrightarrow> ngStore s (hashOf c) \<noteq> None) \<and>
     (\<forall>h i. listed s h i \<longrightarrow> ngStore s h \<noteq> None \<longrightarrow> map_option hashOf (ngPutDone s) = Some h) \<and>
     (\<forall>h h' i. listed s h i \<longrightarrow> listed s h' i \<longrightarrow> h = h') \<and>
     (\<forall>c. ngPutDone s = Some c \<longrightarrow> ngStore s (hashOf c) \<noteq> None)"

lemma ngInvD:
  assumes "ngInv hashOf s"
  shows "waits s i c \<Longrightarrow> i \<in> ngSignalled s \<or> listed s (hashOf c) i"
    and "listed s h i \<Longrightarrow> i \<notin> ngSignalled s \<and> i < length (ngCalls s) \<and> ngCalls s ! i \<noteq> Calling c"
    and "i \<in> ngSignalled s \<Longrightarrow> i < length (ngCalls s) \<and> ngCalls s ! i \<noteq> Calling c"
    and "waits s i c \<Longrightarrow> i \<in> ngSignalled s \<Longrightarrow> ngStore s (hashOf c) \<noteq> None"
    and "listed s h i \<Longrightarrow> ngStore s h \<noteq> None \<Longrightarrow> map_option hashOf (ngPutDone s) = Some h"
    and "listed s h i \<Longrightarrow> listed s h' i \<Longrightarrow> h = h'"
    and "ngPutDone s = Some c \<Longrightarrow> ngStore s (hashOf c) \<noteq> None"
  using assms unfolding ngInv_def by blast+

lemma ngInv_init: "ngInv hashOf (ngInit cids)"
  by (simp add: ngInv_def waits_def listed_def ngInit_def)

lemma ngInv_return:
  assumes "ngInv hashOf s"
  shows "ngInv hashOf (s\<lparr>ngCalls := (ngCalls s)[i := Returned r]\<rparr>)"
proof -
  have "waits (s\<lparr>ngCalls := (ngCalls s)[i := Returned r]\<rparr>) j c \<longrightarrow> waits s j c" for j c
    by (cases "j = i") (auto simp: waits_def)
  moreover have "listed (s\<lparr>ngCalls := (ngCalls s)[i := Returned r]\<rparr>) = listed s"
    by (simp add: listed_def fun_eq_iff)
  moreover have "(ngCalls s)[i := Returned r] ! j = Calling c \<Longrightarrow> j < length (ngCalls s) \<Longrightarrow> ngCalls s ! j = Calling c" for j c
    by (cases "j = i") auto
  ultimately show ?thesis using assms unfolding ngInv_def by simp metis
qed

lemma ngInv_wait:
  assumes inv: "ngInv hashOf s" and i: "i < length (ngCalls s)" "ngCalls s ! i = Calling c" and "ngStore s (hashOf c) = None"
  shows "ngInv hashOf (ngGet hashOf i c s)"
proof -
  define m where "m = (case ngWaitMH s (hashOf c) of None \<Rightarrow> {} | Some m \<Rightarrow> m)"
  let ?s = "s\<lparr>ngWaitMH := (ngWaitMH s)(hashOf c \<mapsto> insert i m), ngCalls := (ngCalls s)[i := Waiting c]\<rparr>"
  have s': "ngGet hashOf i c s = ?s" using assms(4) by (simp add: ngGet_def m_def)
  have listed: "listed ?s h j \<longleftrightarrow> listed s h j \<or> (h = hashOf c \<and> j = i)" for h j
    by (auto simp: listed_def m_def split: option.splits)
  have waits: "waits ?s j c' \<longleftrightarrow> (if j = i then c' = c else waits s j c')" for j c'
    using i by (auto simp: waits_def nth_list_update)
  have new: "i \<notin> ngSignalled s" "\<not> listed s h i" for h using inv i unfolding ngInv_def by auto
  have call: "(ngCalls s)[i := Waiting c] ! j = (if j = i then Waiting c else ngCalls s ! j)" for j
    using i by (simp add: nth_list_update)
  show ?thesis
    unfolding s' ngInv_def listed waits using inv i new assms(4)
    by (simp add: call ngInv_def)
qed

lemma ngInv_alert:
  assumes inv: "ngInv hashOf s" and "ngPutDone s = Some c"
  shows "ngInv hashOf (cacheAlert hashOf c s)"
proof -
  let ?s = "cacheAlert hashOf c s"
  have f: "ngCalls ?s = ngCalls s" "ngStore ?s = ngStore s" "ngPutDone ?s = None"
    by (simp_all add: cacheAlert_def Alert_def split: option.splits)
  have listed: "listed ?s h j \<longleftrightarrow> listed s h j \<and> h \<noteq> hashOf c" for h j
    by (auto simp: listed_def cacheAlert_def Alert_def split: option.splits)
  have sig: "j \<in> ngSignalled ?s \<longleftrightarrow> j \<in> ngSignalled s \<or> listed s (hashOf c) j" for j
    by (auto simp: listed_def cacheAlert_def Alert_def split: option.splits)
  have stored: "ngStore s (hashOf c) \<noteq> None" using inv assms(2) unfolding ngInv_def by blast
  have waits: "waits ?s = waits s" by (simp add: waits_def f fun_eq_iff)
  note D = ngInvD [OF inv]
  have st: "ngStore s (hashOf c') \<noteq> None" if "waits s i c'" "i \<in> ngSignalled s \<or> listed s (hashOf c) i" for i c'
    using that(2)
  proof
    assume "listed s (hashOf c) i"
    then have "hashOf c' = hashOf c" using D(1) [OF that(1)] D(2) [of "hashOf c" i] D(6) [of "hashOf c" i] by auto
    then show ?thesis using stored by simp
  qed (rule D(4) [OF that(1)])
  have un: "\<not> listed s h i" if "h \<noteq> hashOf c" "ngStore s h \<noteq> None" for h i
    using D(5) [of h i] that assms(2) by auto
  have ns: "i \<notin> ngSignalled s \<and> \<not> listed s (hashOf c) i" if "listed s h i" "h \<noteq> hashOf c" for h i
    using D(2) [OF that(1)] D(6) [OF that(1)] that(2) by blast
  have w: "(i \<in> ngSignalled s \<or> listed s (hashOf c) i) \<or> listed s (hashOf c') i \<and> hashOf c' \<noteq> hashOf c"
    if "waits s i c'" for i c'
    using D(1) [OF that] by (cases "hashOf c' = hashOf c") auto
  have called: "i < length (ngCalls s) \<and> (\<forall>c. ngCalls s ! i \<noteq> Calling c)"
    if "i \<in> ngSignalled s \<or> listed s h i" for i h
    using that D(2,3) by blast
  show ?thesis
    unfolding ngInv_def listed sig waits f
    by (intro conjI allI impI ballI) (use w called st un ns sig D(6) in blast)+
qed

lemma ngInv_put:
  assumes inv: "ngInv hashOf s" and "ngPutDone s = None"
  shows "ngInv hashOf (cachePut hashOf c b s)"
proof -
  have f: "waits (cachePut hashOf c b s) = waits s" "listed (cachePut hashOf c b s) = listed s"
    by (simp_all add: waits_def listed_def cachePut_def fun_eq_iff)
  have "\<not> listed s h i" if "ngStore s h \<noteq> None" for h i
    using inv assms(2) that unfolding ngInv_def by (metis option.distinct(1) option.map_disc_iff)
  then show ?thesis using inv unfolding ngInv_def f by (auto simp: cachePut_def)
qed

lemma ngReach_inv:
  assumes "ngReach hashOf cids s"
  shows "ngInv hashOf s"
  using assms
proof (induction rule: ngReach.induct)
  case start
  show ?case by (rule ngInv_init)
next
  case (step s s')
  from step(2) show ?case
  proof cases
    case (get i c)
    then show ?thesis
      using ngInv_wait [OF step(3), of i c] ngInv_return [OF step(3)]
      by (cases "ngStore s (hashOf c)") (simp_all add: ngGet_def)
  next
    case (wake i c)
    then show ?thesis using ngInv_return [OF step(3)] by (simp add: ngWake_def split: option.splits)
  next
    case (cancel i c)
    then show ?thesis using ngInv_return [OF step(3)] by (simp add: ngCancel_def)
  next
    case (put c b)
    then show ?thesis using ngInv_put [OF step(3)] by simp
  next
    case (alert c)
    then show ?thesis using ngInv_alert [OF step(3)] by simp
  qed
qed

section \<open>The credit\<close>

fun inFlight :: "'c rqPc \<Rightarrow> int" where
  "inFlight (RqSend c) = 1"
| "inFlight (RqSent c) = 1"
| "inFlight _ = 0"

definition creditInv :: "('c, 'h) w2State \<Rightarrow> bool" where
  "creditInv s \<longleftrightarrow> 0 \<le> w2CurrentCredit s \<and> finite (w2Outstanding s)
     \<and> w2CurrentCredit s + int (card (w2Outstanding s)) + inFlight (w2Pc s) \<le> w2MaxCredit s
     \<and> w2Pc s \<noteq> RqPanicked \<and> (\<forall>c. w2Pc s = RqSignalled c \<longrightarrow> 0 < w2CurrentCredit s)"

definition claimInv :: "('c \<Rightarrow> 'h) \<Rightarrow> ('c, 'h) w2State \<Rightarrow> bool" where
  "claimInv hashOf s \<longleftrightarrow>
     (\<forall>h \<in> w2Outstanding s. \<exists>c \<in> set (w2Requested s). hashOf c = h \<and> (c \<notin> w2Cset s \<or> c \<in> w2Pend s))
     \<and> (\<forall>c. w2Pc s = RqSent c \<longrightarrow> c \<in> set (w2Requested s))"

definition countInv :: "('c, 'h) w2State \<Rightarrow> bool" where
  "countInv s \<longleftrightarrow> finite (w2Cset s) \<and> w2Pend s \<subseteq> w2Cset s
     \<and> Value (w2Progress s) + int (card (w2Pend s)) = int (card (w2Cset s))"

lemma creditSignal_fields [simp]:
  "w2Outstanding (creditSignal s) = w2Outstanding s" "w2CurrentCredit (creditSignal s) = w2CurrentCredit s"
  "w2MaxCredit (creditSignal s) = w2MaxCredit s" "w2Cset (creditSignal s) = w2Cset s" "w2Pend (creditSignal s) = w2Pend s"
  "w2Requested (creditSignal s) = w2Requested s" "w2Progress (creditSignal s) = w2Progress s"
  "inFlight (w2Pc (creditSignal s)) = inFlight (w2Pc s)"
  "w2Pc (creditSignal s) = RqPanicked \<longleftrightarrow> w2Pc s = RqPanicked"
  "w2Pc (creditSignal s) = RqSent c \<longleftrightarrow> w2Pc s = RqSent c"
  by (simp_all add: creditSignal_def split: rqPc.splits)

lemma init_inv: "creditInv (w2Init cids)" "claimInv hashOf (w2Init cids)" "countInv (w2Init cids)"
  by (simp_all add: creditInv_def claimInv_def countInv_def w2Init_def startingCredit_def tracker_defs)

lemma rqStep_credit:
  assumes "creditInv s"
  shows "creditInv (rqStep hashOf s)"
proof (cases "w2Pc s")
  case (RqSent c)
  then show ?thesis using assms card_insert_le_m1 [of "Suc (card (w2Outstanding s))" "w2Outstanding s" "hashOf c"]
    by (auto simp: creditInv_def rqStep_def card_insert_if)
qed (use assms in \<open>auto simp: creditInv_def rqStep_def split: list.splits\<close>)

lemma visitCredit_credit:
  assumes "creditInv s"
  shows "creditInv (visitCredit hashOf c s)"
proof (cases "c \<in> w2Pend s \<and> hashOf c \<in> w2Outstanding s")
  case True
  then have "0 < card (w2Outstanding s)" using assms by (auto simp: creditInv_def card_gt_0_iff)
  then show ?thesis using assms True by (auto simp: creditInv_def visitCredit_def Let_def card_Diff_singleton)
qed (use assms in \<open>auto simp: creditInv_def visitCredit_def\<close>)

lemma step_credit: "creditInv s \<Longrightarrow> creditInv (w2Step hashOf e s)"
  by (cases e)
    (simp_all add: rqStep_credit visitCredit_credit,
     auto simp: creditInv_def rqTimeout_def rqCancel_def visitStart_def split: rqPc.splits)

lemma step_claim:
  assumes "claimInv hashOf s"
  shows "claimInv hashOf (w2Step hashOf e s)"
proof (cases e)
  case Requester
  then show ?thesis using assms
    by (cases "w2Pc s") (auto simp: claimInv_def rqStep_def split: list.splits)
next
  case (VisitStart c)
  then show ?thesis using assms by (auto simp: claimInv_def visitStart_def)
next
  case (VisitCredit c)
  then show ?thesis using assms by (fastforce simp: claimInv_def visitCredit_def Let_def)
qed (use assms in \<open>auto simp: claimInv_def rqTimeout_def rqCancel_def split: rqPc.splits\<close>)

lemma step_count:
  assumes "countInv s"
  shows "countInv (w2Step hashOf e s)"
proof (cases e)
  case Requester
  then show ?thesis using assms by (cases "w2Pc s") (auto simp: countInv_def rqStep_def split: list.splits)
next
  case (VisitStart c)
  have "finite (w2Pend s)" using assms by (auto simp: countInv_def intro: finite_subset)
  then show ?thesis using assms VisitStart by (auto simp: countInv_def visitStart_def card_insert_if)
next
  case (VisitCredit c)
  have fin: "finite (w2Pend s)" using assms by (auto simp: countInv_def intro: finite_subset)
  have "0 < card (w2Pend s)" if "c \<in> w2Pend s" using that fin by (auto simp: card_gt_0_iff)
  then show ?thesis using assms VisitCredit fin
    by (auto simp: countInv_def visitCredit_def Let_def tracker_defs card_Diff_singleton)
qed (use assms in \<open>auto simp: countInv_def rqTimeout_def rqCancel_def split: rqPc.splits\<close>)

lemma run_inv:
  assumes "\<And>e s. P s \<Longrightarrow> P (w2Step hashOf e s)" and "P s"
  shows "P (w2Run hashOf es s)"
  using assms(2) unfolding w2Run_def by (induction es arbitrary: s) (simp_all add: assms(1))

text \<open>
  A run that uses up the credit, one CID after the other, and gives it back while the
  requester is on its way to its select.
\<close>

definition useCredit :: "nat \<Rightarrow> int w2Event list" where
  "useCredit n = concat (map (\<lambda>_. [Requester, Requester, Requester, Requester]) [1..int n])"

definition visitAll :: "nat \<Rightarrow> int w2Event list" where
  "visitAll n = concat (map (\<lambda>c. [VisitStart c, VisitCredit c]) [1..int n])"

definition lostWakeup :: "int w2Event list" where
  "lostWakeup = useCredit 100 @ [Requester, Requester] @ visitAll 100 @ [Requester]"

lemma upto_Suc: "[1..int (Suc n)] = [1..int n] @ [1 + int n]"
  using upto_rec2 [of 1 "1 + int n"] by simp

lemma useCredit_run:
  "n \<le> 100 \<Longrightarrow> w2Run id (useCredit n) (w2Init [1..101]) =
     \<lparr>w2Manifest = [1 + int n..101], w2Pc = RqNext, w2Cset = {}, w2Pend = {}, w2Outstanding = {1..int n},
      w2MaxCredit = 100, w2CurrentCredit = 100 - int n, w2Requested = [1..int n], w2Progress = zeroTracker\<rparr>"
proof (induction n)
  case 0
  then show ?case by (simp add: w2Run_def useCredit_def w2Init_def startingCredit_def)
next
  case (Suc n)
  have "insert (1 + int n) {1..int n} = {1..1 + int n}" by auto
  moreover have "[1 + int n..101] = (1 + int n) # [2 + int n..101]" using Suc.prems upto_rec1 [of "1 + int n" 101] by simp
  ultimately show ?case
    using Suc upto_Suc [of n] by (simp add: w2Run_def useCredit_def rqStep_def)
qed

lemma visitAll_run:
  assumes "n \<le> m"
  shows "w2Run id (visitAll n) \<lparr>w2Manifest = man, w2Pc = RqNoCredit c, w2Cset = {}, w2Pend = {}, w2Outstanding = {1..int m},
      w2MaxCredit = mc, w2CurrentCredit = cc, w2Requested = req, w2Progress = zeroTracker\<rparr> =
     \<lparr>w2Manifest = man, w2Pc = RqNoCredit c, w2Cset = {1..int n}, w2Pend = {}, w2Outstanding = {1 + int n..int m},
      w2MaxCredit = mc + int n, w2CurrentCredit = cc + 2 * int n, w2Requested = req, w2Progress = \<lparr>Total = int n\<rparr>\<rparr>"
  using assms
proof (induction n)
  case 0
  then show ?case by (simp add: w2Run_def visitAll_def zeroTracker_def)
next
  case (Suc n)
  have "insert (1 + int n) {1..int n} = {1..1 + int n}" "{1 + int n..int m} - {1 + int n} = {2 + int n..int m}" by auto
  then show ?case
    using Suc upto_Suc [of n]
    by (simp add: w2Run_def visitAll_def visitStart_def visitCredit_def creditSignal_def Increment_def)
qed

lemma lostWakeup_run:
  "w2Run id lostWakeup (w2Init [1..101]) =
     \<lparr>w2Manifest = [], w2Pc = RqWaiting 101, w2Cset = {1..100}, w2Pend = {}, w2Outstanding = {},
      w2MaxCredit = 200, w2CurrentCredit = 200, w2Requested = [1..100], w2Progress = \<lparr>Total = 100\<rparr>\<rparr>"
  using useCredit_run [of 100] visitAll_run [of 100 100 "[]" 101 100 0 "[1..100]"]
  by (simp add: lostWakeup_def w2Run_def rqStep_def)

section \<open>Properties\<close>

text \<open>
  C19: No wake-up is lost between the cache and its getters, however calls, arrivals and
  cancellations interleave: whenever the receiving goroutine is between two blocks, every
  call still waiting for a block that is in the cache has its signal, and when it takes the
  signal it returns that block, never "not found".
\<close>

theorem ngwrapper_no_lost_wakeup:
  assumes "ngReach hashOf cids s" and "i < length (ngCalls s)" and "ngCalls s ! i = Waiting c"
  shows "(ngStore s (hashOf c) \<noteq> None \<longrightarrow> ngPutDone s = None \<longrightarrow> i \<in> ngSignalled s)
    \<and> (i \<in> ngSignalled s \<longrightarrow> (\<exists>b. ngStore s (hashOf c) = Some b \<and> ngCalls (ngWake hashOf i c s) ! i = Returned (Inr b)))"
proof -
  note D = ngInvD [OF ngReach_inv [OF assms(1)]]
  have w: "waits s i c" using assms(2,3) by (simp add: waits_def)
  show ?thesis
    using D(1) [OF w] D(4) [OF w] D(5) [of "hashOf c" i] assms(2) by (auto simp: ngWake_def)
qed

theorem ngwrapper_no_lost_wakeup_witness:
  "let s = cacheAlert id 7 (cachePut id 7 ''x'' (ngGet id 0 7 (ngInit [7 :: nat]))) in
     0 \<in> ngSignalled s \<and> ngCalls (ngWake id 0 7 s) ! 0 = Returned (Inr ''x'')"
proof -
  let ?s0 = "ngInit [7 :: nat] :: (nat, nat, string) ngState"
  let ?s1 = "ngGet id 0 7 ?s0" let ?s2 = "cachePut id 7 ''x'' ?s1" let ?s3 = "cacheAlert id 7 ?s2"
  have "ngReach id [7] ?s1" by (rule ngReach.step [OF ngReach.start ngStep.get]) (simp_all add: ngInit_def)
  then have "ngReach id [7] ?s2" by (rule ngReach.step [OF _ ngStep.put]) (simp add: ngInit_def ngGet_def)
  then have r: "ngReach id [7] ?s3" by (rule ngReach.step [OF _ ngStep.alert]) (simp add: cachePut_def)
  have "0 < length (ngCalls ?s3)" "ngCalls ?s3 ! 0 = Waiting 7" "ngStore ?s3 7 = Some ''x''" "ngPutDone ?s3 = None"
    by (simp_all add: ngInit_def ngGet_def cachePut_def cacheAlert_def Alert_def)
  then show ?thesis using ngwrapper_no_lost_wakeup [OF r, of 0 7] by (simp add: Let_def)
qed

text \<open>
  C20: The credit in every run of the requester and the visits: it is never negative, it and
  the outstanding requests together never exceed the maximum, and the \<open>panic("how!")\<close> after
  a signal is never reached.
\<close>

theorem manifest_credit_bounded:
  "let s = w2Run hashOf es (w2Init cids) in
     0 \<le> w2CurrentCredit s \<and> w2CurrentCredit s + int (card (w2Outstanding s)) \<le> w2MaxCredit s \<and> w2Pc s \<noteq> RqPanicked"
proof -
  define s where "s = w2Run hashOf es (w2Init cids)"
  have "creditInv s" unfolding s_def by (rule run_inv [OF step_credit init_inv(1)])
  moreover have "0 \<le> inFlight (w2Pc s)" by (cases "w2Pc s") auto
  ultimately show ?thesis by (simp add: creditInv_def Let_def flip: s_def)
qed

text \<open>
  C21: No credit is lost in the race between a request and a visit: every outstanding
  multihash belongs to a requested CID that is not visited yet, or whose visit is about to
  give the credit back.
\<close>

theorem outstanding_will_be_credited:
  "let s = w2Run hashOf es (w2Init cids) in
     \<forall>h \<in> w2Outstanding s. \<exists>c \<in> set (w2Requested s). hashOf c = h \<and> (c \<notin> w2Cset s \<or> c \<in> w2Pend s)"
  using run_inv [of "claimInv hashOf" hashOf, OF step_claim init_inv(2), of es cids] by (simp add: claimInv_def Let_def)

theorem outstanding_will_be_credited_witness:
  "let s = w2Run id (replicate 4 Requester) (w2Init [7 :: nat]) in
     w2Outstanding s = {7} \<and> (\<exists>c \<in> set (w2Requested s). id c = 7 \<and> (c \<notin> w2Cset s \<or> c \<in> w2Pend s))"
proof -
  have "w2Outstanding (w2Run id (replicate 4 Requester) (w2Init [7 :: nat])) = {7}"
    by (simp add: w2Run_def w2Init_def rqStep_def startingCredit_def eval_nat_numeral)
  then show ?thesis
    using outstanding_will_be_credited [of id "replicate 4 Requester" "[7 :: nat]"] by (simp add: Let_def)
qed

text \<open>
  The progress of the walk counts each visited CID once, up to the visits that are
  between their two locks.
\<close>

theorem walk2_progress_counts_visits:
  "let s = w2Run hashOf es (w2Init cids) in Value (w2Progress s) + int (card (w2Pend s)) = int (card (w2Cset s))"
  using run_inv [of countInv hashOf, OF step_count init_inv(3), of es cids] by (simp add: countInv_def Let_def)

text \<open>
  C35: A signal sent while the requester is between its test of the credit and its select is
  lost. A run reaches a state with a credit of 200 and nothing outstanding in which the
  requester waits, and there it waits for ever, whatever is visited.
\<close>

theorem manifest_requester_lost_signal:
  "let s = w2Run id lostWakeup (w2Init [1..101]) in
     w2CurrentCredit s = 200 \<and>
     (\<forall>es. w2Pc (w2Run id es s) \<in> {RqWaiting 101, RqNoCredit 101})"
proof -
  define s where "s = w2Run id lostWakeup (w2Init [1..101])"
  have "w2CurrentCredit s = 200 \<and> w2Outstanding s = {} \<and> w2Pc s = RqWaiting 101"
    unfolding s_def lostWakeup_run by simp
  moreover have "w2Pc (w2Run id es t) \<in> {RqWaiting 101, RqNoCredit 101}"
    if "w2Outstanding t = {}" "w2Pc t \<in> {RqWaiting 101, RqNoCredit 101}" for es and t :: "(int, int) w2State"
    using that unfolding w2Run_def
  proof (induction es arbitrary: t)
    case (Cons e es)
    have "w2Outstanding (w2Step id e t) = {} \<and> w2Pc (w2Step id e t) \<in> {RqWaiting 101, RqNoCredit 101}"
      using Cons.prems by (cases e) (auto simp: rqStep_def rqTimeout_def rqCancel_def visitStart_def visitCredit_def Let_def)
    then show ?case using Cons.IH [of "w2Step id e t"] by (simp only: fold_simps)
  qed simp
  ultimately show ?thesis by (simp add: Let_def flip: s_def)
qed

end
