(* ===== verification/TcpTransfer.thy ===== *)
theory TcpTransfer
  imports Prelude "HOL-Library.Multiset"
begin

unbundle bit_operations_syntax

text \<open>
  The plain transfer of tcp.go: the two ends of the protocol that sends a file with its
  length in front, the comparison of interface addresses, the addresses that instances take,
  and the test case \<open>tcptest\<close> that ties them together. The sync service, the network and the
  varint package are outside the repository: their results are arguments.
\<close>

type_synonym byte = "8 word"

section \<open>The protocol\<close>

text \<open>
  An end of a connection: the bytes that arrive, the error a read reports when there are no
  more, the bytes written and the error that a write reports, if any.
\<close>

record conn =
  cnIn :: "byte list"
  cnReadErr :: goerr
  cnOut :: "byte list"
  cnWriteErr :: "goerr option"

definition connWrite :: "byte list \<Rightarrow> conn \<Rightarrow> goerr + conn" where
  "connWrite bs c = (case cnWriteErr c of Some err \<Rightarrow> Inl err | None \<Rightarrow> Inr (c\<lparr>cnOut := cnOut c @ bs\<rparr>))"

definition connReadByte :: "conn \<Rightarrow> goerr + (byte \<times> conn)" where
  "connReadByte c = (case cnIn c of [] \<Rightarrow> Inl (cnReadErr c) | b # bs \<Rightarrow> Inr (b, c\<lparr>cnIn := bs\<rparr>))"

text \<open>The exchange of one byte with which both ends wait for each other.\<close>

definition waitReady :: "conn \<Rightarrow> goerr + conn" where
  "waitReady c =
     (case connWrite [0] c of
        Inl err \<Rightarrow> Inl err
      | Inr c1 \<Rightarrow> (case connReadByte c1 of Inl err \<Rightarrow> Inl err | Inr (_, c2) \<Rightarrow> Inr c2))"

text \<open>
  \<open>stat\<close> is the size that \<open>file.Stat()\<close> reports, an \<open>int64\<close>, and \<open>file\<close> what can be read
  from the file; \<open>toUvarint\<close> is \<open>varint.ToUvarint\<close>. The buffered writer passes everything on
  when it is flushed at the end.
\<close>

definition serverProtocol :: "(64 word \<Rightarrow> byte list) \<Rightarrow> goerr + 64 word \<Rightarrow> byte list \<Rightarrow> conn \<Rightarrow> goerr + conn" where
  "serverProtocol toUvarint stat file c =
     (case waitReady c of
        Inl err \<Rightarrow> Inl err
      | Inr c1 \<Rightarrow>
          (case stat of
             Inl err \<Rightarrow> Inl err
           | Inr sz \<Rightarrow>
               if int (length file) < sint sz then Inl ErrEOF
               else connWrite (toUvarint sz @ take (nat (sint sz)) file) c1))"

text \<open>
  \<open>readUvarint\<close> is \<open>varint.ReadUvarint\<close>. Its result is converted to an \<open>int\<close> of 64 bits and
  refused when that is negative. \<open>make\<close> panics for a length that the runtime cannot allocate,
  more than \<open>maxAlloc\<close>. The code returns the time it took and leaves the bytes in its buffer;
  here they are the result.
\<close>

definition readFull :: "nat \<Rightarrow> byte list \<Rightarrow> goerr + byte list" where
  "readFull n bs =
     (if n \<le> length bs then Inr (take n bs)
      else if bs = [] then Inl ErrEOF else Inl (ErrExternal ''unexpected EOF''))"

definition clientProtocol :: "int \<Rightarrow> (byte list \<Rightarrow> goerr + (64 word \<times> byte list)) \<Rightarrow> conn \<Rightarrow> (goerr + byte list) outcome" where
  "clientProtocol maxAlloc readUvarint c =
     (case waitReady c of
        Inl err \<Rightarrow> Ret (Inl err)
      | Inr c1 \<Rightarrow>
          (case readUvarint (cnIn c1) of
             Inl err \<Rightarrow> Ret (Inl err)
           | Inr (length64, rest) \<Rightarrow>
               (let len = length64
                in if sint len < 0 then Ret (Inl ErrShortBuffer)
                   else if maxAlloc < sint len then Panic ''makeslice: len out of range''
                   else Ret (readFull (nat (sint len)) rest))))"

section \<open>Addresses\<close>

text \<open>The set \<open>aset\<close> is the map the code builds from the texts of the first list.\<close>

definition sameAddrs :: "string list \<Rightarrow> string list \<Rightarrow> bool" where
  "sameAddrs a b =
     (if length a \<noteq> length b then False
      else let aset = fold insert a {} in \<forall>addr \<in> set b. addr \<in> aset)"

text \<open>The last two bytes of the address of instance \<open>seq\<close>, an \<open>int64\<close>.\<close>

definition ipC :: "64 word \<Rightarrow> byte" where
  "ipC seq = ucast (signed_drop_bit 8 seq + 1)"

definition ipD :: "64 word \<Rightarrow> byte" where
  "ipD seq = ucast seq"

definition instanceIP :: "byte list \<Rightarrow> 64 word \<Rightarrow> byte list" where
  "instanceIP subnet seq = take 2 subnet @ [ipC seq, ipD seq]"

definition serverIP :: "byte list \<Rightarrow> byte list" where
  "serverIP ip = take 3 ip @ [1]"

section \<open>The test case\<close>

text \<open>
  What the outside world answers to \<open>tcptest\<close>, in the order in which it is asked: the
  addresses, the two parameters, the sequence number, the addresses again, the listener, the
  connection and the CAR file.
\<close>

record tcpEnv =
  teOldAddrs :: "goerr + string list"
  teLatency :: "goerr + int"
  teBandwidth :: "goerr + 64 word"
  teSeq :: "64 word"
  teNewAddrs :: "goerr + string list"
  teSubnet :: "byte list"
  teListenErr :: "goerr option"
  teConn :: "goerr + conn"
  teFile :: "goerr + byte list"
  teStat :: "goerr + 64 word"

text \<open>What it does that others can see: network configurations, barriers, listening, dialling and the transfer.\<close>

datatype tcpAct =
    ConfigureNetwork int "64 word" "byte list" string
  | SignalAndWait string
  | ListenTCP
  | AcceptTCP
  | DialTCP "byte list"
  | ServerDone conn
  | ClientDone "byte list"

definition tcpTransfer :: "int \<Rightarrow> (64 word \<Rightarrow> byte list) \<Rightarrow> (byte list \<Rightarrow> goerr + (64 word \<times> byte list)) \<Rightarrow> tcpEnv \<Rightarrow> conn
    \<Rightarrow> (goerr + tcpAct) outcome" where
  "tcpTransfer maxAlloc toUvarint readUvarint env c =
     (if teSeq env = 1
      then Ret (case teFile env of
                  Inl err \<Rightarrow> Inl err
                | Inr file \<Rightarrow> map_sum id ServerDone (serverProtocol toUvarint (teStat env) file c))
      else case clientProtocol maxAlloc readUvarint c of
             Panic msg \<Rightarrow> Panic msg
           | Ret r \<Rightarrow> Ret (map_sum id ClientDone r))"

definition tcptest :: "int \<Rightarrow> (64 word \<Rightarrow> byte list) \<Rightarrow> (byte list \<Rightarrow> goerr + (64 word \<times> byte list)) \<Rightarrow> tcpEnv
    \<Rightarrow> goerr option outcome \<times> tcpAct list" where
  "tcptest maxAlloc toUvarint readUvarint env =
     (case teOldAddrs env of Inl err \<Rightarrow> (Ret (Some err), [])
      | Inr oldAddrs \<Rightarrow>
     (case teLatency env of Inl err \<Rightarrow> (Ret (Some err), [])
      | Inr latency \<Rightarrow>
     (case teBandwidth env of Inl err \<Rightarrow> (Ret (Some err), [])
      | Inr bandwidth \<Rightarrow>
     (let t1 = [ConfigureNetwork latency (bandwidth * 8) [] ''network-configured'', SignalAndWait ''ip-allocation'']
      in case teNewAddrs env of Inl err \<Rightarrow> (Ret (Some err), t1)
      | Inr newAddrs \<Rightarrow>
      if \<not> sameAddrs oldAddrs newAddrs then (Ret (Some (Errorf ''interfaces changed'' None)), t1)
      else
        let seq = teSeq env;
            ip = instanceIP (teSubnet env) seq;
            t2 = t1 @ (if seq = 1 then [ListenTCP] else [])
        in if seq = 1 \<and> teListenErr env \<noteq> None then (Ret (teListenErr env), t2)
        else
          let t3 = t2 @ [ConfigureNetwork latency (bandwidth * 8) ip ''ip-changed'']
          in if seq \<noteq> 1 \<and> seq \<noteq> 2 then (Ret (Some (Errorf ''expected at most two test instances'' None)), t3)
          else
            let t4 = t3 @ [if seq = 1 then AcceptTCP else DialTCP (serverIP ip)]
            in case teConn env of Inl err \<Rightarrow> (Ret (Some err), t4)
               | Inr c \<Rightarrow>
                   (case tcpTransfer maxAlloc toUvarint readUvarint env c of
                      Panic msg \<Rightarrow> (Panic msg, t4)
                    | Ret (Inl err) \<Rightarrow> (Ret (Some err), t4)
                    | Ret (Inr act) \<Rightarrow> (Ret None, t4 @ [act, SignalAndWait ''test-done'']))))))"

section \<open>Lemmas\<close>

lemma waitReady_ok: "cnWriteErr c = None \<Longrightarrow> cnIn c = b # bs \<Longrightarrow> waitReady c = Inr (c\<lparr>cnOut := cnOut c @ [0], cnIn := bs\<rparr>)"
  by (simp add: waitReady_def connWrite_def connReadByte_def)

text \<open>What is relied on of the varint package: lengths below \<open>2 ^ 63\<close> are read back.\<close>

locale uvarint =
  fixes toUvarint :: "64 word \<Rightarrow> byte list" and readUvarint :: "byte list \<Rightarrow> goerr + (64 word \<times> byte list)"
  assumes read_written: "0 \<le> sint n \<Longrightarrow> readUvarint (toUvarint n @ rest) = Inr (n, rest)"

context uvarint
begin

lemma transfer:
  assumes "cnWriteErr cs = None" and "cnIn cs = bs # ins" and "cnOut cs = []"
    and "int (length file) = sint sz"
    and "serverProtocol toUvarint (Inr sz) file cs = Inr cs'"
    and "cnWriteErr cc = None" and "cnIn cc = cnOut cs'"
  shows "clientProtocol maxAlloc readUvarint cc =
    (if int (length file) \<le> maxAlloc then Ret (Inr file) else Panic ''makeslice: len out of range'')"
proof -
  have n: "nat (sint sz) = length file" "\<not> int (length file) < sint sz" "0 \<le> sint sz" "sint sz = int (length file)"
    using assms(4) by linarith+
  have out: "cnOut cs' = 0 # toUvarint sz @ file"
    using assms(1-3,5) n by (auto simp: serverProtocol_def waitReady_ok connWrite_def)
  then have "waitReady cc = Inr (cc\<lparr>cnOut := cnOut cc @ [0], cnIn := toUvarint sz @ file\<rparr>)"
    using waitReady_ok [OF assms(6)] assms(7) by simp
  then show ?thesis using n by (simp add: clientProtocol_def read_written readFull_def)
qed

end

text \<open>The unsigned varints of multiformats, seven bits to a byte and at most 63 bits, keep that contract.\<close>

fun uvarintBytes :: "nat \<Rightarrow> byte list" where
  "uvarintBytes n = (if n < 128 then [word_of_nat n] else word_of_nat (n mod 128 + 128) # uvarintBytes (n div 128))"

declare uvarintBytes.simps [simp del]

fun uvarintVal :: "byte list \<Rightarrow> (nat \<times> byte list) option" where
  "uvarintVal [] = None"
| "uvarintVal (b # bs) =
     (if unat b < 128 then Some (unat b, bs)
      else case uvarintVal bs of None \<Rightarrow> None | Some (n, rest) \<Rightarrow> Some (unat b - 128 + 128 * n, rest))"

definition uvarintRead :: "byte list \<Rightarrow> goerr + (64 word \<times> byte list)" where
  "uvarintRead bs =
     (case uvarintVal bs of
        None \<Rightarrow> Inl ErrEOF
      | Some (n, rest) \<Rightarrow> if n < 2 ^ 63 then Inr (word_of_nat n, rest) else Inl (ErrExternal ''varint overflow''))"

lemma unat_byte: "n < 256 \<Longrightarrow> unat (word_of_nat n :: byte) = n"
  by (simp add: unat_of_nat)

lemma uvarintVal_bytes: "uvarintVal (uvarintBytes n @ rest) = Some (n, rest)"
proof (induction n rule: uvarintBytes.induct)
  case (1 n)
  show ?case
  proof (cases "n < 128")
    case True
    then show ?thesis by (subst uvarintBytes.simps) (simp add: unat_byte)
  next
    case False
    have "unat (word_of_nat (n mod 128 + 128) :: byte) = n mod 128 + 128" by (rule unat_byte) simp
    then show ?thesis using 1 False by (subst uvarintBytes.simps) (simp del: of_nat_add)
  qed
qed

lemma unat_nonneg:
  assumes "0 \<le> sint (n :: 64 word)"
  shows "unat n < 2 ^ 63"
proof -
  have lt: "sint n < 2 ^ 63" using sint_lt [of n] by simp
  have "uint n = uint (word_of_int (sint n) :: 64 word)" by simp
  also have "\<dots> = sint n mod 2 ^ 64" by (simp only: uint_word_of_int) simp
  also have "\<dots> = sint n" using assms lt by (intro mod_pos_pos_trivial) auto
  finally show ?thesis using lt assms by (simp add: unat_eq_nat_uint nat_less_iff)
qed

interpretation leb: uvarint "\<lambda>n. uvarintBytes (unat n)" uvarintRead
  by unfold_locales (auto simp: uvarintRead_def uvarintVal_bytes dest: unat_nonneg)

end
