(* ===== verification/TcpProps.thy ===== *)
theory TcpProps
  imports TcpTransfer
begin

text \<open>
  Properties of the plain transfer: the file arrives unchanged, the client reads exactly the
  announced length and refuses lengths that do not fit, the comparison of addresses is a
  comparison of multisets only when no address is repeated, instances get different
  addresses, and the barrier at the end is reached exactly on success.
\<close>

lemma sint_small: "k < 2 ^ 16 \<Longrightarrow> sint (word_of_nat k :: 64 word) = int k"
proof -
  assume "k < 2 ^ 16"
  then have "signed_take_bit 63 (int k) = int k" by (intro signed_take_bit_int_eq_self) simp_all
  then show ?thesis by (simp add: signed_of_nat)
qed

lemma unat_byte_of: "unat (ucast (word_of_nat n :: 64 word) :: byte) = n mod 256" if "n < 2 ^ 64"
  using that by (simp add: unsigned_ucast_eq unsigned_of_nat take_bit_eq_mod mod_mod_cancel)

lemma unat_ipC:
  assumes "unat seq < 2 ^ 16"
  shows "unat (ipC seq) = (unat seq div 256 + 1) mod 256"
proof -
  define k where "k = unat seq"
  have k: "k < 2 ^ 16" and seq: "seq = word_of_nat k" using assms by (simp_all add: k_def)
  have "signed_drop_bit 8 seq = word_of_int (sint (signed_drop_bit 8 seq))" by simp
  also have "sint (signed_drop_bit 8 seq) = int (k div 256)"
    unfolding seq by (simp add: sint_signed_drop_bit_eq drop_bit_eq_div sint_small [OF k] zdiv_int)
  finally have "signed_drop_bit 8 seq + 1 = word_of_nat (k div 256 + 1)" by simp
  moreover have "k div 256 + 1 < 2 ^ 64" using k by (simp add: div_le_dividend order_le_less_trans)
  ultimately show ?thesis unfolding ipC_def by (simp only: unat_byte_of) (simp add: k_def)
qed

lemma unat_ipD: "unat (ipD seq) = unat seq mod 256"
  by (simp add: ipD_def unsigned_ucast_eq take_bit_eq_mod)

lemma map_sum_Inr: "map_sum id f r = Inr y \<longleftrightarrow> (\<exists>x. r = Inr x \<and> y = f x)"
  by (cases r) auto

lemma tcpTransfer_act: "tcpTransfer maxAlloc toUvarint readUvarint env c = Ret (Inr act) \<Longrightarrow> act \<noteq> SignalAndWait st"
  by (auto simp: tcpTransfer_def map_sum_Inr split: sum.splits if_splits outcome.splits)

section \<open>Properties\<close>

text \<open>
  C10: The file arrives unchanged. If the server end, with the size that the file really has,
  reports no error, then a client that receives what it wrote ends up with exactly the bytes
  of the file, for every varint package that reads its own lengths below \<open>2 ^ 63\<close> back. Only
  for a file larger than what the client can allocate it panics.
\<close>

theorem transfer_round_trip:
  assumes "uvarint toUvarint readUvarint"
    and "cnWriteErr cs = None" and "cnIn cs = b # ins" and "cnOut cs = []"
    and "int (length file) = sint sz"
    and "serverProtocol toUvarint (Inr sz) file cs = Inr cs'"
    and "cnWriteErr cc = None" and "cnIn cc = cnOut cs'"
  shows "clientProtocol maxAlloc readUvarint cc =
    (if int (length file) \<le> maxAlloc then Ret (Inr file) else Panic ''makeslice: len out of range'')"
  by (rule uvarint.transfer [OF assms])

theorem transfer_round_trip_witness:
  "\<exists>cs'. serverProtocol (\<lambda>n. uvarintBytes (unat n)) (Inr 3) [7, 8, 9]
      \<lparr>cnIn = [0], cnReadErr = ErrEOF, cnOut = [], cnWriteErr = None\<rparr> = Inr cs'
    \<and> clientProtocol 1024 uvarintRead \<lparr>cnIn = cnOut cs', cnReadErr = ErrEOF, cnOut = [], cnWriteErr = None\<rparr> = Ret (Inr [7, 8, 9])"
proof -
  let ?cs = "\<lparr>cnIn = [0], cnReadErr = ErrEOF, cnOut = [], cnWriteErr = None\<rparr>"
  obtain cs' where s: "serverProtocol (\<lambda>n. uvarintBytes (unat n)) (Inr 3) [7, 8, 9] ?cs = Inr cs'"
    by (simp add: serverProtocol_def waitReady_ok connWrite_def)
  then show ?thesis
    using transfer_round_trip [OF leb.uvarint_axioms _ _ _ _ s, of 0 "[]"
        "\<lparr>cnIn = cnOut cs', cnReadErr = ErrEOF, cnOut = [], cnWriteErr = None\<rparr>" 1024]
    by simp
qed

text \<open>
  C32: Bounds of the client. It refuses every announced length that is negative as a 64-bit
  \<open>int\<close>, and it panics exactly when the length is more than it can allocate; when it gets
  bytes, they are as many as announced and lead what arrived.
\<close>

theorem clientProtocol_length:
  assumes "waitReady c = Inr c1" and "readUvarint (cnIn c1) = Inr (length64, rest)"
  shows "case clientProtocol maxAlloc readUvarint c of
      Ret (Inr bytes) \<Rightarrow> 0 \<le> sint length64 \<and> sint length64 \<le> maxAlloc \<and> int (length bytes) = sint length64 \<and> (\<exists>tail. rest = bytes @ tail)
    | Ret (Inl err) \<Rightarrow> (sint length64 < 0 \<longrightarrow> err = ErrShortBuffer)
        \<and> (0 \<le> sint length64 \<longrightarrow> sint length64 \<le> maxAlloc \<and> int (length rest) < sint length64)
    | Panic msg \<Rightarrow> 0 \<le> sint length64 \<and> maxAlloc < sint length64"
  using assms
  by (auto simp: clientProtocol_def readFull_def Let_def nat_le_iff nat_less_iff split: sum.splits if_splits)
    (metis append_take_drop_id)

theorem clientProtocol_length_witness:
  "clientProtocol 1024 (\<lambda>bs. Inr (- 1, bs)) \<lparr>cnIn = [0], cnReadErr = ErrEOF, cnOut = [], cnWriteErr = None\<rparr> = Ret (Inl ErrShortBuffer)"
proof -
  let ?c = "\<lparr>cnIn = [0], cnReadErr = ErrEOF, cnOut = [], cnWriteErr = None\<rparr>"
  have w: "waitReady ?c = Inr \<lparr>cnIn = [], cnReadErr = ErrEOF, cnOut = [0], cnWriteErr = None\<rparr>" by (simp add: waitReady_ok)
  show ?thesis
    using clientProtocol_length [OF w, of "\<lambda>bs. Inr (- 1, bs)" "- 1" "[]" 1024]
    by (auto simp: clientProtocol_def w split: sum.splits)
qed

text \<open>
  \<open>sameAddrs\<close> is equality up to order whenever the second list has no address twice.
\<close>

theorem sameAddrs_permutation:
  assumes "distinct b"
  shows "sameAddrs a b \<longleftrightarrow> mset a = mset b"
proof
  assume "sameAddrs a b"
  then have len: "length a = length b" and sub: "set b \<subseteq> set a"
    by (auto simp: sameAddrs_def Let_def fold_insert_is_set split: if_splits)
  have "card (set b) = length a" using assms len by (simp add: distinct_card)
  then have "set b = set a" using sub card_length [of a] card_mono [OF _ sub] by (intro card_subset_eq) auto
  moreover have "distinct a" using calculation \<open>card (set b) = length a\<close> by (simp add: card_distinct)
  ultimately show "mset a = mset b" using assms by (simp add: set_eq_iff_mset_eq_distinct)
next
  assume m: "mset a = mset b"
  then show "sameAddrs a b"
    using mset_eq_length [OF m] mset_eq_setD [OF m] by (auto simp: sameAddrs_def Let_def fold_insert_is_set)
qed

theorem sameAddrs_permutation_witness:
  "sameAddrs [''10.0.0.1'', ''127.0.0.1''] [''127.0.0.1'', ''10.0.0.1'']"
  using sameAddrs_permutation [of "[''127.0.0.1'', ''10.0.0.1'']" "[''10.0.0.1'', ''127.0.0.1'']"] by simp

text \<open>
  With a repeated address the comparison is not symmetric: a list that lost one of two
  addresses and repeats the other one is accepted in one direction and refused in the other.
\<close>

theorem sameAddrs_not_symmetric:
  assumes "x \<noteq> y"
  shows "sameAddrs [x, y] [x, x] \<and> \<not> sameAddrs [x, x] [x, y]"
  using assms by (simp add: sameAddrs_def)

theorem sameAddrs_not_symmetric_witness:
  "sameAddrs [''a'', ''b''] [''a'', ''a''] \<and> \<not> sameAddrs [''a'', ''a''] [''a'', ''b'']"
  by (rule sameAddrs_not_symmetric) simp

text \<open>
  C31: Up to 65536 instances get different addresses, and instance 2 dials the address that
  instance 1 takes.
\<close>

theorem instanceIP_unique:
  assumes "unat s1 < 2 ^ 16" and "unat s2 < 2 ^ 16" and "2 \<le> length subnet"
  shows "(instanceIP subnet s1 = instanceIP subnet s2 \<longleftrightarrow> s1 = s2)
    \<and> serverIP (instanceIP subnet 2) = instanceIP subnet 1"
proof
  show "serverIP (instanceIP subnet 2) = instanceIP subnet 1"
    using assms(3) by (simp add: serverIP_def instanceIP_def ipC_def ipD_def min_def)
  show "instanceIP subnet s1 = instanceIP subnet s2 \<longleftrightarrow> s1 = s2"
  proof
    assume "instanceIP subnet s1 = instanceIP subnet s2"
    then have "ipC s1 = ipC s2" "ipD s1 = ipD s2" by (simp_all add: instanceIP_def)
    then have c: "(unat s1 div 256 + 1) mod 256 = (unat s2 div 256 + 1) mod 256" and d: "unat s1 mod 256 = unat s2 mod 256"
      using assms(1,2) by (metis unat_ipC, metis unat_ipD)
    have "unat s1 div 256 < 256" "unat s2 div 256 < 256" using assms(1,2) by (simp_all add: less_mult_imp_div_less)
    then have "unat s1 div 256 = unat s2 div 256" using c by (auto simp: mod_Suc split: if_splits)
    then have "unat s1 = unat s2" using d by (metis div_mult_mod_eq)
    then show "s1 = s2" by (rule word_unat_eq_iff [THEN iffD2])
  qed simp
qed

theorem instanceIP_unique_witness:
  "(instanceIP [16, 4, 0, 0] 1 = instanceIP [16, 4, 0, 0] 257 \<longleftrightarrow> (1 :: 64 word) = 257)
    \<and> serverIP (instanceIP [16, 4, 0, 0] 2) = instanceIP [16, 4, 0, 0] 1"
  by (rule instanceIP_unique) simp_all

text \<open>
  The test case announces "test-done" exactly when it succeeds, once and last; before
  that it passes the barrier "ip-allocation" once at most.
\<close>

theorem tcptest_barriers:
  "let (err, trace) = tcptest maxAlloc toUvarint readUvarint env;
       barriers = filter (\<lambda>a. \<exists>st. a = SignalAndWait st) trace
   in if err = Ret None then barriers = [SignalAndWait ''ip-allocation'', SignalAndWait ''test-done'']
                         \<and> last trace = SignalAndWait ''test-done''
      else barriers = [] \<or> barriers = [SignalAndWait ''ip-allocation'']"
  by (auto simp: tcptest_def Let_def dest: tcpTransfer_act split: sum.splits if_splits outcome.splits)

end
