(* ===== verification/Generate.thy ===== *)
theory Generate
  imports FetchGraph Blockstores TcpTransfer
begin

text \<open>
  The data of the tests: generate.go (the deep DAG, the choice of the data set by the test
  parameters, and the block store of the server). Files, hashing and codecs are outside the
  repository; what they return is an argument. The CAR file of a list of paths is in CarFiles.
\<close>

section \<open>CAR files\<close>

record ('c, 'n) carFile =
  carRoots :: "'c list"
  carBlocks :: "'c \<rightharpoonup> 'n"

section \<open>The deep DAG\<close>

text \<open>A leaf with raw bytes, or a node with its height, the link to the next one, and padding.\<close>

datatype 'c ddNode = RawLeaf "byte list" | DeepNode int 'c "byte list"

fun ddLinks :: "'c ddNode \<Rightarrow> 'c list" where
  "ddLinks (RawLeaf _) = []"
| "ddLinks (DeepNode _ next _) = [next]"

text \<open>
  \<open>rng k n\<close> is the \<open>k\<close>-th read of at most \<open>n\<close> bytes from the generator; \<open>cidOf\<close> is the CID
  under which \<open>lsys.Store\<close> puts a node, and \<open>storeErr\<close> its error.
\<close>

definition lsysStore :: "('c ddNode \<Rightarrow> 'c) \<Rightarrow> ('c ddNode \<Rightarrow> goerr option) \<Rightarrow> 'c ddNode \<Rightarrow> ('c \<rightharpoonup> 'c ddNode)
    \<Rightarrow> goerr + 'c \<times> ('c \<rightharpoonup> 'c ddNode)" where
  "lsysStore cidOf storeErr nd blocks =
     (case storeErr nd of Some err \<Rightarrow> Inl err | None \<Rightarrow> Inr (cidOf nd, blocks(cidOf nd \<mapsto> nd)))"

text \<open>The loop \<open>for i := 1; i < depth; i++\<close>.\<close>

function deepLevels :: "('c ddNode \<Rightarrow> 'c) \<Rightarrow> ('c ddNode \<Rightarrow> goerr option) \<Rightarrow> (nat \<Rightarrow> int \<Rightarrow> goerr + byte list) \<Rightarrow> int \<Rightarrow> int
    \<Rightarrow> int \<Rightarrow> 'c \<Rightarrow> ('c \<rightharpoonup> 'c ddNode) \<Rightarrow> goerr + 'c \<times> ('c \<rightharpoonup> 'c ddNode)" where
  "deepLevels cidOf storeErr rng approxBlockSize depth i nextCid blocks =
     (if \<not> i < depth then Inr (nextCid, blocks)
      else case rng (nat i) approxBlockSize of
             Inl err \<Rightarrow> Inl err
           | Inr buf \<Rightarrow>
               (case lsysStore cidOf storeErr (DeepNode i nextCid buf) blocks of
                  Inl err \<Rightarrow> Inl err
                | Inr (lnk, blocks') \<Rightarrow>
                    deepLevels cidOf storeErr rng approxBlockSize depth (i + 1) lnk blocks'))"
  by pat_completeness auto
termination by (relation "measure (\<lambda>(_, _, _, _, depth, i, _, _). nat (depth - i))") auto

declare deepLevels.simps [simp del]

definition GenerateDeepDagCarFile :: "('c ddNode \<Rightarrow> 'c) \<Rightarrow> goerr option \<Rightarrow> ('c ddNode \<Rightarrow> goerr option) \<Rightarrow> goerr option
    \<Rightarrow> (nat \<Rightarrow> int \<Rightarrow> goerr + byte list) \<Rightarrow> int \<Rightarrow> int \<Rightarrow> goerr + ('c, 'c ddNode) carFile" where
  "GenerateDeepDagCarFile cidOf prepErr storeErr endErr rng approxBlockSize depth =
     (case prepErr of Some err \<Rightarrow> Inl err
      | None \<Rightarrow>
     (case rng 0 approxBlockSize of Inl err \<Rightarrow> Inl err
      | Inr buf \<Rightarrow>
     (case lsysStore cidOf storeErr (RawLeaf buf) Map.empty of Inl err \<Rightarrow> Inl err
      | Inr (leafLnk, blocks) \<Rightarrow>
     (case deepLevels cidOf storeErr rng approxBlockSize depth 1 leafLnk blocks of Inl err \<Rightarrow> Inl err
      | Inr (nextCid, blocks') \<Rightarrow>
     (case endErr of Some err \<Rightarrow> Inl err
      | None \<Rightarrow> Inr \<lparr>carRoots = [nextCid], carBlocks = blocks'\<rparr>)))))"

section \<open>The data set of a test\<close>

text \<open>
  The UnixFS file, with the temporary files, the copy and \<open>UnixFSCARBlockstore\<close> as results;
  \<open>'f\<close> is the type of files.
\<close>

definition GenerateUnixFSCarFile :: "goerr option \<Rightarrow> (64 word \<Rightarrow> goerr option) \<Rightarrow> goerr + 'f \<Rightarrow> goerr option \<Rightarrow> 64 word \<Rightarrow> goerr + 'f" where
  "GenerateUnixFSCarFile createErr copyErr outputBS carErr fileSize =
     (case createErr of Some err \<Rightarrow> Inl err
      | None \<Rightarrow> (case copyErr fileSize of Some err \<Rightarrow> Inl err
      | None \<Rightarrow> (case outputBS of Inl err \<Rightarrow> Inl err
      | Inr out \<Rightarrow> (case carErr of Some err \<Rightarrow> Inl err | None \<Rightarrow> Inr out))))"

text \<open>
  The choice by the parameter \<open>dagtype\<close>. \<open>parseBytes\<close> and \<open>parseJson\<close> read the parameter
  \<open>dagparams\<close>; the padding becomes an \<open>int\<close> of 64 bits.
\<close>

definition GetCARFileFromConfig :: "(string \<Rightarrow> goerr + 64 word) \<Rightarrow> (string \<Rightarrow> goerr + string \<times> int)
    \<Rightarrow> (64 word \<Rightarrow> goerr + 'f) \<Rightarrow> (int \<Rightarrow> int \<Rightarrow> goerr + 'f) \<Rightarrow> string \<Rightarrow> string \<Rightarrow> (goerr + 'f) outcome" where
  "GetCARFileFromConfig parseBytes parseJson unixfs deep dagtype dagparams =
     (if dagtype = ''unixfs-file'' then
        Ret (case parseBytes dagparams of Inl err \<Rightarrow> Inl err | Inr fileSize \<Rightarrow> unixfs fileSize)
      else if dagtype = ''deep-ipld'' then
        Ret (case parseJson dagparams of
               Inl err \<Rightarrow> Inl err
             | Inr (padding, depth) \<Rightarrow>
                 (case parseBytes padding of Inl err \<Rightarrow> Inl err | Inr approxBlockSize \<Rightarrow> deep (sint approxBlockSize) depth))
      else Panic (''unsupported dagtype '' @ dagtype))"

definition GetBlockstoreFromConfig :: "(goerr + 'f) outcome \<Rightarrow> ('f \<Rightarrow> goerr + ('c, 'b, 'w) blockstore)
    \<Rightarrow> (('c, 'b, 'w) blockstore \<Rightarrow> goerr + 'c list) \<Rightarrow> goerr + ('w \<Rightarrow> 'w)
    \<Rightarrow> (goerr + ('c, 'b, 'w) blockstore \<times> 'c) outcome" where
  "GetBlockstoreFromConfig carFile load rootsOf delay =
     (case carFile of
        Panic msg \<Rightarrow> Panic msg
      | Ret (Inl err) \<Rightarrow> Ret (Inl err)
      | Ret (Inr f) \<Rightarrow>
          Ret (case load f of Inl err \<Rightarrow> Inl err
               | Inr dataBS \<Rightarrow>
                   (case rootsOf dataBS of Inl err \<Rightarrow> Inl err
                    | Inr roots \<Rightarrow>
                        if length roots \<noteq> 1 then Inl (Errorf ''there should be exactly one root'' None)
                        else (case delay of Inl err \<Rightarrow> Inl err
                              | Inr wait \<Rightarrow> Inr (delayedBlockstore wait dataBS, roots ! 0)))))"

end
