(* ===== verification/GenerateProps.thy ===== *)
theory GenerateProps
  imports Generate
begin

text \<open>
  Properties of the test data: the deep DAG is a chain of the requested depth that a walk
  from its root fetches completely, an error of the directory builder is not reported, and
  a data set that the code does not know ends in a panic.
\<close>

section \<open>Reachability in a growing store\<close>

lemma reach_cong:
  assumes "\<And>a. a \<in> reach succs r \<Longrightarrow> succs' a = succs a"
  shows "reach succs' r = reach succs r"
proof
  show "reach succs' r \<subseteq> reach succs r"
    by (rule reach_least) (auto simp: assms intro: graph_intros)
  have "reach succs r \<subseteq> {a \<in> reach succs r. a \<in> reach succs' r}"
  proof (rule reach_least)
    fix a b assume a: "a \<in> {a \<in> reach succs r. a \<in> reach succs' r}" and "b \<in> set (succs a)"
    then have "b \<in> set (succs' a)" using assms by simp
    then show "b \<in> {a \<in> reach succs r. a \<in> reach succs' r}"
      using a \<open>b \<in> set (succs a)\<close> by (auto intro: reach_step)
  qed simp
  then show "reach succs r \<subseteq> reach succs' r" by blast
qed

lemma reach_single:
  assumes "succs r = [n]"
  shows "reach succs r = insert r (reach succs n)"
proof
  show "reach succs r \<subseteq> insert r (reach succs n)"
    by (rule reach_least) (auto simp: assms intro: graph_intros)
  show "insert r (reach succs n) \<subseteq> reach succs r"
    using reach_succ [of n succs r] assms by auto
qed

section \<open>The chain\<close>

definition blockLinks :: "('c \<rightharpoonup> 'c ddNode) \<Rightarrow> 'c \<Rightarrow> 'c list" where
  "blockLinks blocks c = (case blocks c of None \<Rightarrow> [] | Some nd \<Rightarrow> ddLinks nd)"

definition blockGet :: "('c \<rightharpoonup> 'c ddNode) \<Rightarrow> ('c, 'c ddNode, unit) nodeGet" where
  "blockGet blocks c e = (case blocks c of None \<Rightarrow> (Inl ErrBlockserviceNotFound, e) | Some nd \<Rightarrow> (Inr nd, e))"

fun ddHeight :: "'c ddNode \<Rightarrow> int" where
  "ddHeight (RawLeaf _) = 0"
| "ddHeight (DeepNode h _ _) = h"

text \<open>After \<open>i\<close> levels: \<open>i\<close> blocks, each under its CID, all reached from the last one.\<close>

definition chainInv :: "('c ddNode \<Rightarrow> 'c) \<Rightarrow> int \<Rightarrow> 'c \<Rightarrow> ('c \<rightharpoonup> 'c ddNode) \<Rightarrow> bool" where
  "chainInv cidOf i nxt blocks \<longleftrightarrow>
     finite (dom blocks) \<and> int (card (dom blocks)) = i \<and> reach (blockLinks blocks) nxt = dom blocks \<and>
     (\<forall>c nd. blocks c = Some nd \<longrightarrow> cidOf nd = c \<and> ddHeight nd < i \<and> set (ddLinks nd) \<subseteq> dom blocks)"

lemma chain_leaf:
  assumes "c = cidOf (RawLeaf buf)"
  shows "chainInv cidOf 1 c [c \<mapsto> RawLeaf buf]"
proof -
  have "reach (blockLinks [c \<mapsto> RawLeaf buf]) c \<subseteq> {c}"
    by (rule reach_least) (auto simp: blockLinks_def split: if_splits)
  then have r: "reach (blockLinks [c \<mapsto> RawLeaf buf]) c = dom [c \<mapsto> RawLeaf buf]" using reach_refl [of c] by (metis dom_eq_singleton_conv dom_fun_upd dom_empty option.distinct(1) subset_singletonD empty_iff)
  have wf: "cidOf nd = c' \<and> ddHeight nd < 1 \<and> set (ddLinks nd) \<subseteq> dom [c \<mapsto> RawLeaf buf]"
    if "[c \<mapsto> RawLeaf buf] c' = Some nd" for c' nd
  proof (cases "c' = c")
    case True
    then have "nd = RawLeaf buf" using that by simp
    then show ?thesis using True assms by simp
  qed (use that in simp)
  have "finite (dom [c \<mapsto> RawLeaf buf])" "int (card (dom [c \<mapsto> RawLeaf buf])) = 1" by simp_all
  then show ?thesis using r wf unfolding chainInv_def by blast
qed

lemma chain_level:
  assumes "inj cidOf" and inv: "chainInv cidOf i nxt blocks"
  shows "chainInv cidOf (i + 1) (cidOf (DeepNode i nxt buf)) (blocks(cidOf (DeepNode i nxt buf) \<mapsto> DeepNode i nxt buf))"
proof -
  let ?nd = "DeepNode i nxt buf" let ?c = "cidOf (DeepNode i nxt buf)" let ?b = "blocks(?c \<mapsto> ?nd)"
  have wf: "cidOf nd = c \<and> ddHeight nd < i \<and> set (ddLinks nd) \<subseteq> dom blocks" if "blocks c = Some nd" for c nd
    using inv that by (simp add: chainInv_def)
  have new: "?c \<notin> dom blocks"
  proof
    assume "?c \<in> dom blocks"
    then obtain nd where nd: "blocks ?c = Some nd" by auto
    then have "nd = ?nd" using wf [OF nd] assms(1) by (auto dest: injD)
    then show False using wf [OF nd] by simp
  qed
  have nxt: "nxt \<in> dom blocks" and old: "reach (blockLinks blocks) nxt = dom blocks"
    using inv reach_refl unfolding chainInv_def by metis+
  have "reach (blockLinks ?b) nxt = reach (blockLinks blocks) nxt"
    by (rule reach_cong) (use old new in \<open>auto simp: blockLinks_def\<close>)
  then have "reach (blockLinks ?b) ?c = dom ?b"
    using reach_single [of "blockLinks ?b" ?c nxt] old by (simp add: blockLinks_def)
  moreover have "cidOf nd = c \<and> ddHeight nd < i + 1 \<and> set (ddLinks nd) \<subseteq> dom ?b" if "?b c = Some nd" for c nd
  proof (cases "c = ?c")
    case True
    then show ?thesis using that nxt by auto
  next
    case False
    then show ?thesis using that wf [of c nd] by auto
  qed
  moreover have "finite (dom ?b)" "int (card (dom ?b)) = i + 1" using inv new by (simp_all add: chainInv_def)
  ultimately show ?thesis unfolding chainInv_def by blast
qed

lemma deepLevels_chain:
  assumes "inj cidOf" and "chainInv cidOf i nxt blocks"
    and "deepLevels cidOf storeErr rng approx depth i nxt blocks = Inr (root, blocks')"
  shows "chainInv cidOf (max i depth) root blocks'"
  using assms(2,3)
proof (induction "nat (depth - i)" arbitrary: i nxt blocks)
  case 0
  then show ?case by (simp add: deepLevels.simps [of _ _ _ _ depth i] max_def split: if_splits)
next
  case (Suc n)
  then have lt: "i < depth" by simp
  then obtain buf where step: "deepLevels cidOf storeErr rng approx depth (i + 1) (cidOf (DeepNode i nxt buf))
      (blocks(cidOf (DeepNode i nxt buf) \<mapsto> DeepNode i nxt buf)) = Inr (root, blocks')"
    using Suc.prems(2) by (auto simp: deepLevels.simps [of _ _ _ _ depth i] lsysStore_def split: sum.splits option.splits)
  have "chainInv cidOf (max (i + 1) depth) root blocks'"
    by (rule Suc.hyps(1) [OF _ chain_level [OF assms(1) Suc.prems(1)] step]) (use Suc.hyps(2) in simp)
  then show ?case using lt by (simp add: max_def split: if_splits)
qed

lemma generated_chain:
  assumes "inj cidOf" and "GenerateDeepDagCarFile cidOf prepErr storeErr endErr rng approx depth = Inr file"
  shows "\<exists>root. carRoots file = [root] \<and> chainInv cidOf (max 1 depth) root (carBlocks file)"
proof -
  obtain buf root blocks' where
    "deepLevels cidOf storeErr rng approx depth 1 (cidOf (RawLeaf buf)) [cidOf (RawLeaf buf) \<mapsto> RawLeaf buf] = Inr (root, blocks')"
    "file = \<lparr>carRoots = [root], carBlocks = blocks'\<rparr>"
    using assms(2)
    by (auto simp: GenerateDeepDagCarFile_def lsysStore_def split: option.splits sum.splits prod.splits)
  then show ?thesis
    using deepLevels_chain [OF assms(1) chain_leaf [OF refl, of cidOf buf], of storeErr rng approx depth root blocks'] by simp
qed

text \<open>The generated file is a DAG on which the walks are correct.\<close>

lemma chain_dag:
  assumes "chainInv cidOf i root blocks" and "undef \<notin> dom blocks"
  shows "rooted_dag (blockGet blocks) ddLinks (blockLinks blocks) (dom blocks) (\<lambda>c. c \<noteq> undef) undef root"
proof (unfold_locales, goal_cases)
  case 1
  then show ?case using assms(1) by (simp add: chainInv_def)
next
  case (2 c)
  then show ?case using assms(1) unfolding chainInv_def blockLinks_def by (metis domIff option.case_eq_if option.collapse)
next
  case (5 c e)
  then show ?case by (auto simp: blockGet_def blockLinks_def)
next
  case 6
  then show ?case using assms(1) reach_refl unfolding chainInv_def by metis
qed (use assms(2) in auto)

section \<open>An instance\<close>

text \<open>CIDs that are the nodes they name: no two nodes share one.\<close>

datatype termCid = CidOf "termCid ddNode" | CidUndef

definition demoRng :: "nat \<Rightarrow> int \<Rightarrow> goerr + byte list" where
  "demoRng k n = Inr []"

lemma inj_CidOf: "inj CidOf"
  by (rule injI) simp

definition demoFile :: "(termCid, termCid ddNode) carFile" where
  "demoFile = \<lparr>carRoots = [CidOf (DeepNode 1 (CidOf (RawLeaf [])) [])],
     carBlocks = [CidOf (RawLeaf []) \<mapsto> RawLeaf [],
       CidOf (DeepNode 1 (CidOf (RawLeaf [])) []) \<mapsto> DeepNode 1 (CidOf (RawLeaf [])) []]\<rparr>"

lemma demoFile_generated: "GenerateDeepDagCarFile CidOf None (\<lambda>nd. None) None demoRng 16 2 = Inr demoFile"
  by (simp add: GenerateDeepDagCarFile_def lsysStore_def demoRng_def demoFile_def deepLevels.simps)

interpretation deep: rooted_dag "blockGet (carBlocks demoFile)" ddLinks "blockLinks (carBlocks demoFile)" "dom (carBlocks demoFile)"
  "\<lambda>c. c \<noteq> CidUndef" CidUndef "CidOf (DeepNode 1 (CidOf (RawLeaf [])) [])"
  using generated_chain [OF inj_CidOf demoFile_generated] chain_dag [of CidOf _ _ "carBlocks demoFile" CidUndef]
  by (auto simp: demoFile_def)

section \<open>Properties\<close>

text \<open>
  A generated deep DAG is fetched completely. For a CID function without collisions,
  the file has one root and as many blocks as the depth asks for, at least one; the walk of
  \<open>basicDAGWalker\<close> from that root over these blocks returns nil with every one of them in
  its CID set and their number as its progress.
\<close>

theorem deep_dag_walked_completely:
  assumes "inj cidOf" and "GenerateDeepDagCarFile cidOf prepErr storeErr endErr rng approx depth = Inr file"
    and "undef \<notin> dom (carBlocks file)" and "cid_set csNew csVisit csHas csElems"
  shows "\<exists>root. carRoots file = [root] \<and> int (card (dom (carBlocks file))) = max 1 depth
    \<and> (\<exists>n s'. sequentialWalkDepth n (walkerLinks ddLinks (blockGet (carBlocks file))) (visitDepth (visitProgress csVisit))
          (applyOptions [Concurrency 1]) root 0 (walkerInit csNew ()) = Some (None, s')
        \<and> csElems (wsSet s') = dom (carBlocks file) \<and> Value (wsPt s') = max 1 depth)"
proof -
  obtain root where r: "carRoots file = [root]" and inv: "chainInv cidOf (max 1 depth) root (carBlocks file)"
    using generated_chain [OF assms(1,2)] by blast
  have card: "int (card (dom (carBlocks file))) = max 1 depth"
    and reach: "reach (blockLinks (carBlocks file)) root = dom (carBlocks file)"
    using inv by (simp_all add: chainInv_def)
  obtain n s' where "sequentialWalkDepth n (walkerLinks ddLinks (blockGet (carBlocks file))) (visitDepth (visitProgress csVisit))
          (applyOptions [Concurrency 1]) root 0 (walkerInit csNew ()) = Some (None, s')"
      "csElems (wsSet s') = dom (carBlocks file)" "Value (wsPt s') = int (card (dom (carBlocks file)))"
    using rooted_dag.basic_walk_run [OF chain_dag [OF inv assms(3)] assms(4), of "()"] unfolding reach by blast
  then show ?thesis using r card by metis
qed

theorem deep_dag_walked_completely_witness:
  "\<exists>n s'. sequentialWalkDepth n (walkerLinks ddLinks (blockGet (carBlocks demoFile))) (visitDepth (visitProgress setVisit))
      (applyOptions [Concurrency 1]) (hd (carRoots demoFile)) 0 (walkerInit {} ()) = Some (None, s') \<and> Value (wsPt s') = 2"
proof -
  have "CidUndef \<notin> dom (carBlocks demoFile)" by (simp add: demoFile_def)
  then show ?thesis
    using deep_dag_walked_completely [OF inj_CidOf demoFile_generated _ hol_set.cid_set_axioms] by fastforce
qed

text \<open>
  What the configuration leads to: an unknown \<open>dagtype\<close> panics, so the server never runs
  without data; otherwise the block store returned is the loaded one behind the delay, with
  the only root, and a file with no root or several is refused.
\<close>

theorem GetBlockstoreFromConfig_single_root:
  assumes "GetBlockstoreFromConfig (GetCARFileFromConfig parseBytes parseJson unixfs deep dagtype dagparams) load rootsOf delay
      = Ret (Inr (bs, root))"
  shows "dagtype \<in> {''unixfs-file'', ''deep-ipld''} \<and>
    (\<exists>f dataBS wait. GetCARFileFromConfig parseBytes parseJson unixfs deep dagtype dagparams = Ret (Inr f) \<and> load f = Inr dataBS
       \<and> rootsOf dataBS = Inr [root] \<and> delay = Inr wait \<and> bs = delayedBlockstore wait dataBS)"
proof -
  have "dagtype \<in> {''unixfs-file'', ''deep-ipld''}"
    using assms by (auto simp: GetCARFileFromConfig_def GetBlockstoreFromConfig_def split: if_splits)
  then show ?thesis
    using assms
    by (auto simp: GetBlockstoreFromConfig_def length_Suc_conv split: outcome.splits sum.splits if_splits)
qed

theorem GetBlockstoreFromConfig_single_root_witness:
  "\<exists>f dataBS wait. GetCARFileFromConfig (\<lambda>s. Inr 5) (\<lambda>s. Inl ErrEOF) Inr (\<lambda>n d. Inl ErrEOF) ''unixfs-file'' ''5'' = Ret (Inr f)
     \<and> (Inr (memBS id) :: goerr + (nat, nat, nat \<rightharpoonup> nat) blockstore) = Inr dataBS
     \<and> (Inr [7] :: goerr + nat list) = Inr [7] \<and> (Inr id :: goerr + ((nat \<rightharpoonup> nat) \<Rightarrow> (nat \<rightharpoonup> nat))) = Inr wait
     \<and> delayedBlockstore id (memBS id) = delayedBlockstore wait dataBS"
  by (rule GetBlockstoreFromConfig_single_root [where rootsOf = "\<lambda>b. Inr [7]" and load = "\<lambda>f. Inr (memBS id)", THEN conjunct2])
    (simp add: GetBlockstoreFromConfig_def GetCARFileFromConfig_def)

end
