(* ===== verification/CarFiles.thy ===== *)
theory CarFiles
  imports Blockstores TcpTransfer
begin

text \<open>
  The CAR files of car.go: the link system that \<open>writeFiles\<close> puts between the UnixFS builder
  and the block store, the directory it builds for a list of paths, and the file that
  \<open>UnixFSCARBlockstore\<close> writes. The builder, the CAR library and the block type are outside the
  repository.
\<close>

section \<open>The link system\<close>

text \<open>
  The two closures of lines 64 to 88. A reader is the bytes it yields. The write opener hands
  out a new buffer and a committer that is called with the link: a field takes what was
  written to the buffer and that link. \<open>asCid l\<close> is the type assertion \<open>l.(cidlink.Link)\<close>,
  \<open>newBlock\<close> is \<open>blocks.NewBlockWithCid\<close>.
\<close>

record ('l, 'w) linkSystem =
  StorageReadOpener :: "'l \<Rightarrow> 'w \<Rightarrow> (goerr + byte list) \<times> 'w"
  StorageWriteOpener :: "byte list \<Rightarrow> 'l \<Rightarrow> 'w \<Rightarrow> goerr option \<times> 'w"

definition storageReadOpener :: "('l \<Rightarrow> 'c option) \<Rightarrow> ('b \<Rightarrow> byte list) \<Rightarrow> ('c, 'b, 'w) blockstore \<Rightarrow> 'l \<Rightarrow> 'w \<Rightarrow> (goerr + byte list) \<times> 'w" where
  "storageReadOpener asCid rawData bs l w =
     (case asCid l of
        None \<Rightarrow> (Inl (Errorf ''not a cidlink'' None), w)
      | Some c \<Rightarrow>
          (case bsGet bs c w of
             (Inl err, w') \<Rightarrow> (Inl err, w')
           | (Inr blk, w') \<Rightarrow> (Inr (rawData blk), w')))"

definition storageCommit :: "('l \<Rightarrow> 'c option) \<Rightarrow> (byte list \<Rightarrow> 'c \<Rightarrow> goerr + 'b) \<Rightarrow> ('c, 'b, 'w) blockstore \<Rightarrow> byte list \<Rightarrow> 'l \<Rightarrow> 'w
    \<Rightarrow> goerr option \<times> 'w" where
  "storageCommit asCid newBlock bs buf l w =
     (case asCid l of
        None \<Rightarrow> (Some (Errorf ''not a cidlink'' None), w)
      | Some c \<Rightarrow> (case newBlock buf c of Inl err \<Rightarrow> (Some err, w) | Inr blk \<Rightarrow> bsPut bs blk w))"

definition carLinkSystem :: "('l \<Rightarrow> 'c option) \<Rightarrow> ('b \<Rightarrow> byte list) \<Rightarrow> (byte list \<Rightarrow> 'c \<Rightarrow> goerr + 'b) \<Rightarrow> ('c, 'b, 'w) blockstore
    \<Rightarrow> ('l, 'w) linkSystem" where
  "carLinkSystem asCid rawData newBlock bs =
     \<lparr>StorageReadOpener = storageReadOpener asCid rawData bs, StorageWriteOpener = storageCommit asCid newBlock bs\<rparr>"

section \<open>Writing the files\<close>

text \<open>
  \<open>path.Base\<close> of the Go library: trailing slashes are removed and the part behind the last
  slash is taken; the empty path gives a dot, a path of slashes one slash.
\<close>

definition pathBase :: "string \<Rightarrow> string" where
  "pathBase p =
     (if p = '''' then ''.''
      else let q = rev (dropWhile (\<lambda>ch. ch = CHR ''/'') (rev p))
           in if q = '''' then ''/'' else rev (takeWhile (\<lambda>ch. ch \<noteq> CHR ''/'') (rev q)))"

text \<open>The functions of the package go-unixfsnode/data/builder that are called; \<open>'e\<close> is a directory entry.\<close>

record ('l, 'e, 'w) unixfsBuilder =
  BuildUnixFSRecursive :: "string \<Rightarrow> ('l, 'w) linkSystem \<Rightarrow> 'w \<Rightarrow> (goerr + 'l \<times> 64 word) \<times> 'w"
  BuildUnixFSDirectoryEntry :: "string \<Rightarrow> 64 word \<Rightarrow> 'l \<Rightarrow> goerr + 'e"
  BuildUnixFSDirectory :: "'e list \<Rightarrow> ('l, 'w) linkSystem \<Rightarrow> 'w \<Rightarrow> (goerr + 'l) \<times> 'w"

fun topLevelEntries :: "('l, 'e, 'w) unixfsBuilder \<Rightarrow> ('l, 'w) linkSystem \<Rightarrow> string list \<Rightarrow> 'w \<Rightarrow> (goerr + 'e list) \<times> 'w" where
  "topLevelEntries ub ls [] w = (Inr [], w)"
| "topLevelEntries ub ls (p # paths) w =
     (case BuildUnixFSRecursive ub p ls w of
        (Inl err, w1) \<Rightarrow> (Inl err, w1)
      | (Inr (l, sz), w1) \<Rightarrow>
          (case BuildUnixFSDirectoryEntry ub (pathBase p) sz l of
             Inl err \<Rightarrow> (Inl err, w1)
           | Inr entry \<Rightarrow>
               (case topLevelEntries ub ls paths w1 of
                  (Inl err, w2) \<Rightarrow> (Inl err, w2)
                | (Inr es, w2) \<Rightarrow> (Inr (entry # es), w2))))"

text \<open>The CID and the error together; \<open>undef\<close> is \<open>cid.Undef\<close>.\<close>

definition writeFiles :: "'c \<Rightarrow> ('l \<Rightarrow> 'c option) \<Rightarrow> ('b \<Rightarrow> byte list) \<Rightarrow> (byte list \<Rightarrow> 'c \<Rightarrow> goerr + 'b) \<Rightarrow> ('l, 'e, 'w) unixfsBuilder
    \<Rightarrow> ('c, 'b, 'w) blockstore \<Rightarrow> string list \<Rightarrow> 'w \<Rightarrow> ('c \<times> goerr option) \<times> 'w" where
  "writeFiles undef asCid rawData newBlock ub bs paths w =
     (let ls = carLinkSystem asCid rawData newBlock bs
      in case topLevelEntries ub ls paths w of
           (Inl err, w1) \<Rightarrow> ((undef, Some err), w1)
         | (Inr topLevel, w1) \<Rightarrow>
             (case BuildUnixFSDirectory ub topLevel ls w1 of
                (Inl err, w2) \<Rightarrow> ((undef, None), w2)
              | (Inr root, w2) \<Rightarrow>
                  (case asCid root of
                     None \<Rightarrow> ((undef, Some (Errorf ''could not interpret'' None)), w2)
                   | Some c \<Rightarrow> ((c, None), w2))))"

text \<open>
  \<open>prepErr\<close> stands for the hasher and the multihash, \<open>opened\<close> for the store that
  \<open>OpenReadWrite\<close> opens on the output file. A result without an error is the root written
  into the file and the blocks of the file.
\<close>

definition UnixFSCARBlockstore :: "'c \<Rightarrow> ('l \<Rightarrow> 'c option) \<Rightarrow> ('b \<Rightarrow> byte list) \<Rightarrow> (byte list \<Rightarrow> 'c \<Rightarrow> goerr + 'b) \<Rightarrow> ('l, 'e, 'w) unixfsBuilder
    \<Rightarrow> ('c, 'b, 'w) blockstore \<Rightarrow> goerr option \<Rightarrow> goerr + 'w \<Rightarrow> ('w \<Rightarrow> goerr option) \<Rightarrow> ('c \<Rightarrow> goerr option) \<Rightarrow> string list
    \<Rightarrow> goerr + 'c \<times> 'w" where
  "UnixFSCARBlockstore undef asCid rawData newBlock ub bs prepErr opened finalizeErr replaceErr inputPaths =
     (case prepErr of Some err \<Rightarrow> Inl err
      | None \<Rightarrow>
     (case opened of Inl err \<Rightarrow> Inl err
      | Inr cdest \<Rightarrow>
     (case writeFiles undef asCid rawData newBlock ub bs inputPaths cdest of
        ((_, Some err), _) \<Rightarrow> Inl err
      | ((root, None), w) \<Rightarrow>
          (case finalizeErr w of Some err \<Rightarrow> Inl err
           | None \<Rightarrow> (case replaceErr root of Some err \<Rightarrow> Inl err | None \<Rightarrow> Inr (root, w))))))"

text \<open>\<open>newReadOnly\<close> is \<open>blockstore.NewReadOnly\<close>, called with the option that identity CIDs are stored.\<close>

definition LoadCARBlockstore :: "(bool \<Rightarrow> 'r \<Rightarrow> goerr + ('c, 'b, 'w) blockstore) \<Rightarrow> 'r \<Rightarrow> goerr + ('c, 'b, 'w) blockstore" where
  "LoadCARBlockstore newReadOnly reader = newReadOnly True reader"

section \<open>Contracts\<close>

text \<open>\<open>NewBlockWithCid\<close> makes a block of these bytes under this CID.\<close>

locale block_maker =
  fixes newBlock :: "byte list \<Rightarrow> 'c \<Rightarrow> goerr + 'b" and rawData :: "'b \<Rightarrow> byte list" and cidOf :: "'b \<Rightarrow> 'c"
  assumes made: "newBlock buf c = Inr b \<Longrightarrow> rawData b = buf \<and> cidOf b = c"

text \<open>
  The builder reaches the store only through the link system, stops at the first commit that
  fails, and returns the link under which it committed the node it has built. \<open>I\<close> is any
  property of the store that reads and successful commits keep.
\<close>

definition keptBy :: "('l, 'w) linkSystem \<Rightarrow> ('w \<Rightarrow> bool) \<Rightarrow> bool" where
  "keptBy ls I \<longleftrightarrow> (\<forall>l w. I w \<longrightarrow> I (snd (StorageReadOpener ls l w))) \<and>
     (\<forall>buf l w. I w \<longrightarrow> fst (StorageWriteOpener ls buf l w) = None \<longrightarrow> I (snd (StorageWriteOpener ls buf l w)))"

definition committedBy :: "('l, 'w) linkSystem \<Rightarrow> 'l \<Rightarrow> ('w \<Rightarrow> bool) \<Rightarrow> bool" where
  "committedBy ls l I \<longleftrightarrow>
     (\<forall>buf w. fst (StorageWriteOpener ls buf l w) = None \<longrightarrow> I (snd (StorageWriteOpener ls buf l w)))"

locale unixfs_builder =
  fixes ub :: "('l, 'e, 'w) unixfsBuilder"
  assumes recursive_keeps: "BuildUnixFSRecursive ub p ls w = (Inr x, w') \<Longrightarrow> keptBy ls I \<Longrightarrow> I w \<Longrightarrow> I w'"
    and directory_keeps: "BuildUnixFSDirectory ub es ls w = (Inr l, w') \<Longrightarrow> keptBy ls I \<Longrightarrow> I w \<Longrightarrow> I w'"
    and recursive_commits: "BuildUnixFSRecursive ub p ls w = (Inr (l, sz), w') \<Longrightarrow> keptBy ls I \<Longrightarrow> committedBy ls l I \<Longrightarrow> I w'"
    and directory_commits: "BuildUnixFSDirectory ub es ls w = (Inr l, w') \<Longrightarrow> keptBy ls I \<Longrightarrow> committedBy ls l I \<Longrightarrow> I w'"
begin

lemma topLevel_keeps: "topLevelEntries ub ls paths w = (Inr es, w') \<Longrightarrow> keptBy ls I \<Longrightarrow> I w \<Longrightarrow> I w'"
proof (induction paths arbitrary: w es)
  case (Cons p paths)
  from Cons.prems(1) obtain x w1 es'
    where "BuildUnixFSRecursive ub p ls w = (Inr x, w1)" "topLevelEntries ub ls paths w1 = (Inr es', w')"
    by (auto split: prod.splits sum.splits)
  then show ?case using recursive_keeps Cons.prems(2,3) Cons.IH by metis
qed simp

text \<open>
  There is one entry for each path, in order; its link was built from that path and has been
  committed, and what that gave still holds at the end of the loop.
\<close>

lemma topLevel_commits:
  "topLevelEntries ub ls paths w = (Inr es, w') \<Longrightarrow>
   list_all2 (\<lambda>p e. \<exists>l sz u u'. BuildUnixFSRecursive ub p ls u = (Inr (l, sz), u') \<and> BuildUnixFSDirectoryEntry ub (pathBase p) sz l = Inr e
     \<and> (\<forall>I. keptBy ls I \<longrightarrow> committedBy ls l I \<longrightarrow> I w')) paths es"
proof (induction paths arbitrary: w es)
  case (Cons q paths)
  from Cons.prems(1) obtain l sz w1 e es'
    where built: "BuildUnixFSRecursive ub q ls w = (Inr (l, sz), w1)"
      and entry: "BuildUnixFSDirectoryEntry ub (pathBase q) sz l = Inr e"
      and rest: "topLevelEntries ub ls paths w1 = (Inr es', w')" and es: "es = e # es'"
    by (auto split: prod.splits sum.splits)
  have "\<forall>I. keptBy ls I \<longrightarrow> committedBy ls l I \<longrightarrow> I w'"
    using recursive_commits [OF built] topLevel_keeps [OF rest] by blast
  with Cons.IH [OF rest] built entry show ?case unfolding es by auto
qed simp

end

text \<open>A store with the link system on top.\<close>

locale car_store = block_store bs cidOf contents + block_maker newBlock rawData cidOf
  for bs :: "('c, 'b, 'w) blockstore" and cidOf :: "'b \<Rightarrow> 'c" and contents :: "'w \<Rightarrow> 'c \<rightharpoonup> 'b"
    and newBlock :: "byte list \<Rightarrow> 'c \<Rightarrow> goerr + 'b" and rawData :: "'b \<Rightarrow> byte list"
begin

lemma commit_stored:
  assumes "fst (storageCommit asCid newBlock bs buf l w) = None"
  shows "\<exists>c b. asCid l = Some c \<and> contents (snd (storageCommit asCid newBlock bs buf l w)) c = Some b \<and> rawData b = buf"
  using assms put_stored made
  by (auto simp: storageCommit_def split: option.splits sum.splits) (metis option.sel)

lemma commit_in_dom: "committedBy (carLinkSystem asCid rawData newBlock bs) l (\<lambda>w. \<exists>c. asCid l = Some c \<and> c \<in> dom (contents w))"
  unfolding committedBy_def
proof (intro allI impI)
  fix buf w assume "fst (StorageWriteOpener (carLinkSystem asCid rawData newBlock bs) buf l w) = None"
  then have "fst (storageCommit asCid newBlock bs buf l w) = None" by (simp add: carLinkSystem_def)
  from commit_stored [OF this]
  show "\<exists>c. asCid l = Some c \<and> c \<in> dom (contents (snd (StorageWriteOpener (carLinkSystem asCid rawData newBlock bs) buf l w)))"
    by (auto simp: carLinkSystem_def)
qed

lemma kept_stored: "keptBy (carLinkSystem asCid rawData newBlock bs) (\<lambda>w. X \<subseteq> dom (contents w))"
proof -
  have read: "contents (snd (storageReadOpener asCid rawData bs l w)) = contents w" for l w
  proof (cases "asCid l")
    case (Some c)
    then show ?thesis using get_frame [of c w]
      by (cases "bsGet bs c w"; cases "fst (bsGet bs c w)") (simp_all add: storageReadOpener_def)
  qed (simp add: storageReadOpener_def)
  have "X \<subseteq> dom (contents (snd (storageCommit asCid newBlock bs buf l w)))"
    if "X \<subseteq> dom (contents w)" "fst (storageCommit asCid newBlock bs buf l w) = None" for buf l w
  proof -
    from that(2) obtain c b where cb: "asCid l = Some c" "newBlock buf c = Inr b" "fst (bsPut bs b w) = None"
      by (auto simp: storageCommit_def split: option.splits sum.splits)
    with that(1) put_keeps [OF cb(3)] show ?thesis by (auto simp: storageCommit_def)
  qed
  with read show ?thesis by (auto simp: keptBy_def carLinkSystem_def)
qed

lemma kept_link:
  "keptBy (carLinkSystem asCid rawData newBlock bs) (\<lambda>w. \<exists>c. asCid l = Some c \<and> c \<in> dom (contents w))"
proof (cases "asCid l")
  case (Some c)
  with kept_stored [of asCid "{c}"] show ?thesis by simp
qed (simp add: keptBy_def)

end

section \<open>A concrete builder\<close>

text \<open>
  Links are strings; a node's bytes are the codes of its link's characters. The builder commits
  each node once, and an entry is the link of its child.
\<close>

definition charBytes :: "string \<Rightarrow> byte list" where
  "charBytes = map of_char"

definition commitNode :: "('l, 'w) linkSystem \<Rightarrow> byte list \<Rightarrow> 'l \<Rightarrow> 'a \<Rightarrow> 'w \<Rightarrow> (goerr + 'a) \<times> 'w" where
  "commitNode ls buf l x w =
     (case StorageWriteOpener ls buf l w of (Some err, w') \<Rightarrow> (Inl err, w') | (None, w') \<Rightarrow> (Inr x, w'))"

definition flatBuilder :: "(string, string, 'w) unixfsBuilder" where
  "flatBuilder =
     \<lparr>BuildUnixFSRecursive = (\<lambda>p ls. commitNode ls (charBytes p) p (p, of_nat (length p))),
      BuildUnixFSDirectoryEntry = (\<lambda>name sz l. Inr l),
      BuildUnixFSDirectory = (\<lambda>es ls. commitNode ls (charBytes (concat es)) (concat es) (concat es))\<rparr>"

lemma commitNode_Inr:
  "commitNode ls buf l x w = (Inr y, w') \<longleftrightarrow> y = x \<and> StorageWriteOpener ls buf l w = (None, w')"
  by (auto simp: commitNode_def split: prod.splits option.splits)

lemma keptByD: "keptBy ls I \<Longrightarrow> StorageWriteOpener ls buf l w = (None, w') \<Longrightarrow> I w \<Longrightarrow> I w'"
  unfolding keptBy_def by (metis fst_conv snd_conv)

lemma committedByD: "committedBy ls l I \<Longrightarrow> StorageWriteOpener ls buf l w = (None, w') \<Longrightarrow> I w'"
  unfolding committedBy_def by (metis fst_conv snd_conv)

interpretation flat_builder: unixfs_builder "flatBuilder :: (string, string, 'w) unixfsBuilder"
  by unfold_locales (auto simp: flatBuilder_def commitNode_Inr elim: keptByD committedByD)

definition pairBlock :: "byte list \<Rightarrow> 'c \<Rightarrow> goerr + 'c \<times> byte list" where
  "pairBlock buf c = Inr (c, buf)"

interpretation pair_maker: block_maker pairBlock snd fst
  by unfold_locales (auto simp: pairBlock_def)

interpretation mem_car: car_store "memBS fst" fst "\<lambda>w. w" pairBlock snd
  by unfold_locales

section \<open>Properties\<close>

text \<open>What a result of \<open>writeFiles\<close> without an error went through, unless the directory failed.\<close>

lemma writeFiles_ok:
  assumes "writeFiles undef asCid rawData newBlock ub bs paths w = ((c, None), w')" and "c \<noteq> undef"
  obtains es w1 root where "topLevelEntries ub (carLinkSystem asCid rawData newBlock bs) paths w = (Inr es, w1)"
    "BuildUnixFSDirectory ub es (carLinkSystem asCid rawData newBlock bs) w1 = (Inr root, w')" "asCid root = Some c"
  using assms by (auto simp: writeFiles_def Let_def split: prod.splits sum.splits option.splits)

lemma UnixFSCARBlockstore_ok:
  "UnixFSCARBlockstore undef asCid rawData newBlock ub bs prepErr opened finalizeErr replaceErr paths = Inr (c, w') \<longleftrightarrow>
     prepErr = None \<and> finalizeErr w' = None \<and> replaceErr c = None \<and>
     (\<exists>w. opened = Inr w \<and> writeFiles undef asCid rawData newBlock ub bs paths w = ((c, None), w'))"
  by (auto simp: UnixFSCARBlockstore_def split: prod.splits sum.splits option.splits)

text \<open>
  C25: Read after write through the link system of \<open>writeFiles\<close>: bytes committed under a link
  without an error are what the read opener yields for that link.
\<close>

theorem link_system_round_trip:
  assumes "car_store bs cidOf contents newBlock rawData"
    and "storageCommit asCid newBlock bs buf l w = (None, w')"
  shows "fst (storageReadOpener asCid rawData bs l w') = Inr buf"
proof -
  note store = assms(1)
  from car_store.commit_stored [OF store, of asCid buf l w] assms(2)
  obtain c b where "asCid l = Some c" "contents w' c = Some b" "rawData b = buf" by auto
  moreover from this have "fst (bsGet bs c w') = Inr b"
    using block_store.get_found car_store.axioms(1) [OF store] by metis
  ultimately show ?thesis by (auto simp: storageReadOpener_def split: prod.splits)
qed

theorem link_system_round_trip_witness:
  "fst (storageReadOpener Some snd (memBS fst) (7 :: nat) (snd (storageCommit Some pairBlock (memBS fst) [1, 2] 7 Map.empty))) = Inr [1, 2]"
  by (rule link_system_round_trip [OF mem_car.car_store_axioms, of Some "[1, 2]" 7 Map.empty])
    (simp add: storageCommit_def pairBlock_def memBS_def)

text \<open>
  C24: A CAR file written without an error holds its root, unless the root is \<open>cid.Undef\<close>: the
  block of the root is in the file, and so is everything the store held before. The root is
  what the builder made of a list of entries, one for each path and in the order of the
  paths; the entry of a path has its base name and the size and the link of what was built
  from this path, and that link is stored in the file.
\<close>

theorem car_file_holds_its_root:
  assumes store: "car_store bs cidOf contents newBlock rawData" and builder: "unixfs_builder ub"
    and result: "UnixFSCARBlockstore undef asCid rawData newBlock ub bs prepErr (Inr w) finalizeErr replaceErr paths = Inr (c, w')"
    and c: "c \<noteq> undef"
  shows "c \<in> dom (contents w') \<and> dom (contents w) \<subseteq> dom (contents w') \<and>
    (\<exists>es w1 root. BuildUnixFSDirectory ub es (carLinkSystem asCid rawData newBlock bs) w1 = (Inr root, w') \<and> asCid root = Some c \<and>
       list_all2 (\<lambda>p e. \<exists>l sz u u' child. BuildUnixFSRecursive ub p (carLinkSystem asCid rawData newBlock bs) u = (Inr (l, sz), u') \<and>
         BuildUnixFSDirectoryEntry ub (pathBase p) sz l = Inr e \<and> asCid l = Some child \<and> child \<in> dom (contents w')) paths es)"
proof -
  define ls where "ls = carLinkSystem asCid rawData newBlock bs"
  have kept: "keptBy ls (\<lambda>w. X \<subseteq> dom (contents w))" "keptBy ls (\<lambda>w. \<exists>c. asCid l = Some c \<and> c \<in> dom (contents w))"
    and stored: "committedBy ls l (\<lambda>w. \<exists>c. asCid l = Some c \<and> c \<in> dom (contents w))" for l X
    unfolding ls_def by (rule car_store.kept_stored [OF store] car_store.kept_link [OF store] car_store.commit_in_dom [OF store])+
  from result have "writeFiles undef asCid rawData newBlock ub bs paths w = ((c, None), w')"
    by (simp add: UnixFSCARBlockstore_ok)
  then obtain es w1 root where top: "topLevelEntries ub ls paths w = (Inr es, w1)"
    and dir: "BuildUnixFSDirectory ub es ls w1 = (Inr root, w')" and root: "asCid root = Some c"
    unfolding ls_def by (rule writeFiles_ok) (use c in auto)
  have "c \<in> dom (contents w')"
    using unixfs_builder.directory_commits [OF builder dir kept(2) stored] root by auto
  moreover have "dom (contents w) \<subseteq> dom (contents w')"
    using unixfs_builder.topLevel_keeps [OF builder top kept(1)] unixfs_builder.directory_keeps [OF builder dir kept(1)] by blast
  moreover have "\<exists>child. asCid l = Some child \<and> child \<in> dom (contents w')"
    if "\<forall>I. keptBy ls I \<longrightarrow> committedBy ls l I \<longrightarrow> I w1" for l
    by (rule unixfs_builder.directory_keeps [OF builder dir kept(2)]) (use that kept(2) stored in blast)
  then have "list_all2 (\<lambda>p e. \<exists>l sz u u' child. BuildUnixFSRecursive ub p ls u = (Inr (l, sz), u') \<and>
      BuildUnixFSDirectoryEntry ub (pathBase p) sz l = Inr e \<and> asCid l = Some child \<and> child \<in> dom (contents w')) paths es"
    by (intro list_all2_mono [OF unixfs_builder.topLevel_commits [OF builder top]]) metis
  ultimately show ?thesis using dir root unfolding ls_def by blast
qed

theorem car_file_holds_its_root_witness:
  "\<exists>w'. UnixFSCARBlockstore '''' Some snd pairBlock flatBuilder (memBS fst) None (Inr Map.empty) (\<lambda>_. None) (\<lambda>_. None)
      [''d/a'', ''b''] = Inr (''d/ab'', w') \<and> ''d/ab'' \<in> dom w'"
proof -
  have run: "\<exists>w'. UnixFSCARBlockstore '''' Some snd pairBlock flatBuilder (memBS fst) None (Inr Map.empty) (\<lambda>_. None) (\<lambda>_. None)
      [''d/a'', ''b''] = Inr (''d/ab'', w')"
    by (simp add: UnixFSCARBlockstore_def writeFiles_def flatBuilder_def commitNode_def carLinkSystem_def
        storageCommit_def pairBlock_def memBS_def)
  then show ?thesis
    using car_file_holds_its_root [OF mem_car.car_store_axioms flat_builder.unixfs_builder_axioms] by fastforce
qed

text \<open>
  An error of the UnixFS directory builder is lost: \<open>writeFiles\<close> returns the undefined
  CID without an error, and \<open>UnixFSCARBlockstore\<close> then writes that CID as the root of the
  file and reports success.
\<close>

theorem writeFiles_drops_directory_error:
  assumes "topLevelEntries ub (carLinkSystem asCid rawData newBlock bs) paths w = (Inr topLevel, w1)"
    and "BuildUnixFSDirectory ub topLevel (carLinkSystem asCid rawData newBlock bs) w1 = (Inl err, w2)"
    and "finalizeErr w2 = None" and "replaceErr undef = None"
  shows "UnixFSCARBlockstore undef asCid rawData newBlock ub bs None (Inr w) finalizeErr replaceErr paths = Inr (undef, w2)"
  using assms by (simp add: UnixFSCARBlockstore_ok writeFiles_def)

theorem writeFiles_drops_directory_error_witness:
  "\<exists>w2. UnixFSCARBlockstore '''' Some snd pairBlock (flatBuilder\<lparr>BuildUnixFSDirectory := \<lambda>es ls w. (Inl ErrEOF, w)\<rparr>)
     (memBS fst) None (Inr Map.empty) (\<lambda>_. None) (\<lambda>_. None) [''a''] = Inr ('''', w2)"
  by (rule exI, rule writeFiles_drops_directory_error)
    (simp_all add: flatBuilder_def commitNode_def carLinkSystem_def storageCommit_def pairBlock_def memBS_def)

end
