(* ===== verification/Manifetch.thy ===== *)
theory Manifetch
  imports Visitors
begin

text \<open>
  The manifest protocol of manifetch.go: the server walks the DAG and writes each CID when it
  first visits it, the client turns the messages back into CIDs. The walk is that of
  go-merkledag and the framing that of go-msgio, both outside the repository.
\<close>

section \<open>The server\<close>

text \<open>The state of the visit function: the visited set and the messages written so far.\<close>

record ('cs, 'm) manifestState =
  msSet :: 'cs
  msWritten :: "'m list"

text \<open>
  The visit function. A message that cannot be written panics: \<open>writeErr k\<close> is the error of
  the \<open>k\<close>-th message.
\<close>

definition manifetchVisit :: "('c \<Rightarrow> 'cs \<Rightarrow> bool \<times> 'cs) \<Rightarrow> ('c \<Rightarrow> 'm) \<Rightarrow> (nat \<Rightarrow> goerr option) \<Rightarrow> 'c \<Rightarrow> ('cs, 'm) manifestState
    \<Rightarrow> (bool \<times> ('cs, 'm) manifestState) outcome" where
  "manifetchVisit csVisit cidBytes writeErr c s =
     (case csVisit c (msSet s) of
        (False, set') \<Rightarrow> Ret (False, s\<lparr>msSet := set'\<rparr>)
      | (True, set') \<Rightarrow>
          (case writeErr (length (msWritten s)) of
             Some err \<Rightarrow> Panic ''WriteMsg''
           | None \<Rightarrow> Ret (True, \<lparr>msSet = set', msWritten = msWritten s @ [cidBytes c]\<rparr>)))"

text \<open>
  The handler: the request, its CID, and the walk, which calls the visit function on CIDs of
  its choice one after the other (\<open>order\<close>) and may fail at the end. The result is what was
  written and whether the stream was reset.
\<close>

fun visitAllOf :: "('c \<Rightarrow> 's \<Rightarrow> (bool \<times> 's) outcome) \<Rightarrow> 'c list \<Rightarrow> 's \<Rightarrow> 's outcome" where
  "visitAllOf visit [] s = Ret s"
| "visitAllOf visit (c # cs) s =
     (case visit c s of Panic msg \<Rightarrow> Panic msg | Ret (_, s') \<Rightarrow> visitAllOf visit cs s')"

definition NewManifetchServer :: "('c \<Rightarrow> 'cs \<Rightarrow> bool \<times> 'cs) \<Rightarrow> 'cs \<Rightarrow> ('c \<Rightarrow> 'm) \<Rightarrow> ('m \<Rightarrow> goerr + 'c) \<Rightarrow> (nat \<Rightarrow> goerr option)
    \<Rightarrow> ('c \<Rightarrow> 'c list \<times> goerr option) \<Rightarrow> goerr + 'm \<Rightarrow> ('m list \<times> bool) outcome" where
  "NewManifetchServer csVisit csNew cidBytes castCid writeErr walk request =
     (case request of
        Inl err \<Rightarrow> Ret ([], True)
      | Inr msg \<Rightarrow>
          (case castCid msg of
             Inl err \<Rightarrow> Ret ([], True)
           | Inr reqCid \<Rightarrow>
               (let (order, walkErr) = walk reqCid
                in case visitAllOf (manifetchVisit csVisit cidBytes writeErr) order \<lparr>msSet = csNew, msWritten = []\<rparr> of
                     Panic txt \<Rightarrow> Panic txt
                   | Ret s \<Rightarrow> Ret (msWritten s, walkErr \<noteq> None))))"

section \<open>The client\<close>

text \<open>The loop of \<open>manifetchGet\<close> over what it reads: it ends at the first error.\<close>

fun manifestCids :: "('m \<Rightarrow> goerr + 'c) \<Rightarrow> (goerr + 'm) list \<Rightarrow> 'c list" where
  "manifestCids castCid [] = []"
| "manifestCids castCid (Inl err # _) = []"
| "manifestCids castCid (Inr msg # rest) =
     (case castCid msg of Inl err \<Rightarrow> [] | Inr c \<Rightarrow> c # manifestCids castCid rest)"

definition manifetchGet :: "('m \<Rightarrow> goerr + 'c) \<Rightarrow> ('c \<Rightarrow> 'm) \<Rightarrow> goerr option \<Rightarrow> goerr option \<Rightarrow> (goerr + 'm) list \<Rightarrow> 'c
    \<Rightarrow> goerr + ('m \<times> 'c list)" where
  "manifetchGet castCid cidBytes writeErr closeErr reads root =
     (case writeErr of Some err \<Rightarrow> Inl err
      | None \<Rightarrow> (case closeErr of Some err \<Rightarrow> Inl err
      | None \<Rightarrow> Inr (cidBytes root, manifestCids castCid reads)))"

section \<open>Lemmas\<close>

text \<open>Each CID once, where it first occurs.\<close>

fun firsts :: "'c list \<Rightarrow> 'c set \<Rightarrow> 'c list" where
  "firsts [] seen = []"
| "firsts (c # cs) seen = (if c \<in> seen then firsts cs seen else c # firsts cs (insert c seen))"

lemma firsts_spec: "distinct (firsts cs X) \<and> set (firsts cs X) = set cs - X"
  by (induction cs X rule: firsts.induct) auto

lemma manifestCids_written:
  assumes "\<And>c. castCid (cidBytes c) = Inr c"
  shows "manifestCids castCid (map Inr (map cidBytes cs) @ [Inl err]) = cs"
  by (induction cs) (simp_all add: assms)

context cid_set
begin

lemma visit_written:
  assumes "\<And>k. writeErr k = None"
  shows "\<exists>s'. visitAllOf (manifetchVisit csVisit cidBytes writeErr) cs s = Ret s'
    \<and> msWritten s' = msWritten s @ map cidBytes (firsts cs (csElems (msSet s)))"
proof (induction cs arbitrary: s)
  case Nil
  then show ?case by simp
next
  case (Cons c cs)
  obtain b set' where v: "csVisit c (msSet s) = (b, set')" by fastforce
  then have "b = (c \<notin> csElems (msSet s))" "csElems set' = insert c (csElems (msSet s))"
    using cs_visit_new [of c "msSet s"] cs_visit_elems [of c "msSet s"] by auto
  then show ?case
    using v Cons.IH [of "s\<lparr>msSet := set'\<rparr>"] Cons.IH [of "\<lparr>msSet = set', msWritten = msWritten s @ [cidBytes c]\<rparr>"] assms
    by (cases b) (auto simp: manifetchVisit_def insert_absorb)
qed

end

section \<open>Properties\<close>

text \<open>
  C30: The manifest arrives. For a request with a root, when the messages can be written and
  the walk visits the CIDs of \<open>order\<close>, the client that reads what the server wrote gets each
  of these CIDs once, in the order of their first visit, and nothing else.
\<close>

theorem manifest_round_trip:
  assumes "cid_set csNew csVisit csHas csElems" and "\<And>c. castCid (cidBytes c) = Inr c"
    and "\<And>k. writeErr k = None" and "walk root = (order, walkErr)"
  shows "\<exists>written. NewManifetchServer csVisit csNew cidBytes castCid writeErr walk (Inr (cidBytes root))
        = Ret (written, walkErr \<noteq> None)
    \<and> manifetchGet castCid cidBytes None None (map Inr written @ [Inl ErrEOF]) root = Inr (cidBytes root, firsts order {})
    \<and> distinct (firsts order {}) \<and> set (firsts order {}) = set order"
proof -
  obtain s' where s': "visitAllOf (manifetchVisit csVisit cidBytes writeErr) order \<lparr>msSet = csNew, msWritten = []\<rparr> = Ret s'"
    and w: "msWritten s' = map cidBytes (firsts order {})"
    using cid_set.visit_written [OF assms(1), where writeErr = writeErr and cidBytes = cidBytes and cs = order and s = "\<lparr>msSet = csNew, msWritten = []\<rparr>"]
      cid_set.cs_new [OF assms(1)] assms(3) by auto
  have "manifestCids castCid (map Inr (msWritten s') @ [Inl ErrEOF]) = firsts order {}"
    unfolding w using manifestCids_written [of castCid cidBytes] assms(2) by blast
  then show ?thesis
    using s' firsts_spec [of order "{}"] assms(2,4)
    by (intro exI [of _ "msWritten s'"]) (simp add: NewManifetchServer_def manifetchGet_def)
qed

theorem manifest_round_trip_witness:
  "\<exists>written. NewManifetchServer setVisit {} (\<lambda>c. [c]) (\<lambda>m. Inr (hd m)) (\<lambda>k. None) (\<lambda>c. ([c, 5, c, 6], None)) (Inr [4 :: nat])
        = Ret (written, False)
    \<and> manifetchGet (\<lambda>m. Inr (hd m)) (\<lambda>c. [c]) None None (map Inr written @ [Inl ErrEOF]) 4 = Inr ([4], [4, 5, 6])"
  using manifest_round_trip [OF hol_set.cid_set_axioms, of "\<lambda>m. Inr (hd m)" "\<lambda>c. [c]" "\<lambda>k. None"
      "\<lambda>c. ([c, 5, c, 6], None)" "4 :: nat" "[4, 5, 4, 6]" None]
  by auto

end
