(* ===== verification/SyncService.thy ===== *)
theory SyncService
  imports Prelude
begin

text \<open>
  Instances that meet through the sync service. What an instance does with the service is a
  program: it adds to a state or a topic, or it waits until a state or topic has enough
  entries. The service is outside the repository and a parameter, with its contract as a
  locale. Keys have ranks; programs never deadlock when they are supplied: no more is waited
  for at a key than all instances add to it before they wait at a key of the same or a higher
  rank.
\<close>

section \<open>Programs and runs\<close>

text \<open>
  \<open>SignalEntry\<close> and \<open>Publish\<close> of the service add to a key, \<open>Barrier\<close> and the receives of a
  subscription wait at a key.
\<close>

datatype syncKey = State string | Topic string

datatype syncOp = Bump syncKey | Await syncKey nat

definition signalAndWait :: "string \<Rightarrow> nat \<Rightarrow> syncOp list" where
  "signalAndWait st target = [Bump (State st), Await (State st) target]"

inductive syncStep :: "(syncKey \<Rightarrow> 's \<Rightarrow> 's) \<Rightarrow> (syncKey \<Rightarrow> nat \<Rightarrow> 's \<Rightarrow> bool) \<Rightarrow> syncOp list list \<times> 's
    \<Rightarrow> syncOp list list \<times> 's \<Rightarrow> bool"
  for bump ready where
  bump: "i < length ps \<Longrightarrow> ps ! i = Bump k # r \<Longrightarrow> syncStep bump ready (ps, s) (ps[i := r], bump k s)"
| await: "i < length ps \<Longrightarrow> ps ! i = Await k n # r \<Longrightarrow> ready k n s \<Longrightarrow> syncStep bump ready (ps, s) (ps[i := r], s)"

declare syncStep.intros [step_intros]

inductive_cases syncStepE: "syncStep bump ready c c'"

text \<open>How often programs add to a key.\<close>

definition bumps :: "syncKey \<Rightarrow> syncOp list \<Rightarrow> nat" where
  "bumps k p = count_if (\<lambda>a. a = Bump k) p"

definition totalBumps :: "syncKey \<Rightarrow> syncOp list list \<Rightarrow> nat" where
  "totalBumps k ps = sum_list (map (bumps k) ps)"

lemma bumps_simps [simp]:
  "bumps k [] = 0" "bumps k (Bump k' # p) = (if k' = k then 1 else 0) + bumps k p" "bumps k (Await k' n # p) = bumps k p"
  "bumps k (p @ q) = bumps k p + bumps k q"
  by (simp_all add: bumps_def count_if_def)

lemma totalBumps_update:
  "i < length ps \<Longrightarrow> totalBumps k (ps[i := q]) + bumps k (ps ! i) = totalBumps k ps + bumps k q"
  unfolding totalBumps_def by (rule sum_list_update_nat)

lemma totalBumps_map: "totalBumps k (map f [0..<n]) = (\<Sum>i<n. bumps k (f i))"
  by (simp add: totalBumps_def interv_sum_list_conv_sum_set_nat atLeast0LessThan comp_def)

text \<open>
  How often a program adds to a key before it waits at a key that is not of lower rank:
  additions that no wait of the same or a higher rank can hold up.
\<close>

fun early :: "(syncKey \<Rightarrow> nat) \<Rightarrow> syncKey \<Rightarrow> syncOp list \<Rightarrow> nat" where
  "early rank k [] = 0"
| "early rank k (Bump k' # p) = (if k' = k then 1 else 0) + early rank k p"
| "early rank k (Await k' n # p) = (if rank k' < rank k then early rank k p else 0)"

definition totalEarly :: "(syncKey \<Rightarrow> nat) \<Rightarrow> syncKey \<Rightarrow> syncOp list list \<Rightarrow> nat" where
  "totalEarly rank k ps = sum_list (map (early rank k) ps)"

lemma early_awaits [simp]:
  "early rank k (map (\<lambda>j. Await k' (f j)) js @ p) = (if js = [] \<or> rank k' < rank k then early rank k p else 0)"
  by (induction js) auto

lemma early_replicate [simp]: "early rank k (replicate m (Bump k') @ p) = (if k' = k then m else 0) + early rank k p"
  by (induction m) auto

lemma bumps_awaits [simp]: "bumps k (map (\<lambda>j. Await k' (f j)) js) = 0"
  by (induction js) auto

lemma bumps_replicate [simp]: "bumps k (replicate m (Bump k')) = (if k' = k then m else 0)"
  by (induction m) auto

lemma totalEarly_update:
  "i < length ps \<Longrightarrow> totalEarly rank k (ps[i := q]) + early rank k (ps ! i) = totalEarly rank k ps + early rank k q"
  unfolding totalEarly_def by (rule sum_list_update_nat)

lemma totalEarly_pos: "0 < totalEarly rank k ps \<Longrightarrow> \<exists>i < length ps. 0 < early rank k (ps ! i)"
proof (induction ps)
  case (Cons p ps)
  show ?case
  proof (cases "early rank k p")
    case 0
    then have "0 < totalEarly rank k ps" using Cons.prems by (simp add: totalEarly_def)
    with Cons.IH show ?thesis by auto
  qed auto
qed (simp add: totalEarly_def)

lemma totalEarly_map: "totalEarly rank k (map f [0..<n]) = (\<Sum>i<n. early rank k (f i))"
  by (simp add: totalEarly_def interv_sum_list_conv_sum_set_nat atLeast0LessThan comp_def)

text \<open>Programs are supplied when no more is waited for at a key than all of them add early.\<close>

definition supplied :: "(syncKey \<Rightarrow> nat) \<Rightarrow> syncOp list list \<Rightarrow> bool" where
  "supplied rank ps \<longleftrightarrow> (\<forall>p \<in> set ps. \<forall>k n. Await k n \<in> set p \<longrightarrow> n \<le> totalEarly rank k ps)"

section \<open>The contract of the service\<close>

text \<open>\<open>cnt\<close> is how many entries a state or a topic has.\<close>

locale sync_service =
  fixes bump :: "syncKey \<Rightarrow> 's \<Rightarrow> 's" and ready :: "syncKey \<Rightarrow> nat \<Rightarrow> 's \<Rightarrow> bool" and fresh :: 's
    and cnt :: "'s \<Rightarrow> syncKey \<Rightarrow> nat"
  assumes cnt_fresh: "cnt fresh k = 0"
    and cnt_bump: "cnt (bump k s) k' = cnt s k' + (if k' = k then 1 else 0)"
    and ready_iff: "ready k n s \<longleftrightarrow> n \<le> cnt s k"
begin

abbreviation steps :: "syncOp list list \<times> 's \<Rightarrow> syncOp list list \<times> 's \<Rightarrow> bool" where
  "steps \<equiv> (syncStep bump ready)\<^sup>*\<^sup>*"

text \<open>What is counted and what is still to come is constant, and an instance has a suffix of its program left.\<close>

definition syncInv :: "syncOp list list \<Rightarrow> syncOp list list \<times> 's \<Rightarrow> bool" where
  "syncInv ps0 c \<longleftrightarrow> length (fst c) = length ps0 \<and> (\<forall>k. cnt (snd c) k + totalBumps k (fst c) = totalBumps k ps0) \<and>
     (\<forall>i < length ps0. \<exists>u. ps0 ! i = u @ fst c ! i)"

lemma inv_start: "syncInv ps (ps, fresh)"
  by (simp add: syncInv_def cnt_fresh)

lemma inv_step:
  assumes "syncStep bump ready c c'" and "syncInv ps0 c"
  shows "syncInv ps0 c'"
proof -
  obtain i a r where i: "i < length (fst c)" "fst c ! i = a # r" "fst c' = (fst c)[i := r]"
    and s: "\<And>k. cnt (snd c') k = cnt (snd c) k + bumps k [a]"
    using assms(1) by cases (auto simp: cnt_bump)
  have "totalBumps k (fst c') + bumps k [a] = totalBumps k (fst c)" for k
    using totalBumps_update [OF i(1), of k r] i(2,3) by (cases a) auto
  then have "cnt (snd c') k + totalBumps k (fst c') = totalBumps k ps0" for k
    using assms(2) s [of k] unfolding syncInv_def by (metis (no_types, lifting) add.assoc add.commute)
  moreover have "\<exists>u. ps0 ! j = u @ fst c' ! j" if jl: "j < length ps0" for j
  proof (cases "j = i")
    case True
    obtain u where "ps0 ! j = u @ fst c ! j" using assms(2) jl unfolding syncInv_def by blast
    then have "ps0 ! j = (u @ [a]) @ fst c' ! j" using True i by simp
    then show ?thesis by blast
  next
    case False
    then show ?thesis using assms(2) jl i(3) by (simp add: syncInv_def)
  qed
  ultimately show ?thesis using assms(2) i(3) by (simp add: syncInv_def)
qed

lemma inv_steps: "steps (ps, fresh) c \<Longrightarrow> syncInv ps c"
  by (induction rule: rtranclp_induct) (auto intro: inv_start inv_step)

text \<open>Every step shortens a program.\<close>

lemma step_shortens:
  "syncStep bump ready c c' \<Longrightarrow> sum_list (map length (fst c')) < sum_list (map length (fst c))"
proof (erule syncStepE, goal_cases)
  case (1 i ps k r s)
  then show ?case using sum_list_update_nat [of i ps length r] by simp
next
  case (2 i ps k n r s)
  then show ?case using sum_list_update_nat [of i ps length r] by simp
qed

text \<open>What was to come early has come or still comes early.\<close>

lemma early_step:
  assumes "syncStep bump ready c c'"
  shows "cnt (snd c) k + totalEarly rank k (fst c) \<le> cnt (snd c') k + totalEarly rank k (fst c')"
  using assms
proof cases
  case (bump i ps k' r s)
  then show ?thesis using totalEarly_update [OF bump(3), of rank k r] by (auto simp: cnt_bump split: if_splits)
next
  case (await i ps k' n r s)
  then show ?thesis using totalEarly_update [OF await(3), of rank k r] by (auto split: if_splits)
qed

lemma early_steps: "steps (ps, fresh) c \<Longrightarrow> totalEarly rank k ps \<le> cnt (snd c) k + totalEarly rank k (fst c)"
proof (induction rule: rtranclp_induct)
  case (step c c')
  show ?case using step.IH early_step [OF step.hyps(2), of k rank] by (rule order_trans)
qed (simp add: cnt_fresh)

text \<open>A wait of least rank cannot be the first thing to block.\<close>

lemma no_deadlock:
  assumes "steps (ps, fresh) c" and "supplied rank ps"
    and stuck: "\<nexists>c'. syncStep bump ready c c'" and "i < length ps"
  shows "fst c ! i = []"
proof (rule ccontr)
  note inv = inv_steps [OF assms(1), unfolded syncInv_def]
  let ?waits = "\<lambda>j k. j < length ps \<and> (\<exists>n r. fst c ! j = Await k n # r)"
  have blocked: "\<exists>k n r. fst c ! j = Await k n # r \<and> cnt (snd c) k < n" if jl: "j < length ps" and ne: "fst c ! j \<noteq> []" for j
  proof -
    obtain a r where ar: "fst c ! j = a # r" using ne by (meson neq_Nil_conv)
    have j: "j < length (fst c)" using jl inv by simp
    show ?thesis
    proof (cases a)
      case (Bump k)
      then show ?thesis using stuck syncStep.bump [OF j ar [unfolded Bump], of bump ready "snd c"] by (metis prod.collapse)
    next
      case (Await k n)
      then show ?thesis
        using ar stuck syncStep.await [OF j ar [unfolded Await], of ready "snd c" bump] ready_iff by (metis not_le prod.collapse)
    qed
  qed
  assume "fst c ! i \<noteq> []"
  then have "\<exists>m j k. ?waits j k \<and> rank k = m" using blocked [OF assms(4)] assms(4) by blast
  then have "\<exists>m. (\<exists>j k. ?waits j k \<and> rank k = m) \<and> (\<forall>m' j k. ?waits j k \<and> rank k = m' \<longrightarrow> m \<le> m')"
    using exists_least_iff [of "\<lambda>m. \<exists>j k. ?waits j k \<and> rank k = m"] by (metis (mono_tags, lifting) not_le)
  then obtain j k n r where j: "j < length ps" "fst c ! j = Await k n # r"
    and least: "\<And>j' k' n' r'. j' < length ps \<Longrightarrow> fst c ! j' = Await k' n' # r' \<Longrightarrow> rank k \<le> rank k'"
    by blast
  have "cnt (snd c) k < n" using blocked [OF j(1)] j(2) by force
  moreover have "n \<le> totalEarly rank k ps"
  proof -
    obtain u where "ps ! j = u @ fst c ! j" using inv j(1) by blast
    then have "Await k n \<in> set (ps ! j)" using j(2) by simp
    then show ?thesis using assms(2) j(1) unfolding supplied_def by (meson nth_mem)
  qed
  ultimately have "0 < totalEarly rank k (fst c)" using early_steps [OF assms(1), of rank k] by linarith
  then obtain j' where j': "j' < length ps" "0 < early rank k (fst c ! j')" using totalEarly_pos inv by metis
  then obtain k' n' r' where w: "fst c ! j' = Await k' n' # r'" using blocked [OF j'(1)] by fastforce
  then have "rank k' < rank k" using j'(2) by (simp split: if_splits)
  then show False using least [OF j'(1) w] by simp
qed

definition completes :: "syncOp list list \<Rightarrow> bool" where
  "completes ps \<longleftrightarrow> (\<nexists>f. f 0 = (ps, fresh) \<and> (\<forall>j. syncStep bump ready (f j) (f (Suc j)))) \<and>
     (\<forall>c. steps (ps, fresh) c \<longrightarrow> (\<nexists>c'. syncStep bump ready c c') \<longrightarrow> fst c = replicate (length ps) [])"

lemma runs_complete:
  assumes "supplied rank ps"
  shows "completes ps"
  unfolding completes_def
proof (intro conjI allI impI)
  show "\<nexists>f. f 0 = (ps, fresh) \<and> (\<forall>j. syncStep bump ready (f j) (f (Suc j)))"
  proof safe
    fix f assume "f 0 = (ps, fresh)" and run: "\<forall>j. syncStep bump ready (f j) (f (Suc j))"
    have "\<exists>n. \<not> syncStep bump ready (f n) (f (Suc n))"
      by (rule measure_run_finite [where I = "\<lambda>_. True" and m = "\<lambda>c. sum_list (map length (fst c))"])
        (simp_all add: step_shortens)
    with run show False by blast
  qed
  fix c assume c: "steps (ps, fresh) c" "\<nexists>c'. syncStep bump ready c c'"
  have "length (fst c) = length ps" using inv_steps [OF c(1)] by (simp add: syncInv_def)
  moreover have "fst c ! i = []" if i: "i < length ps" for i
    using no_deadlock [OF c(1) assms c(2) i] .
  ultimately show "fst c = replicate (length ps) []" by (intro nth_equalityI) simp_all
qed

lemma comes_to_rest: "\<exists>c'. steps c c' \<and> (\<nexists>d. syncStep bump ready c' d)"
  using measure_run_ends [where I = "\<lambda>_. True" and m = "\<lambda>c. sum_list (map length (fst c))" and step = "syncStep bump ready" and s = c]
    step_shortens by auto

text \<open>Nobody passes a wait for more than what all instances add.\<close>

lemma never_passed:
  assumes "steps (ps, fresh) c" and "i < length ps" and "ps ! i = u @ Await k n # v" and "totalBumps k ps < n"
  shows "\<exists>w. fst c ! i = w @ Await k n # v"
  using assms(1)
proof (induction rule: rtranclp_induct)
  case base
  then show ?case using assms(3) by auto
next
  case (step c c')
  then obtain w where w: "fst c ! i = w @ Await k n # v" by blast
  have "cnt (snd c) k < n" using inv_steps [OF step.hyps(1)] assms(4) unfolding syncInv_def by (metis le_add1 order_le_less_trans)
  from step.hyps(2) show ?case
  proof cases
    case (bump i' ps' k' r s)
    then show ?thesis using w by (cases "i' = i"; cases w) auto
  next
    case (await i' ps' k' n' r s)
    then show ?thesis using w \<open>cnt (snd c) k < n\<close> by (cases "i' = i"; cases w) (auto simp: ready_iff)
  qed
qed

end

text \<open>An instance: the counters themselves.\<close>

definition bumpCounter :: "syncKey \<Rightarrow> (syncKey \<Rightarrow> nat) \<Rightarrow> syncKey \<Rightarrow> nat" where
  "bumpCounter k s = s(k := s k + 1)"

definition counterReady :: "syncKey \<Rightarrow> nat \<Rightarrow> (syncKey \<Rightarrow> nat) \<Rightarrow> bool" where
  "counterReady k n s \<longleftrightarrow> n \<le> s k"

interpretation counters: sync_service bumpCounter counterReady "\<lambda>_. 0" "\<lambda>s. s"
  by unfold_locales (auto simp: bumpCounter_def counterReady_def)

end
