(* ===== verification/TestSetup.thy ===== *)
theory TestSetup
  imports TcpTransfer
begin

text \<open>
  The set-up that the libp2p based test cases share, libp2p.go: the options of the host from
  the test parameters, the exchange of addresses through the sync service, and the test case
  \<open>libp2pTest\<close>. The sync service, the network and libp2p are outside the repository: their
  results are arguments, and what a test case does to them is its trace.
\<close>

section \<open>Options of the host\<close>

text \<open>\<open>strings.Split(s, ",")\<close>: the parts between the commas, at least one.\<close>

fun splitComma :: "string \<Rightarrow> string list" where
  "splitComma [] = [[]]"
| "splitComma (c # cs) =
     (if c = CHR '','' then [] # splitComma cs
      else case splitComma cs of [] \<Rightarrow> [[c]] | p # ps \<Rightarrow> (c # p) # ps)"

datatype hostOption = TransportTcp | TransportQuic | TransportWs | ListenAddrStrings "string list"
  | SecurityTls | SecurityNoise | MuxerYamux | MuxerMplex

text \<open>The three switch statements; a name that none of the cases knows is passed over.\<close>

definition transportOption :: "string \<Rightarrow> string \<Rightarrow> (string \<times> hostOption) option" where
  "transportOption ip t =
     (if t = ''tcp'' then Some (''/ip4/'' @ ip @ ''/tcp/0'', TransportTcp)
      else if t = ''quic'' then Some (''/ip4/'' @ ip @ ''/udp/0/quic'', TransportQuic)
      else if t = ''ws'' then Some (''/ip4/'' @ ip @ ''/tcp/0/ws'', TransportWs)
      else None)"

definition securityOption :: "string \<Rightarrow> hostOption option" where
  "securityOption s = (if s = ''tls'' then Some SecurityTls else if s = ''noise'' then Some SecurityNoise else None)"

definition muxerOption :: "string \<Rightarrow> hostOption option" where
  "muxerOption m = (if m = ''yamux'' then Some MuxerYamux else if m = ''mplex'' then Some MuxerMplex else None)"

definition libp2pOpts :: "string \<Rightarrow> string \<Rightarrow> string \<Rightarrow> string \<Rightarrow> hostOption list" where
  "libp2pOpts ip transports security muxers =
     (let ts = List.map_filter (transportOption ip) (splitComma transports)
      in map snd ts @ [ListenAddrStrings (map fst ts)]
         @ List.map_filter securityOption (splitComma security)
         @ List.map_filter muxerOption (splitComma muxers))"

section \<open>The exchange of addresses\<close>

record 'id PeerMap =
  pmID :: 'id
  pmAddrs :: "string list"
  pmSeq :: int

record ('id, 'ma) addrInfo =
  aiID :: 'id
  aiAddrs :: "'ma list"

fun parseAddrs :: "(string \<Rightarrow> goerr + 'ma) \<Rightarrow> string list \<Rightarrow> goerr + 'ma list" where
  "parseAddrs newMultiaddr [] = Inr []"
| "parseAddrs newMultiaddr (addr # rest) =
     (case newMultiaddr addr of
        Inl err \<Rightarrow> Inl err
      | Inr ma \<Rightarrow> (case parseAddrs newMultiaddr rest of Inl err \<Rightarrow> Inl err | Inr mas \<Rightarrow> Inr (ma # mas)))"

text \<open>
  The loop that receives until the map has \<open>n\<close> entries. What the select receives is a
  message, or the end of the subscription with its error. With nothing left to receive it
  waits: \<open>None\<close>. The map lists its keys so that its size can be computed.
\<close>

datatype 'id peersEvent = PeerReceived "'id PeerMap" | SubDone goerr

type_synonym ('id, 'ma) peers = "int \<rightharpoonup> ('id, 'ma) addrInfo"

function collectPeers :: "(string \<Rightarrow> goerr + 'ma) \<Rightarrow> nat \<Rightarrow> 'id peersEvent list \<Rightarrow> ('id, 'ma) peers
    \<Rightarrow> (goerr + ('id, 'ma) peers) option" where
  "collectPeers newMultiaddr n es peers =
     (if \<not> card (dom peers) < n then Some (Inr peers)
      else case es of
             [] \<Rightarrow> None
           | SubDone err # _ \<Rightarrow> Some (Inl err)
           | PeerReceived pm # rest \<Rightarrow>
               (case parseAddrs newMultiaddr (pmAddrs pm) of
                  Inl err \<Rightarrow> Some (Inl err)
                | Inr addrs \<Rightarrow>
                    collectPeers newMultiaddr n rest (peers(pmSeq pm \<mapsto> \<lparr>aiID = pmID pm, aiAddrs = addrs\<rparr>))))"
  by pat_completeness auto
termination by (relation "measure (\<lambda>(_, _, es, _). length es)") auto

declare collectPeers.simps [simp del]

section \<open>Test cases\<close>

text \<open>
  What a test case does that other instances can see. \<open>ReceivePeers\<close> is the end of the loop
  that receives the addresses.
\<close>

datatype ('id, 'ma) testAct =
    Configure int "64 word"
  | Barrier string
  | NewHost "hostOption list"
  | PublishPeer "'id PeerMap"
  | ReceivePeers
  | SetHandler string
  | Connect "('id, 'ma) addrInfo option"
  | OpenStream string
  | PublishRoot
  | ReceiveRoot
  | Downloaded

text \<open>
  The answers of the outside world to the set-up: data network address, parameters, sequence
  number, host with its addresses, and what arrives on the peers topic.
\<close>

record ('id, 'ma) setupEnv =
  seIP :: string
  seLatency :: "goerr + int"
  seBandwidth :: "goerr + 64 word"
  seSeq :: int
  seTransports :: string
  seSecurity :: string
  seMuxers :: string
  seHostErr :: "goerr option"
  seHostID :: 'id
  seHostAddrs :: "string list"
  seInstances :: nat
  sePeerEvents :: "'id peersEvent list"

record ('id, 'ma) Libp2pTestInfo =
  tiSeq :: int
  tiPeers :: "('id, 'ma) peers"

text \<open>\<open>None\<close>: the set-up waits for peers that do not come.\<close>

definition setupBaseLibp2pTest :: "(string \<Rightarrow> goerr + 'ma) \<Rightarrow> ('id, 'ma) setupEnv
    \<Rightarrow> (goerr + ('id, 'ma) Libp2pTestInfo) option \<times> ('id, 'ma) testAct list" where
  "setupBaseLibp2pTest newMultiaddr env =
     (case seLatency env of Inl err \<Rightarrow> (Some (Inl err), [])
      | Inr latency \<Rightarrow>
     (case seBandwidth env of Inl err \<Rightarrow> (Some (Inl err), [])
      | Inr bandwidth \<Rightarrow>
     (let t1 = [Configure latency (bandwidth * 8), Barrier ''ip-allocation'',
                NewHost (libp2pOpts (seIP env) (seTransports env) (seSecurity env) (seMuxers env))]
      in case seHostErr env of Some err \<Rightarrow> (Some (Inl err), t1)
         | None \<Rightarrow>
             (let t2 = t1 @ [PublishPeer \<lparr>pmID = seHostID env, pmAddrs = seHostAddrs env, pmSeq = seSeq env\<rparr>]
              in case collectPeers newMultiaddr (seInstances env) (sePeerEvents env) Map.empty of
                   None \<Rightarrow> (None, t2)
                 | Some (Inl err) \<Rightarrow> (Some (Inl err), t2)
                 | Some (Inr peers) \<Rightarrow>
                     (Some (Inr \<lparr>tiSeq = seSeq env, tiPeers = peers\<rparr>), t2 @ [ReceivePeers, Configure latency (bandwidth * 8)])))))"

text \<open>
  The answers in \<open>libp2pTest\<close> after the set-up: the CAR file of the server, and connecting,
  the stream and the protocol of the client.
\<close>

record libp2pEnv =
  leFileErr :: "goerr option"
  leConnectErr :: "goerr option"
  leStreamErr :: "goerr option"
  leClientErr :: "goerr option"

definition libp2pTest :: "(string \<Rightarrow> goerr + 'ma) \<Rightarrow> ('id, 'ma) setupEnv \<Rightarrow> libp2pEnv
    \<Rightarrow> goerr option option \<times> ('id, 'ma) testAct list" where
  "libp2pTest newMultiaddr env lenv =
     (case setupBaseLibp2pTest newMultiaddr env of
        (None, t) \<Rightarrow> (None, t)
      | (Some (Inl err), t) \<Rightarrow> (Some (Some err), t)
      | (Some (Inr ti), t) \<Rightarrow>
          if tiSeq ti = 1 then
            (case leFileErr lenv of Some err \<Rightarrow> (Some (Some err), t)
             | None \<Rightarrow> (Some None, t @ [SetHandler ''/test-tcp-transfer/0.0.1'', Barrier ''protocol-registered'', Barrier ''test-done'']))
          else if tiSeq ti = 2 then
            (let t1 = t @ [Barrier ''protocol-registered'', Connect (tiPeers ti 1)]
             in if leConnectErr lenv \<noteq> None then (Some (leConnectErr lenv), t1)
                else let t2 = t1 @ [OpenStream ''/test-tcp-transfer/0.0.1'']
                     in if leStreamErr lenv \<noteq> None then (Some (leStreamErr lenv), t2)
                        else if leClientErr lenv \<noteq> None then (Some (leClientErr lenv), t2)
                        else (Some None, t2 @ [Downloaded, Barrier ''test-done'']))
          else (Some (Some (Errorf ''expected at most two test instances'' None)), t))"

end
