(* ===== verification/TestCases.thy ===== *)
theory TestCases
  imports TestSetup Blockstores
begin

text \<open>
  The test cases of bitswap.go and graphsync.go above the protocols: the role an instance
  takes, the server and the client of a run with the choices their parameters make, and the
  table of main.go. The walks and the exchange are modelled in their own theories; here the
  result of a walk is an argument.
\<close>

section \<open>Servers\<close>

text \<open>
  The answers to \<open>bitswapServer\<close> and \<open>gsServer\<close>: the block store with its root, the two
  switch parameters, and the errors of the calls they lead to.
\<close>

record serverEnv =
  svBlockstore :: "(goerr + unit) outcome"
  svServerType :: string
  svRouterErr :: "goerr option"
  svManifestType :: string
  svManifestLatencyErr :: "goerr option"

text \<open>A result, or that the run waits for ever, with the trace so far.\<close>

type_synonym ('id, 'ma) testRun = "goerr option outcome option \<times> ('id, 'ma) testAct list"

definition bitswapServer :: "serverEnv \<Rightarrow> int \<Rightarrow> ('id, 'ma) testRun" where
  "bitswapServer env seq =
     (case svBlockstore env of
        Panic msg \<Rightarrow> (Some (Panic msg), [])
      | Ret (Inl err) \<Rightarrow> (Some (Ret (Some err)), [])
      | Ret (Inr _) \<Rightarrow>
          if svServerType env = ''standard'' \<and> svRouterErr env \<noteq> None then (Some (Ret (svRouterErr env)), [])
          else if svServerType env \<notin> {''standard'', ''simplified''}
          then (Some (Panic (''unsupported servertype '' @ svServerType env)), [])
          else
            let t1 = (if svServerType env = ''simplified'' then [SetHandler ''/ipfs/bitswap/1.2.0''] else [])
            in if svManifestType env \<notin> {''none'', ''manifetch''}
               then (Some (Panic (''unsupported manifestfetchtype '' @ svManifestType env)), t1)
               else if svManifestType env = ''manifetch'' \<and> svManifestLatencyErr env \<noteq> None
               then (Some (Ret (svManifestLatencyErr env)), t1)
               else (Some (Ret None),
                     t1 @ (if svManifestType env = ''manifetch'' then [SetHandler ''/ipfs/manifetch/1.0.0''] else [])
                        @ (if seq = 1 then [PublishRoot] else []) @ [Barrier ''test-done'']))"

definition gsServer :: "serverEnv \<Rightarrow> ('id, 'ma) testRun" where
  "gsServer env =
     (case svBlockstore env of
        Panic msg \<Rightarrow> (Some (Panic msg), [])
      | Ret (Inl err) \<Rightarrow> (Some (Ret (Some err)), [])
      | Ret (Inr _) \<Rightarrow> (Some (Ret None), [SetHandler ''graphsync'', PublishRoot, Barrier ''test-done'']))"

section \<open>Clients\<close>

text \<open>
  The answers to the clients: the root or the end of the subscription, the data store, for
  each peer the error of connecting to it, the order in which the range loop sees the peers,
  the stream of the manifest, and the result of the walk or of the Graphsync request.
\<close>

record 'id clientEnv =
  ceRoot :: "goerr + unit"
  ceDatastoreErr :: "goerr option"
  ceManifestType :: string
  ceConnectErr :: "int \<Rightarrow> goerr option"
  cePeerOrder :: "int list"
  ceManifestStreamErr :: "goerr option"
  ceManifestGetErr :: "goerr option"
  ceResult :: "goerr option"

text \<open>The loop that connects to every peer but the second.\<close>

fun connectPeers :: "(int \<Rightarrow> goerr option) \<Rightarrow> ('id, 'ma) peers \<Rightarrow> int list \<Rightarrow> goerr option \<times> ('id, 'ma) testAct list" where
  "connectPeers connectErr peers [] = (None, [])"
| "connectPeers connectErr peers (i # is) =
     (if i = 2 then connectPeers connectErr peers is
      else case connectErr i of
             Some err \<Rightarrow> (Some err, [Connect (peers i)])
           | None \<Rightarrow> (let (r, t) = connectPeers connectErr peers is in (r, Connect (peers i) # t)))"

definition basicDAGWalker :: "'id clientEnv \<Rightarrow> ('id, 'ma) peers \<Rightarrow> ('id, 'ma) testRun" where
  "basicDAGWalker env peers =
     (if ceDatastoreErr env \<noteq> None then (Some (Ret (ceDatastoreErr env)), [])
      else case connectPeers (ceConnectErr env) peers (cePeerOrder env) of
             (Some err, t) \<Rightarrow> (Some (Ret (Some err)), t)
           | (None, t) \<Rightarrow>
               if ceResult env \<noteq> None then (Some (Ret (ceResult env)), t)
               else (Some (Ret None), t @ [Downloaded, Barrier ''test-done'']))"

text \<open>
  The walker with a manifest. Fifteen seconds after the manifest was requested a goroutine
  panics with a stack dump; \<open>late\<close> says where the instance is by then.
\<close>

datatype dumpTime = AtTheEnd | DuringWalk | DuringBarrier

definition manifetchDAGWalker :: "dumpTime \<Rightarrow> 'id clientEnv \<Rightarrow> ('id, 'ma) peers \<Rightarrow> ('id, 'ma) testRun" where
  "manifetchDAGWalker late env peers =
     (if ceDatastoreErr env \<noteq> None then (Some (Ret (ceDatastoreErr env)), [])
      else if ceConnectErr env 1 \<noteq> None then (Some (Ret (ceConnectErr env 1)), [Connect (peers 1)])
      else
        let t = [Connect (peers 1), OpenStream ''/ipfs/manifetch/1.0.0'']
        in if ceManifestStreamErr env \<noteq> None then (Some (Ret (ceManifestStreamErr env)), t)
           else if ceManifestGetErr env \<noteq> None then (Some (Ret (ceManifestGetErr env)), t)
           else if late = DuringWalk then (Some (Panic ''stackdump''), t)
           else if ceResult env \<noteq> None then (Some (Panic ''Walk2''), t)
           else (Some (if late = DuringBarrier then Panic ''stackdump'' else Ret None), t @ [Downloaded, Barrier ''test-done'']))"

definition prefixed :: "('id, 'ma) testAct list \<Rightarrow> ('id, 'ma) testRun \<Rightarrow> ('id, 'ma) testRun" where
  "prefixed t r = (fst r, t @ snd r)"

definition bitswapClient :: "dumpTime \<Rightarrow> 'id clientEnv \<Rightarrow> ('id, 'ma) peers \<Rightarrow> ('id, 'ma) testRun" where
  "bitswapClient late env peers =
     (case ceRoot env of
        Inl err \<Rightarrow> (Some (Ret (Some err)), [])
      | Inr _ \<Rightarrow>
          prefixed [ReceiveRoot]
            (if ceManifestType env = ''none'' then basicDAGWalker env peers
             else if ceManifestType env = ''manifetch'' then manifetchDAGWalker late env peers
             else (Some (Panic (''unsupported manifestfetchtype '' @ ceManifestType env)), [])))"

definition gsClient :: "'id clientEnv \<Rightarrow> ('id, 'ma) peers \<Rightarrow> ('id, 'ma) testRun" where
  "gsClient env peers =
     (case ceRoot env of
        Inl err \<Rightarrow> (Some (Ret (Some err)), [])
      | Inr _ \<Rightarrow>
          if ceDatastoreErr env \<noteq> None then (Some (Ret (ceDatastoreErr env)), [ReceiveRoot])
          else if ceConnectErr env 1 \<noteq> None then (Some (Ret (ceConnectErr env 1)), [ReceiveRoot, Connect (peers 1)])
          else if ceResult env \<noteq> None then (Some (Ret (ceResult env)), [ReceiveRoot, Connect (peers 1)])
          else (Some (Ret None), [ReceiveRoot, Connect (peers 1), Downloaded, Barrier ''test-done'']))"

section \<open>Test cases\<close>

text \<open>The set-up and then the role of the sequence number.\<close>

definition afterSetup :: "(string \<Rightarrow> goerr + 'ma) \<Rightarrow> ('id, 'ma) setupEnv
    \<Rightarrow> (('id, 'ma) Libp2pTestInfo \<Rightarrow> ('id, 'ma) testRun) \<Rightarrow> ('id, 'ma) testRun" where
  "afterSetup newMultiaddr env role =
     (case setupBaseLibp2pTest newMultiaddr env of
        (None, t) \<Rightarrow> (None, t)
      | (Some (Inl err), t) \<Rightarrow> (Some (Ret (Some err)), t)
      | (Some (Inr ti), t) \<Rightarrow> prefixed t (role ti))"

definition bitswap1to1 :: "(string \<Rightarrow> goerr + 'ma) \<Rightarrow> dumpTime \<Rightarrow> ('id, 'ma) setupEnv \<Rightarrow> serverEnv \<Rightarrow> 'id clientEnv
    \<Rightarrow> ('id, 'ma) testRun" where
  "bitswap1to1 newMultiaddr late env senv cenv =
     afterSetup newMultiaddr env
       (\<lambda>ti. if tiSeq ti = 1 then bitswapServer senv (tiSeq ti)
             else if tiSeq ti = 2 then bitswapClient late cenv (tiPeers ti)
             else (Some (Panic ''unsupported seq''), []))"

definition bitswap1toN :: "(string \<Rightarrow> goerr + 'ma) \<Rightarrow> dumpTime \<Rightarrow> ('id, 'ma) setupEnv \<Rightarrow> serverEnv \<Rightarrow> 'id clientEnv
    \<Rightarrow> ('id, 'ma) testRun" where
  "bitswap1toN newMultiaddr late env senv cenv =
     afterSetup newMultiaddr env
       (\<lambda>ti. if tiSeq ti = 1 then bitswapServer senv (tiSeq ti)
             else if tiSeq ti = 2 then bitswapClient late cenv (tiPeers ti)
             else bitswapServer senv (tiSeq ti))"

definition graphsync1to1 :: "(string \<Rightarrow> goerr + 'ma) \<Rightarrow> ('id, 'ma) setupEnv \<Rightarrow> serverEnv \<Rightarrow> 'id clientEnv
    \<Rightarrow> ('id, 'ma) testRun" where
  "graphsync1to1 newMultiaddr env senv cenv =
     afterSetup newMultiaddr env
       (\<lambda>ti. if tiSeq ti = 1 then gsServer senv
             else if tiSeq ti = 2 then gsClient cenv (tiPeers ti)
             else (Some (Panic ''unsupported seq''), []))"

datatype testcase = CaseTcp | CaseLibp2p | CaseBitswap | CaseBitswapN | CaseGraphsync

definition testcases :: "string \<rightharpoonup> testcase" where
  "testcases = [''tcp'' \<mapsto> CaseTcp, ''libp2p'' \<mapsto> CaseLibp2p, ''bitswap'' \<mapsto> CaseBitswap, ''bitswapN'' \<mapsto> CaseBitswapN,
     ''graphsync'' \<mapsto> CaseGraphsync]"

section \<open>Lemmas\<close>

definition barriers :: "('id, 'ma) testAct list \<Rightarrow> string list" where
  "barriers t = List.map_filter (\<lambda>a. case a of Barrier st \<Rightarrow> Some st | _ \<Rightarrow> None) t"

lemma barriers_simps [simp]:
  "barriers [] = []" "barriers (Barrier st # t) = st # barriers t" "barriers (t @ t') = barriers t @ barriers t'"
  "barriers (Configure l b # t) = barriers t" "barriers (NewHost os # t) = barriers t" "barriers (PublishPeer pm # t) = barriers t"
  "barriers (ReceivePeers # t) = barriers t"
  "barriers (SetHandler p # t) = barriers t" "barriers (Connect ai # t) = barriers t" "barriers (OpenStream p # t) = barriers t"
  "barriers (PublishRoot # t) = barriers t" "barriers (ReceiveRoot # t) = barriers t" "barriers (Downloaded # t) = barriers t"
  by (simp_all add: barriers_def List.map_filter_def)

lemma connectPeers_trace:
  "barriers (snd (connectPeers connectErr peers is)) = []
   \<and> PublishRoot \<notin> set (snd (connectPeers connectErr peers is)) \<and> ReceiveRoot \<notin> set (snd (connectPeers connectErr peers is))"
  by (induction "is") (auto simp: split_beta split: option.splits)

lemma setup_trace:
  assumes "setupBaseLibp2pTest newMultiaddr env = (Some (Inr ti), t)"
  shows "barriers t = [''ip-allocation''] \<and> PublishRoot \<notin> set t \<and> ReceiveRoot \<notin> set t \<and> tiSeq ti = seSeq env"
  using assms by (auto simp: setupBaseLibp2pTest_def Let_def split: sum.splits option.splits)

definition endsWell :: "('id, 'ma) testRun \<Rightarrow> bool" where
  "endsWell r \<longleftrightarrow> fst r = Some (Ret None)"

lemma server_trace:
  "endsWell (bitswapServer senv seq) \<Longrightarrow> barriers (snd (bitswapServer senv seq)) = [''test-done'']
     \<and> (PublishRoot \<in> set (snd (bitswapServer senv seq)) \<longleftrightarrow> seq = 1) \<and> ReceiveRoot \<notin> set (snd (bitswapServer senv seq))"
  by (auto simp: endsWell_def bitswapServer_def Let_def split: outcome.splits sum.splits if_splits)

lemma walker_trace:
  "endsWell (basicDAGWalker cenv peers) \<Longrightarrow> barriers (snd (basicDAGWalker cenv peers)) = [''test-done'']
     \<and> PublishRoot \<notin> set (snd (basicDAGWalker cenv peers))"
  using connectPeers_trace [of "ceConnectErr cenv" peers "cePeerOrder cenv"]
  by (auto simp: endsWell_def basicDAGWalker_def split: prod.splits option.splits if_splits)

lemma manifest_walker_trace:
  "endsWell (manifetchDAGWalker late cenv peers) \<Longrightarrow> barriers (snd (manifetchDAGWalker late cenv peers)) = [''test-done'']
     \<and> PublishRoot \<notin> set (snd (manifetchDAGWalker late cenv peers))"
  by (auto simp: endsWell_def manifetchDAGWalker_def Let_def split: if_splits)

lemma client_trace:
  assumes "endsWell (bitswapClient late cenv peers)"
  shows "barriers (snd (bitswapClient late cenv peers)) = [''test-done''] \<and> PublishRoot \<notin> set (snd (bitswapClient late cenv peers))
     \<and> ReceiveRoot \<in> set (snd (bitswapClient late cenv peers))"
  using assms walker_trace [of cenv peers] manifest_walker_trace [of late cenv peers]
  by (auto simp: endsWell_def bitswapClient_def prefixed_def split: sum.splits if_splits)

text \<open>The map of peers grows to the number of instances.\<close>

lemma collectPeers_card:
  assumes "collectPeers newMultiaddr n es peers = Some (Inr peers')" and "finite (dom peers)" and "card (dom peers) \<le> n"
  shows "card (dom peers') = n \<and> dom peers \<subseteq> dom peers'
    \<and> (\<forall>i ai. peers' i = Some ai \<longrightarrow> peers i = Some ai
         \<or> (\<exists>pm. PeerReceived pm \<in> set es \<and> pmSeq pm = i \<and> aiID ai = pmID pm \<and> parseAddrs newMultiaddr (pmAddrs pm) = Inr (aiAddrs ai)))"
  using assms
proof (induction newMultiaddr n es peers rule: collectPeers.induct)
  case (1 newMultiaddr n es peers)
  show ?case
  proof (cases "card (dom peers) < n")
    case True
    then obtain pm rest addrs where es: "es = PeerReceived pm # rest" and addrs: "parseAddrs newMultiaddr (pmAddrs pm) = Inr addrs"
      and r: "collectPeers newMultiaddr n rest (peers(pmSeq pm \<mapsto> \<lparr>aiID = pmID pm, aiAddrs = addrs\<rparr>)) = Some (Inr peers')"
      using "1.prems"(1) by (auto simp: collectPeers.simps [of _ n es] split: list.splits peersEvent.splits sum.splits)
    have "card (insert (pmSeq pm) (dom peers)) \<le> n" using True "1.prems"(2) by (simp add: card_insert_if)
    then show ?thesis
      using "1.IH" [OF _ es refl addrs] True r "1.prems"(2) es addrs by (fastforce split: if_splits)
  next
    case False
    then show ?thesis using "1.prems" by (simp add: collectPeers.simps)
  qed
qed

lemma afterSetup_endsWell:
  assumes "endsWell (afterSetup newMultiaddr env role)"
  obtains ti t where "setupBaseLibp2pTest newMultiaddr env = (Some (Inr ti), t)" and "endsWell (role ti)"
    and "snd (afterSetup newMultiaddr env role) = t @ snd (role ti)"
  using assms
  by (cases "setupBaseLibp2pTest newMultiaddr env")
    (auto simp: afterSetup_def endsWell_def prefixed_def split: option.splits sum.splits)

section \<open>Properties\<close>

text \<open>
  Instances that succeed meet. In \<open>bitswap1to1\<close> and \<open>bitswap1toN\<close> every instance that
  ends without an error has passed the same two barriers in the same order, whatever its
  role; the root is published by instance 1 and no other, and received by instance 2 and no
  other.
\<close>

theorem bitswap_instances_meet:
  assumes "r \<in> {bitswap1to1 newMultiaddr late env senv cenv, bitswap1toN newMultiaddr late env senv cenv}" and "endsWell r"
  shows "barriers (snd r) = [''ip-allocation'', ''test-done'']
    \<and> (PublishRoot \<in> set (snd r) \<longleftrightarrow> seSeq env = 1) \<and> (ReceiveRoot \<in> set (snd r) \<longleftrightarrow> seSeq env = 2)"
proof -
  obtain other where r: "r = afterSetup newMultiaddr env (\<lambda>ti. if tiSeq ti = 1 then bitswapServer senv (tiSeq ti)
       else if tiSeq ti = 2 then bitswapClient late cenv (tiPeers ti) else other ti)"
    and other: "\<And>ti. other ti = (Some (Panic ''unsupported seq''), []) \<or> other ti = bitswapServer senv (tiSeq ti)"
    using assms(1) that [of "\<lambda>ti. (Some (Panic ''unsupported seq''), [])"] that [of "\<lambda>ti. bitswapServer senv (tiSeq ti)"]
    unfolding bitswap1to1_def bitswap1toN_def by blast
  define role where "role = (\<lambda>ti. if tiSeq ti = 1 then bitswapServer senv (tiSeq ti)
       else if tiSeq ti = 2 then bitswapClient late cenv (tiPeers ti) else other ti)"
  obtain ti t where s: "setupBaseLibp2pTest newMultiaddr env = (Some (Inr ti), t)" "endsWell (role ti)" "snd r = t @ snd (role ti)"
    using assms(2) unfolding r role_def by (rule afterSetup_endsWell)
  note t = setup_trace [OF s(1)]
  have "barriers (snd (role ti)) = [''test-done''] \<and> (PublishRoot \<in> set (snd (role ti)) \<longleftrightarrow> tiSeq ti = 1)
      \<and> (ReceiveRoot \<in> set (snd (role ti)) \<longleftrightarrow> tiSeq ti = 2)"
    using s(2) server_trace [of senv "tiSeq ti"] client_trace [of late cenv "tiPeers ti"] other [of ti]
    unfolding role_def by (auto simp: endsWell_def split: if_splits)
  then show ?thesis using t s(3) by simp
qed

definition demoSetup :: "(nat, nat) setupEnv" where
  "demoSetup = \<lparr>seIP = ''16.0.0.1'', seLatency = Inr 5, seBandwidth = Inr 1000, seSeq = 1, seTransports = ''tcp'',
     seSecurity = ''noise'', seMuxers = ''yamux'', seHostErr = None, seHostID = 7, seHostAddrs = [''/ip4/16.0.0.1/tcp/1''],
     seInstances = 1, sePeerEvents = [PeerReceived \<lparr>pmID = 7, pmAddrs = [''/ip4/16.0.0.1/tcp/1''], pmSeq = 1\<rparr>]\<rparr>"

definition demoServer :: serverEnv where
  "demoServer = \<lparr>svBlockstore = Ret (Inr ()), svServerType = ''simplified'', svRouterErr = None, svManifestType = ''none'',
     svManifestLatencyErr = None\<rparr>"

definition demoClient :: "nat clientEnv" where
  "demoClient = \<lparr>ceRoot = Inr (), ceDatastoreErr = None, ceManifestType = ''none'', ceConnectErr = (\<lambda>i. None), cePeerOrder = [1],
     ceManifestStreamErr = None, ceManifestGetErr = None, ceResult = None\<rparr>"

theorem bitswap_instances_meet_witness:
  "barriers (snd (bitswap1to1 (\<lambda>s. Inr (0 :: nat)) AtTheEnd demoSetup demoServer demoClient)) = [''ip-allocation'', ''test-done'']
     \<and> PublishRoot \<in> set (snd (bitswap1to1 (\<lambda>s. Inr (0 :: nat)) AtTheEnd demoSetup demoServer demoClient))"
proof -
  have "endsWell (bitswap1to1 (\<lambda>s. Inr (0 :: nat)) AtTheEnd demoSetup demoServer demoClient)"
    by (simp add: endsWell_def bitswap1to1_def afterSetup_def setupBaseLibp2pTest_def demoSetup_def collectPeers.simps prefixed_def
        bitswapServer_def demoServer_def)
  then show ?thesis
    using bitswap_instances_meet [of "bitswap1to1 (\<lambda>s. Inr (0 :: nat)) AtTheEnd demoSetup demoServer demoClient"
        "\<lambda>s. Inr (0 :: nat)" AtTheEnd demoSetup demoServer demoClient]
    by (simp add: demoSetup_def)
qed

text \<open>
  C33: When the exchange of addresses ends without an error, the map has exactly one entry
  for each of as many instances as the test has, and each entry is what some instance
  published under that number.
\<close>

theorem peers_complete:
  assumes "setupBaseLibp2pTest newMultiaddr env = (Some (Inr ti), t)"
  shows "card (dom (tiPeers ti)) = seInstances env
    \<and> (\<forall>i ai. tiPeers ti i = Some ai \<longrightarrow> (\<exists>pm. PeerReceived pm \<in> set (sePeerEvents env) \<and> pmSeq pm = i
         \<and> aiID ai = pmID pm \<and> parseAddrs newMultiaddr (pmAddrs pm) = Inr (aiAddrs ai)))"
proof -
  have "collectPeers newMultiaddr (seInstances env) (sePeerEvents env) Map.empty = Some (Inr (tiPeers ti))"
    using assms by (auto simp: setupBaseLibp2pTest_def Let_def split: sum.splits option.splits)
  from collectPeers_card [OF this] show ?thesis by simp
qed

theorem peers_complete_witness:
  "\<exists>ti t. setupBaseLibp2pTest (\<lambda>s. Inr (0 :: nat)) demoSetup = (Some (Inr ti), t) \<and> card (dom (tiPeers ti)) = 1"
proof -
  obtain ti t where s: "setupBaseLibp2pTest (\<lambda>s. Inr (0 :: nat)) demoSetup = (Some (Inr ti), t)"
    by (simp add: setupBaseLibp2pTest_def demoSetup_def collectPeers.simps)
  then show ?thesis using peers_complete [OF s] by (simp add: demoSetup_def)
qed

end
