(* ===== verification/Kubo.thy ===== *)
theory Kubo
  imports Prelude "HOL-Library.Multiset"
begin

text \<open>
  The Kubo speed test of kubo/main.go and the message statistics of kubo/tracer.go. The
  Bitswap exchange, the sync service and the network are outside the repository.
\<close>

section \<open>Statistics\<close>

text \<open>The struct \<open>BitSwapMessageStats\<close>, with its fields as selectors.\<close>

datatype BitSwapMessageStats = Stats (Count: int) (Size: int) (Blocks: int) (Haves: int) (DontHaves: int) (Wants: int) (Cancels: int)

definition statsAppend :: "BitSwapMessageStats \<Rightarrow> BitSwapMessageStats \<Rightarrow> BitSwapMessageStats" where
  "statsAppend s bms = Stats (Count s + Count bms) (Size s + Size bms) (Blocks s + Blocks bms) (Haves s + Haves bms)
     (DontHaves s + DontHaves bms) (Wants s + Wants bms) (Cancels s + Cancels bms)"

text \<open>What the tracer reads from a message: its size, and its lists; an entry of the wantlist may be a cancel.\<close>

record 'c traceMsg =
  tmSize :: int
  tmBlocks :: "'c list"
  tmHaves :: "'c list"
  tmDontHaves :: "'c list"
  tmWantlist :: "('c \<times> bool) list"

definition processMsg :: "'c traceMsg \<Rightarrow> BitSwapMessageStats" where
  "processMsg msg =
     Stats 1 (tmSize msg) (int (length (tmBlocks msg))) (int (length (tmHaves msg))) (int (length (tmDontHaves msg)))
       (int (length (tmWantlist msg)))
       (fold (\<lambda>entry cancels. if snd entry then cancels + 1 else cancels) (tmWantlist msg) 0)"

record TestplanTracer =
  recvStats :: BitSwapMessageStats
  sendStats :: BitSwapMessageStats

definition NewTracer :: TestplanTracer where
  "NewTracer = \<lparr>recvStats = Stats 0 0 0 0 0 0 0, sendStats = Stats 0 0 0 0 0 0 0\<rparr>"

definition MessageReceived :: "'c traceMsg \<Rightarrow> TestplanTracer \<Rightarrow> TestplanTracer" where
  "MessageReceived msg t = t\<lparr>recvStats := statsAppend (recvStats t) (processMsg msg)\<rparr>"

definition MessageSent :: "'c traceMsg \<Rightarrow> TestplanTracer \<Rightarrow> TestplanTracer" where
  "MessageSent msg t = t\<lparr>sendStats := statsAppend (sendStats t) (processMsg msg)\<rparr>"

text \<open>\<open>statsAppend\<close> is the addition of a commutative monoid, so the sums of the library apply.\<close>

instantiation BitSwapMessageStats :: comm_monoid_add
begin

definition zero_BitSwapMessageStats :: BitSwapMessageStats where
  "zero_BitSwapMessageStats = Stats 0 0 0 0 0 0 0"

definition plus_BitSwapMessageStats :: "BitSwapMessageStats \<Rightarrow> BitSwapMessageStats \<Rightarrow> BitSwapMessageStats" where
  "plus_BitSwapMessageStats = statsAppend"

instance
  by standard (simp_all add: zero_BitSwapMessageStats_def plus_BitSwapMessageStats_def statsAppend_def)

end

section \<open>The speed test\<close>

text \<open>What an instance does that others can see; \<open>'c\<close> are the multihashes.\<close>

datatype 'c kuboAct =
    ConfigureNet int "64 word"
  | SignalWait string
  | PublishProvider
  | PutBlock 'c
  | PublishBlock 'c
  | ConnectProvider
  | SubscribeBlocks
  | Download 'c

text \<open>
  The loop \<open>for i := 0; i <= count; i++\<close> of the provider; \<open>blk i\<close> is the multihash of the
  \<open>i\<close>-th random block and \<open>putErr\<close> the error of storing it.
\<close>

function provideLoop :: "(int \<Rightarrow> 'c) \<Rightarrow> ('c \<Rightarrow> goerr option) \<Rightarrow> int \<Rightarrow> int \<Rightarrow> goerr option \<times> 'c kuboAct list" where
  "provideLoop blk putErr cnt i =
     (if \<not> i \<le> cnt then (None, [])
      else case putErr (blk i) of
             Some err \<Rightarrow> (Some err, [])
           | None \<Rightarrow> (let (r, t) = provideLoop blk putErr cnt (i + 1) in (r, PutBlock (blk i) # PublishBlock (blk i) # t)))"
  by pat_completeness auto
termination by (relation "measure (\<lambda>(_, _, cnt, i). nat (cnt + 1 - i))") auto

declare provideLoop.simps [simp del]

definition runProvide :: "(int \<Rightarrow> 'c) \<Rightarrow> ('c \<Rightarrow> goerr option) \<Rightarrow> int \<Rightarrow> goerr option \<times> 'c kuboAct list" where
  "runProvide blk putErr cnt =
     (let t0 = [PublishProvider, SignalWait ''ready-to-publish''] in
      case provideLoop blk putErr cnt 0 of
        (Some err, t) \<Rightarrow> (Some err, t0 @ t)
      | (None, t) \<Rightarrow> (None, t0 @ t @ [SignalWait ''ready-to-download'', SignalWait ''done'']))"

text \<open>
  The two loops of the requestor: connecting to the providers, of which there are as many as
  there are instances outside its group, and downloading. \<open>None\<close>: it waits for a message
  that does not come.
\<close>

fun connectLoop :: "nat \<Rightarrow> goerr option list \<Rightarrow> goerr option option \<times> 'c kuboAct list" where
  "connectLoop 0 es = (Some None, [])"
| "connectLoop (Suc n) [] = (None, [])"
| "connectLoop (Suc n) (Some err # es) = (Some (Some (Errorf ''could not connect to provider'' (Some err))), [ConnectProvider])"
| "connectLoop (Suc n) (None # es) = (let (r, t) = connectLoop n es in (r, ConnectProvider # t))"

fun downloadLoop :: "('c \<Rightarrow> goerr option) \<Rightarrow> nat \<Rightarrow> 'c list \<Rightarrow> goerr option option \<times> 'c kuboAct list" where
  "downloadLoop getErr 0 mhs = (Some None, [])"
| "downloadLoop getErr (Suc n) [] = (None, [])"
| "downloadLoop getErr (Suc n) (mh # mhs) =
     (case getErr mh of
        Some err \<Rightarrow> (Some (Some (Errorf ''could not download get block'' (Some err))), [])
      | None \<Rightarrow> (let (r, t) = downloadLoop getErr n mhs in (r, Download mh # t)))"

text \<open>The answers to the requestor, with what arrives on the two topics.\<close>

record 'c requestEnv =
  rqProviderSubErr :: "goerr option"
  rqInstances :: int
  rqGroupInstances :: int
  rqConnects :: "goerr option list"
  rqBlockSubErr :: "goerr option"
  rqBlocks :: "'c list"
  rqGetErr :: "'c \<Rightarrow> goerr option"
  rqCount :: int

definition runRequest :: "'c requestEnv \<Rightarrow> goerr option option \<times> 'c kuboAct list" where
  "runRequest env =
     (if rqProviderSubErr env \<noteq> None then (Some (rqProviderSubErr env), [])
      else case connectLoop (nat (rqInstances env - rqGroupInstances env)) (rqConnects env) of
             (None, t) \<Rightarrow> (None, t)
           | (Some (Some err), t) \<Rightarrow> (Some (Some err), t)
           | (Some None, t) \<Rightarrow>
               if rqBlockSubErr env \<noteq> None
               then (Some (Some (Errorf ''could not subscribe to block sub'' (rqBlockSubErr env))), t)
               else
                 let t1 = t @ [SubscribeBlocks, SignalWait ''ready-to-publish'', SignalWait ''ready-to-download'']
                 in case downloadLoop (rqGetErr env) (nat (rqCount env)) (rqBlocks env) of
                      (None, t2) \<Rightarrow> (None, t1 @ t2)
                    | (Some (Some err), t2) \<Rightarrow> (Some (Some err), t1 @ t2)
                    | (Some None, t2) \<Rightarrow> (Some None, t1 @ t2 @ [SignalWait ''done'']))"

text \<open>
  The test: parameters, network, the barrier that gives the sequence number, the listen
  address, the host and the DHT (\<open>prepErr\<close> for the last three), and the role of the group.
\<close>

definition runSpeedTest :: "goerr + int \<Rightarrow> goerr + 64 word \<Rightarrow> goerr option \<Rightarrow> string \<Rightarrow> (goerr option option \<times> 'c kuboAct list)
    \<Rightarrow> (goerr option option \<times> 'c kuboAct list) \<Rightarrow> goerr option option \<times> 'c kuboAct list" where
  "runSpeedTest latency bandwidth prepErr groupID provide request =
     (case latency of Inl err \<Rightarrow> (Some (Some err), [])
      | Inr lat \<Rightarrow>
     (case bandwidth of Inl err \<Rightarrow> (Some (Some err), [])
      | Inr bw \<Rightarrow>
     (let t = [ConfigureNet lat (bw * 8), SignalWait ''ip-allocation'']
      in if prepErr \<noteq> None then (Some prepErr, t)
         else if groupID = ''providers'' then (fst provide, t @ snd provide)
         else if groupID = ''requestors'' then (fst request, t @ snd request)
         else (Some (Some (Errorf ''unknown test group id'' None)), t))))"

section \<open>Lemmas\<close>

lemma received_sum: "recvStats (fold MessageReceived msgs t) = recvStats t + sum_list (map processMsg msgs)"
  by (induction msgs arbitrary: t) (simp_all add: MessageReceived_def plus_BitSwapMessageStats_def [symmetric] add.assoc)

text \<open>So the order in which messages arrive does not matter.\<close>

lemma received_order:
  assumes "mset msgs = mset msgs'"
  shows "recvStats (fold MessageReceived msgs t) = recvStats (fold MessageReceived msgs' t)"
proof -
  have "sum_list (map processMsg msgs) = sum_list (map processMsg msgs')"
    using assms by (metis mset_map sum_mset_sum_list)
  then show ?thesis by (simp add: received_sum)
qed

lemma fold_cancels: "fold (\<lambda>entry cancels. if snd entry then cancels + 1 else cancels) es n = n + int (length (filter snd es))"
  by (induction es arbitrary: n) auto

definition publishedBlocks :: "'c kuboAct list \<Rightarrow> 'c list" where
  "publishedBlocks t = List.map_filter (\<lambda>a. case a of PublishBlock c \<Rightarrow> Some c | _ \<Rightarrow> None) t"

definition waits :: "'c kuboAct list \<Rightarrow> string list" where
  "waits t = List.map_filter (\<lambda>a. case a of SignalWait st \<Rightarrow> Some st | _ \<Rightarrow> None) t"

lemma act_views [simp]:
  "waits [] = []" "waits (t @ t') = waits t @ waits t'" "waits (SignalWait st # t) = st # waits t"
  "waits (PublishProvider # t) = waits t" "waits (PutBlock c # t) = waits t" "waits (PublishBlock c # t) = waits t"
  "waits (ConnectProvider # t) = waits t" "waits (SubscribeBlocks # t) = waits t" "waits (Download c # t) = waits t"
  "waits (ConfigureNet l b # t) = waits t"
  "publishedBlocks [] = []" "publishedBlocks (t @ t') = publishedBlocks t @ publishedBlocks t'"
  "publishedBlocks (PublishBlock c # t) = c # publishedBlocks t" "publishedBlocks (PutBlock c # t) = publishedBlocks t"
  "publishedBlocks (PublishProvider # t) = publishedBlocks t" "publishedBlocks (SignalWait st # t) = publishedBlocks t"
  by (simp_all add: waits_def publishedBlocks_def List.map_filter_def)

lemma provideLoop_trace:
  assumes "fst (provideLoop blk putErr cnt i) = None"
  shows "waits (snd (provideLoop blk putErr cnt i)) = []
    \<and> publishedBlocks (snd (provideLoop blk putErr cnt i)) = map blk [i..cnt]"
  using assms
proof (induction blk putErr cnt i rule: provideLoop.induct)
  case (1 blk putErr cnt i)
  show ?case
  proof (cases "i \<le> cnt")
    case True
    then have ok: "putErr (blk i) = None" "fst (provideLoop blk putErr cnt (i + 1)) = None"
      using "1.prems" by (auto simp: provideLoop.simps [of _ _ cnt i] split_beta split: option.splits)
    then show ?thesis
      using "1.IH" [OF _ ok(1) ok(2)] True upto_rec1 [OF True] by (simp add: provideLoop.simps [of _ _ cnt i] split_beta)
  next
    case False
    then show ?thesis by (simp add: provideLoop.simps)
  qed
qed

lemma runProvide_trace:
  assumes "fst (runProvide blk putErr cnt) = None"
  shows "waits (snd (runProvide blk putErr cnt)) = [''ready-to-publish'', ''ready-to-download'', ''done'']
    \<and> publishedBlocks (snd (runProvide blk putErr cnt)) = map blk [0..cnt]"
proof -
  obtain r t where l: "provideLoop blk putErr cnt 0 = (r, t)" by fastforce
  then have "r = None" using assms by (auto simp: runProvide_def Let_def split: option.splits)
  then show ?thesis using provideLoop_trace [of blk putErr cnt 0] l by (simp add: runProvide_def)
qed

lemma connectLoop_trace: "waits (snd (connectLoop n es)) = []"
  by (induction n es rule: connectLoop.induct) (simp_all add: split_beta)

lemma connectLoop_waits: "connectLoop n es = (r, t) \<Longrightarrow> waits t = []"
  by (metis connectLoop_trace snd_conv)

lemma downloadLoop_trace:
  "waits (snd (downloadLoop getErr n mhs)) = []"
  "fst (downloadLoop getErr n mhs) = Some None \<Longrightarrow> snd (downloadLoop getErr n mhs) = map Download (take n mhs)"
  by (induction getErr n mhs rule: downloadLoop.induct) (auto simp: split_beta split: option.splits)

lemma downloadLoop_returns: "n \<le> length mhs \<Longrightarrow> fst (downloadLoop getErr n mhs) \<noteq> None"
  by (induction getErr n mhs rule: downloadLoop.induct) (auto simp: split_beta split: option.splits)

section \<open>Properties\<close>

text \<open>
  C34: What the tracer counts. After any sequence of sent and received messages, in any
  interleaving, the statistics of the received messages have grown by exactly: their number,
  the sum of their sizes, and the numbers of the blocks, haves, "dont haves", wantlist entries
  and cancelled entries in them; and the statistics of the sent messages by the same for the
  sent ones.
\<close>

theorem tracer_counts:
  "let t' = fold (\<lambda>(received, msg). if received then MessageReceived msg else MessageSent msg) events t;
       grown = (\<lambda>received field. \<Sum>(r, msg) \<leftarrow> events. if r = received then field msg else (0 :: int));
       counted = (\<lambda>received s. Stats
         (Count s + grown received (\<lambda>msg. 1))
         (Size s + grown received tmSize)
         (Blocks s + grown received (\<lambda>msg. int (length (tmBlocks msg))))
         (Haves s + grown received (\<lambda>msg. int (length (tmHaves msg))))
         (DontHaves s + grown received (\<lambda>msg. int (length (tmDontHaves msg))))
         (Wants s + grown received (\<lambda>msg. int (length (tmWantlist msg))))
         (Cancels s + grown received (\<lambda>msg. int (length (filter snd (tmWantlist msg))))))
   in recvStats t' = counted True (recvStats t) \<and> sendStats t' = counted False (sendStats t)"
  unfolding Let_def
proof (induction events arbitrary: t)
  case Nil
  then show ?case by simp
next
  case (Cons e events)
  obtain received msg where e: "e = (received, msg)" by (cases e)
  show ?case
    using Cons.IH [of "if received then MessageReceived msg t else MessageSent msg t"]
    by (cases received) (simp_all add: e MessageReceived_def MessageSent_def statsAppend_def processMsg_def fold_cancels algebra_simps)
qed

text \<open>
  A provider that ends without an error has published one block more than the
  parameter \<open>count\<close> asks for.
\<close>

theorem provider_publishes_one_more:
  assumes "fst (runProvide blk putErr cnt) = None" and "0 \<le> cnt"
  shows "publishedBlocks (snd (runProvide blk putErr cnt)) = map blk [0..cnt]
    \<and> int (length (publishedBlocks (snd (runProvide blk putErr cnt)))) = cnt + 1"
  using runProvide_trace [OF assms(1)] assms(2) by simp

theorem provider_publishes_one_more_witness:
  "int (length (publishedBlocks (snd (runProvide (\<lambda>i. i) (\<lambda>c. None) 2)))) = 3"
proof -
  have "fst (runProvide (\<lambda>i. i) (\<lambda>c. None) 2) = (None :: goerr option)"
    by (simp add: runProvide_def provideLoop.simps)
  from provider_publishes_one_more [OF this] show ?thesis by simp
qed

text \<open>
  A provider and a requestor that succeed have passed the same barriers in the same
  order, and a requestor that has the blocks of one provider on its topic never waits for
  another: it downloads the first \<open>count\<close> of them or returns the first error.
\<close>

theorem kubo_roles_meet:
  assumes "fst (runProvide blk putErr cnt) = None" and "runRequest env = (Some None, t)"
  shows "waits t = waits (snd (runProvide blk putErr cnt))
    \<and> (rqCount env = cnt \<longrightarrow> 0 \<le> cnt \<longrightarrow> rqBlocks env = publishedBlocks (snd (runProvide blk putErr cnt)) \<longrightarrow>
        fst (downloadLoop (rqGetErr env) (nat cnt) (rqBlocks env)) \<noteq> None)"
proof -
  note p = runProvide_trace [OF assms(1)]
  have "waits t = [''ready-to-publish'', ''ready-to-download'', ''done'']"
    using assms(2) downloadLoop_trace(1) [of "rqGetErr env" "nat (rqCount env)" "rqBlocks env"]
    by (auto simp: runRequest_def Let_def dest: connectLoop_waits split: if_splits prod.splits option.splits)
  then show ?thesis using p by (simp add: downloadLoop_returns)
qed

theorem kubo_roles_meet_witness:
  "\<exists>t. runRequest \<lparr>rqProviderSubErr = None, rqInstances = 2, rqGroupInstances = 1, rqConnects = [None], rqBlockSubErr = None,
      rqBlocks = [0, 1 :: int], rqGetErr = (\<lambda>c. None), rqCount = 1\<rparr> = (Some None, t)
    \<and> waits t = waits (snd (runProvide (\<lambda>i. i) (\<lambda>c. None) 1))"
proof -
  let ?env = "\<lparr>rqProviderSubErr = None, rqInstances = 2, rqGroupInstances = 1, rqConnects = [None], rqBlockSubErr = None,
      rqBlocks = [0, 1 :: int], rqGetErr = (\<lambda>c. None), rqCount = 1\<rparr>"
  obtain t where r: "runRequest ?env = (Some None, t)" by (simp add: runRequest_def)
  have p: "fst (runProvide (\<lambda>i. i) (\<lambda>c. None) 1) = (None :: goerr option)"
    by (simp add: runProvide_def provideLoop.simps)
  show ?thesis using r kubo_roles_meet [OF p r] by blast
qed

end
