(* ===== verification/SyncRuns.thy ===== *)
theory SyncRuns
  imports SyncService TestCases Kubo
begin

text \<open>
  All instances of a test together. The trace of an instance (theories TestCases and Kubo)
  says what it does with the sync service and in which order; here these become programs of
  theory SyncService, and the runs of all instances of a test are shown to end.
\<close>

section \<open>Traces as programs\<close>

text \<open>
  The calls of the sync client in libp2p.go and bitswap.go: the barriers have the number of
  instances as target, and the loop over the peers ends when all have published. Configuring
  the network waits at the configuration's \<open>CallbackState\<close> for as many signals as there are
  instances; the signal is given for each configuration that is applied, and it is counted
  with the call that asks for it.
\<close>

fun actOps :: "nat \<Rightarrow> ('id, 'ma) testAct \<Rightarrow> syncOp list" where
  "actOps n (Configure lat bw) = signalAndWait ''network-configured'' n"
| "actOps n (Barrier st) = signalAndWait st n"
| "actOps n (PublishPeer pm) = [Bump (Topic ''peers'')]"
| "actOps n ReceivePeers = [Await (Topic ''peers'') n]"
| "actOps n PublishRoot = [Bump (Topic ''rootCid'')]"
| "actOps n ReceiveRoot = [Await (Topic ''rootCid'') 1]"
| "actOps n a = []"

definition traceOps :: "nat \<Rightarrow> ('id, 'ma) testAct list \<Rightarrow> syncOp list" where
  "traceOps n t = concat (map (actOps n) t)"

lemma traceOps_simps [simp]:
  "traceOps n [] = []" "traceOps n (a # t) = actOps n a @ traceOps n t" "traceOps n (t @ t') = traceOps n t @ traceOps n t'"
  by (simp_all add: traceOps_def)

text \<open>The order of the keys in every test of PC.\<close>

definition testRank :: "syncKey \<Rightarrow> nat" where
  "testRank k = (if k = State ''network-configured'' then 0 else if k = State ''ip-allocation'' then 1 else if k = Topic ''peers'' then 2
     else if k \<in> {Topic ''rootCid'', State ''protocol-registered''} then 3 else 4)"

definition setupOps :: "nat \<Rightarrow> syncOp list" where
  "setupOps n = signalAndWait ''network-configured'' n @ signalAndWait ''ip-allocation'' n
     @ [Bump (Topic ''peers''), Await (Topic ''peers'') n] @ signalAndWait ''network-configured'' n"

lemma setup_ops:
  assumes "setupBaseLibp2pTest newMultiaddr env = (Some (Inr ti), t)"
  shows "traceOps n t = setupOps n"
  using assms by (auto simp: setupBaseLibp2pTest_def setupOps_def Let_def split: sum.splits option.splits)

lemma connectPeers_ops: "traceOps n (snd (connectPeers connectErr peers is)) = []"
  by (induction "is") (auto simp: split_beta split: option.splits)

lemma server_ops:
  assumes "endsWell (bitswapServer senv seq)"
  shows "traceOps n (snd (bitswapServer senv seq)) =
    (if seq = 1 then [Bump (Topic ''rootCid'')] else []) @ signalAndWait ''test-done'' n"
  using assms by (auto simp: endsWell_def bitswapServer_def Let_def split: outcome.splits sum.splits if_splits)

lemma client_ops:
  assumes "endsWell (bitswapClient late cenv peers)"
  shows "traceOps n (snd (bitswapClient late cenv peers)) = Await (Topic ''rootCid'') 1 # signalAndWait ''test-done'' n"
  using assms connectPeers_ops [of n "ceConnectErr cenv" peers "cePeerOrder cenv"]
  by (auto simp: endsWell_def bitswapClient_def basicDAGWalker_def manifetchDAGWalker_def prefixed_def Let_def
      split: sum.splits prod.splits option.splits if_splits)

text \<open>The program of instance \<open>i\<close> of \<open>bitswap1toN\<close>, counted from 0.\<close>

definition bitswapProgram :: "nat \<Rightarrow> nat \<Rightarrow> syncOp list" where
  "bitswapProgram n i = setupOps n @
     (if i = 0 then [Bump (Topic ''rootCid'')] else if i = 1 then [Await (Topic ''rootCid'') 1] else [])
     @ signalAndWait ''test-done'' n"

lemma bitswap_ops:
  assumes "endsWell (bitswap1toN newMultiaddr late env senv cenv)" and "seSeq env = int i + 1"
  shows "traceOps n (snd (bitswap1toN newMultiaddr late env senv cenv)) = bitswapProgram n i"
proof -
  obtain ti t where s: "setupBaseLibp2pTest newMultiaddr env = (Some (Inr ti), t)"
    and role: "endsWell (if tiSeq ti = 1 then bitswapServer senv (tiSeq ti)
       else if tiSeq ti = 2 then bitswapClient late cenv (tiPeers ti) else bitswapServer senv (tiSeq ti))"
    and tr: "snd (bitswap1toN newMultiaddr late env senv cenv) = t @ snd (if tiSeq ti = 1 then bitswapServer senv (tiSeq ti)
       else if tiSeq ti = 2 then bitswapClient late cenv (tiPeers ti) else bitswapServer senv (tiSeq ti))"
    using assms(1) unfolding bitswap1toN_def by (rule afterSetup_endsWell)
  have "tiSeq ti = int i + 1" using setup_trace [OF s] assms(2) by simp
  then show ?thesis using role setup_ops [OF s] unfolding tr
    by (auto simp: bitswapProgram_def server_ops client_ops split: if_splits)
qed

lemma early_bitswap:
  "k \<in> {State ''network-configured'', State ''ip-allocation'', State ''test-done'', Topic ''peers''} \<Longrightarrow>
   early testRank k (bitswapProgram n i) = 1"
  "early testRank (Topic ''rootCid'') (bitswapProgram n i) = (if i = 0 then 1 else 0)"
  by (auto simp: bitswapProgram_def setupOps_def signalAndWait_def testRank_def)

lemma bitswap_supplied: "0 < n \<Longrightarrow> supplied testRank (map (bitswapProgram n) [0..<n])"
proof -
  assume "0 < n"
  have "totalEarly testRank (Topic ''rootCid'') (map (bitswapProgram n) [0..<n]) = 1"
    using \<open>0 < n\<close> by (simp add: totalEarly_map early_bitswap(2))
  moreover have "totalEarly testRank k (map (bitswapProgram n) [0..<n]) = n"
    if "k \<in> {State ''network-configured'', State ''ip-allocation'', State ''test-done'', Topic ''peers''}" for k
    using early_bitswap(1) [OF that] by (simp add: totalEarly_map)
  ultimately show ?thesis
    unfolding supplied_def by (auto simp: bitswapProgram_def setupOps_def signalAndWait_def split: if_splits)
qed

text \<open>A run that returns an error has not signalled the last barrier, and no run signals it twice.\<close>

definition doneOnce :: "nat \<Rightarrow> ('id, 'ma) testRun \<Rightarrow> bool" where
  "doneOnce n r \<longleftrightarrow> bumps (State ''test-done'') (traceOps n (snd r)) \<le> 1 \<and>
     (\<forall>err. fst r = Some (Ret (Some err)) \<longrightarrow> bumps (State ''test-done'') (traceOps n (snd r)) = 0)"

lemma setup_not_done: "bumps (State ''test-done'') (traceOps n (snd (setupBaseLibp2pTest newMultiaddr env))) = 0"
  by (auto simp: setupBaseLibp2pTest_def signalAndWait_def Let_def split: sum.splits option.splits)

lemma server_doneOnce: "doneOnce n (bitswapServer senv seq)"
  by (auto simp: doneOnce_def bitswapServer_def signalAndWait_def Let_def split: outcome.splits sum.splits)

lemma client_doneOnce: "doneOnce n (bitswapClient late cenv peers)"
proof -
  have basic: "doneOnce n (basicDAGWalker cenv peers)"
    using connectPeers_ops [of n "ceConnectErr cenv" peers "cePeerOrder cenv"]
    by (auto simp: doneOnce_def basicDAGWalker_def signalAndWait_def split: prod.splits option.splits)
  have manifest: "doneOnce n (manifetchDAGWalker late cenv peers)"
    by (auto simp: doneOnce_def manifetchDAGWalker_def signalAndWait_def Let_def split: if_splits)
  show ?thesis using basic manifest by (auto simp: doneOnce_def bitswapClient_def prefixed_def split: sum.splits)
qed

lemma bitswap_doneOnce: "doneOnce n (bitswap1toN newMultiaddr late env senv cenv)"
proof -
  obtain r t where s: "setupBaseLibp2pTest newMultiaddr env = (r, t)" by fastforce
  then have "bumps (State ''test-done'') (traceOps n t) = 0" using setup_not_done [of n newMultiaddr env] by simp
  then show ?thesis
    using server_doneOnce [of n senv] client_doneOnce [of n late cenv]
    by (auto simp: bitswap1toN_def afterSetup_def s doneOnce_def prefixed_def split: option.splits sum.splits)
qed

section \<open>The speed test\<close>

text \<open>
  The answers to one instance of \<open>runSpeedTest\<close> (kubo/main.go); each receive of a
  subscription is one more entry of its topic.
\<close>

record 'c kuboEnv =
  keLatency :: "goerr + int"
  keBandwidth :: "goerr + 64 word"
  kePrepErr :: "goerr option"
  keBlk :: "int \<Rightarrow> 'c"
  kePutErr :: "'c \<Rightarrow> goerr option"
  keRequest :: "'c requestEnv"

definition kuboInstance :: "int \<Rightarrow> string \<Rightarrow> 'c kuboEnv \<Rightarrow> goerr option option \<times> 'c kuboAct list" where
  "kuboInstance cnt groupID env =
     runSpeedTest (keLatency env) (keBandwidth env) (kePrepErr env) groupID
       (map_prod Some id (runProvide (keBlk env) (kePutErr env) cnt)) (runRequest (keRequest env))"

fun kuboOps :: "nat \<Rightarrow> nat \<Rightarrow> nat \<Rightarrow> 'c kuboAct list \<Rightarrow> syncOp list" where
  "kuboOps n p b [] = []"
| "kuboOps n p b (ConfigureNet lat bw # t) = signalAndWait ''network-configured'' n @ kuboOps n p b t"
| "kuboOps n p b (SignalWait st # t) = signalAndWait st n @ kuboOps n p b t"
| "kuboOps n p b (PublishProvider # t) = Bump (Topic ''provider'') # kuboOps n p b t"
| "kuboOps n p b (PublishBlock c # t) = Bump (Topic ''blocks'') # kuboOps n p b t"
| "kuboOps n p b (ConnectProvider # t) = Await (Topic ''provider'') (Suc p) # kuboOps n (Suc p) b t"
| "kuboOps n p b (Download c # t) = Await (Topic ''blocks'') (Suc b) # kuboOps n p (Suc b) t"
| "kuboOps n p b (_ # t) = kuboOps n p b t"

definition kuboRank :: "syncKey \<Rightarrow> nat" where
  "kuboRank k = (if k = State ''network-configured'' then 0 else if k = State ''ip-allocation'' then 1
     else if k = Topic ''provider'' then 2 else if k = State ''ready-to-publish'' then 3
     else if k = Topic ''blocks'' then 4 else if k = State ''ready-to-download'' then 5 else 6)"

definition providerProgram :: "nat \<Rightarrow> int \<Rightarrow> syncOp list" where
  "providerProgram n cnt = signalAndWait ''network-configured'' n @ signalAndWait ''ip-allocation'' n @ [Bump (Topic ''provider'')]
     @ signalAndWait ''ready-to-publish'' n @ replicate (nat (cnt + 1)) (Bump (Topic ''blocks'')) @ signalAndWait ''ready-to-download'' n @ signalAndWait ''done'' n"

definition requestorProgram :: "nat \<Rightarrow> nat \<Rightarrow> int \<Rightarrow> syncOp list" where
  "requestorProgram n np cnt = signalAndWait ''network-configured'' n @ signalAndWait ''ip-allocation'' n 
     @ map (\<lambda>j. Await (Topic ''provider'') (Suc j)) [0..<np]
     @ signalAndWait ''ready-to-publish'' n @ signalAndWait ''ready-to-download'' n
     @ map (\<lambda>j. Await (Topic ''blocks'') (Suc j)) [0..<nat cnt] @ signalAndWait ''done'' n"

lemma provideLoop_ops:
  assumes "fst (provideLoop blk putErr cnt i) = None"
  shows "kuboOps n p b (snd (provideLoop blk putErr cnt i) @ t) = replicate (nat (cnt + 1 - i)) (Bump (Topic ''blocks'')) @ kuboOps n p b t"
  using assms
proof (induction blk putErr cnt i rule: provideLoop.induct)
  case (1 blk putErr cnt i)
  show ?case
  proof (cases "i \<le> cnt")
    case True
    then have ok: "putErr (blk i) = None" "fst (provideLoop blk putErr cnt (i + 1)) = None"
      using "1.prems" by (auto simp: provideLoop.simps [of _ _ cnt i] split_beta split: option.splits)
    moreover have "nat (cnt + 1 - i) = Suc (nat (cnt - i))" using True by linarith
    ultimately show ?thesis
      using "1.IH" [OF _ ok(1) ok(2)] True by (simp add: provideLoop.simps [of _ _ cnt i] split_beta)
  next
    case False
    then show ?thesis by (simp add: provideLoop.simps)
  qed
qed

lemma connectLoop_ops:
  "connectLoop m es = (Some None, u) \<Longrightarrow>
   kuboOps n p b (u @ t) = map (\<lambda>j. Await (Topic ''provider'') (Suc j)) [p..<p + m] @ kuboOps n (p + m) b t"
  by (induction m es arbitrary: p u rule: connectLoop.induct)
    (auto simp: upt_conv_Cons simp del: upt_Suc split: prod.splits)

lemma downloadLoop_ops:
  "fst (downloadLoop getErr m mhs) = Some None \<Longrightarrow>
   kuboOps n p b (snd (downloadLoop getErr m mhs) @ t) = map (\<lambda>j. Await (Topic ''blocks'') (Suc j)) [b..<b + m] @ kuboOps n p (b + m) t"
  by (induction getErr m mhs arbitrary: b rule: downloadLoop.induct) (simp_all add: split_beta upt_conv_Cons del: upt_Suc split: option.splits)

lemma kubo_ops:
  fixes env :: "'c kuboEnv"
  assumes "kuboInstance cnt groupID env = (Some None, t)" and "rqInstances (keRequest env) - rqGroupInstances (keRequest env) = int np"
    and "rqCount (keRequest env) = cnt"
  shows "kuboOps n 0 0 t = (if groupID = ''providers'' then providerProgram n cnt else requestorProgram n np cnt)"
proof (cases "groupID = ''providers''")
  case True
  then have ok: "fst (runProvide (keBlk env) (kePutErr env) cnt) = None"
    and t: "\<exists>lat bw. t = [ConfigureNet lat bw, SignalWait ''ip-allocation''] @ snd (runProvide (keBlk env) (kePutErr env) cnt)"
    using assms(1) by (auto simp: kuboInstance_def runSpeedTest_def Let_def split: sum.splits if_splits)
  obtain r u where l: "provideLoop (keBlk env) (kePutErr env) cnt 0 = (r, u)" by fastforce
  then have "r = None" using ok by (auto simp: runProvide_def Let_def split: option.splits)
  then show ?thesis
    using t l True provideLoop_ops [of "keBlk env" "kePutErr env" cnt 0 n 0 0 "[SignalWait ''ready-to-download'', SignalWait ''done'']"]
    by (auto simp: runProvide_def providerProgram_def)
next
  case False
  then have ok: "fst (runRequest (keRequest env)) = Some None"
    and t: "\<exists>lat bw. t = [ConfigureNet lat bw, SignalWait ''ip-allocation''] @ snd (runRequest (keRequest env))"
    using assms(1) by (auto simp: kuboInstance_def runSpeedTest_def Let_def split: sum.splits if_splits)
  let ?env = "keRequest env"
  obtain r1 and t1 :: "'c kuboAct list" where c: "connectLoop np (rqConnects ?env) = (r1, t1)" by fastforce
  obtain r2 t2 where d: "downloadLoop (rqGetErr ?env) (nat cnt) (rqBlocks ?env) = (r2, t2)" by fastforce
  have "r1 = Some None" "r2 = Some None"
    and tr: "snd (runRequest ?env) = t1 @ ([SubscribeBlocks, SignalWait ''ready-to-publish'', SignalWait ''ready-to-download''] @ t2 @ [SignalWait ''done''])"
    using ok assms(2,3) c d by (auto simp: runRequest_def Let_def split: option.splits if_splits)
  then show ?thesis
    using t False c d connectLoop_ops [of np "rqConnects ?env" t1 n 0 0
        "[SubscribeBlocks, SignalWait ''ready-to-publish'', SignalWait ''ready-to-download''] @ t2 @ [SignalWait ''done'']"]
      downloadLoop_ops [of "rqGetErr ?env" "nat cnt" "rqBlocks ?env" n np 0 "[SignalWait ''done'']"]
    by (auto simp: requestorProgram_def)
qed

text \<open>The programs of \<open>np\<close> providers and \<open>nr\<close> requestors.\<close>

definition kuboPrograms :: "nat \<Rightarrow> nat \<Rightarrow> int \<Rightarrow> syncOp list list" where
  "kuboPrograms np nr cnt =
     map (\<lambda>i. if i < np then providerProgram (np + nr) cnt else requestorProgram (np + nr) np cnt) [0..<np + nr]"

abbreviation kuboStates :: "syncKey set" where
  "kuboStates \<equiv> {State ''network-configured'', State ''ip-allocation'', State ''ready-to-publish'', State ''ready-to-download'', State ''done''}"

lemma early_kubo:
  "k \<in> kuboStates \<Longrightarrow> early kuboRank k (providerProgram n cnt) = 1 \<and> early kuboRank k (requestorProgram n np cnt) = 1"
  "early kuboRank (Topic ''provider'') (providerProgram n cnt) = 1"
  "early kuboRank (Topic ''blocks'') (providerProgram n cnt) = nat (cnt + 1)"
  "early kuboRank (Topic t) (requestorProgram n np cnt) = 0"
  by (auto simp: providerProgram_def requestorProgram_def signalAndWait_def kuboRank_def)

lemma kubo_total: "k \<in> kuboStates \<Longrightarrow> totalEarly kuboRank k (kuboPrograms np nr cnt) = np + nr"
  using early_kubo(1) [of k "np + nr" cnt np] by (simp add: kuboPrograms_def totalEarly_map if_distrib cong: if_cong)

lemma sum_below: "(\<Sum>i<np + nr. if i < np then c else 0) = np * (c :: nat)"
proof -
  have "(\<Sum>i<np + nr. if i < np then c else 0) = (\<Sum>i\<in>{i. i < np + nr \<and> i < np}. c)"
    by (subst sum.inter_filter [symmetric]) (auto simp: lessThan_def)
  also have "{i. i < np + nr \<and> i < np} = {..<np}" by auto
  finally show ?thesis by simp
qed

lemma kubo_topics:
  "totalEarly kuboRank (Topic ''provider'') (kuboPrograms np nr cnt) = np"
  "totalEarly kuboRank (Topic ''blocks'') (kuboPrograms np nr cnt) = np * nat (cnt + 1)"
  using sum_below [where np = np and nr = nr and c = 1] sum_below [where np = np and nr = nr and c = "nat (cnt + 1)"]
  by (simp_all add: kuboPrograms_def totalEarly_map early_kubo(2-4) if_distrib cong: if_cong)

lemma kubo_supplied:
  assumes "0 < np"
  shows "supplied kuboRank (kuboPrograms np nr cnt)"
  unfolding supplied_def
proof (intro ballI allI impI)
  fix p k n assume p: "p \<in> set (kuboPrograms np nr cnt)" and w: "Await k n \<in> set p"
  have "p = providerProgram (np + nr) cnt \<or> p = requestorProgram (np + nr) np cnt"
    using p by (auto simp: kuboPrograms_def split: if_splits)
  with w consider "k \<in> kuboStates" "n = np + nr"
    | "k = Topic ''provider''" "n \<le> np" | "k = Topic ''blocks''" "n \<le> nat cnt"
    by (auto simp: providerProgram_def requestorProgram_def signalAndWait_def)
  then show "n \<le> totalEarly kuboRank k (kuboPrograms np nr cnt)"
  proof cases
    case 3
    have "nat cnt \<le> nat (cnt + 1)" by simp
    also have "\<dots> \<le> np * nat (cnt + 1)" using assms by simp
    finally show ?thesis using 3 by (simp add: kubo_topics)
  qed (simp_all only: kubo_total kubo_topics order_refl)
qed

section \<open>Properties\<close>

text \<open>
  C8: The instances of \<open>bitswap1toN\<close> do not deadlock. Let every instance, numbered by the
  sync service, get answers with which its own run succeeds. Then, over a sync service that
  counts signals and publications, no schedule of all instances is infinite, and when no
  instance can move all of them have finished: each has passed its barriers and the two waits
  for the configuration of the network, the addresses and the root were there for those who
  waited for them.
\<close>

theorem bitswapN_instances_finish:
  assumes "sync_service bump ready fresh cnt" and "0 < n"
    and "\<And>i. i < n \<Longrightarrow> seSeq (env i) = int i + 1 \<and> endsWell (bitswap1toN newMultiaddr (late i) (env i) (senv i) (cenv i))"
    and "ps = map (\<lambda>i. traceOps n (snd (bitswap1toN newMultiaddr (late i) (env i) (senv i) (cenv i)))) [0..<n]"
  shows "(\<nexists>f. f 0 = (ps, fresh) \<and> (\<forall>j. syncStep bump ready (f j) (f (Suc j)))) \<and>
    (\<forall>c. (syncStep bump ready)\<^sup>*\<^sup>* (ps, fresh) c \<longrightarrow> (\<nexists>c'. syncStep bump ready c c') \<longrightarrow> fst c = replicate n [])"
proof -
  have ps: "ps = map (bitswapProgram n) [0..<n]" using assms(3) by (auto simp: assms(4) bitswap_ops)
  have "sync_service.completes bump ready fresh ps"
    unfolding ps by (rule sync_service.runs_complete [OF assms(1) bitswap_supplied [OF assms(2)]])
  then show ?thesis unfolding sync_service.completes_def [OF assms(1)] by (simp add: ps)
qed

text \<open>Two instances with a server and a client.\<close>

definition pairSetup :: "nat \<Rightarrow> (nat, nat) setupEnv" where
  "pairSetup i = demoSetup\<lparr>seSeq := int i + 1, seInstances := 2,
     sePeerEvents := [PeerReceived \<lparr>pmID = 7, pmAddrs = [''/ip4/16.0.0.1/tcp/1''], pmSeq = 1\<rparr>,
       PeerReceived \<lparr>pmID = 8, pmAddrs = [''/ip4/16.0.0.2/tcp/1''], pmSeq = 2\<rparr>]\<rparr>"

abbreviation pairAddr :: "string \<Rightarrow> goerr + nat" where
  "pairAddr \<equiv> (\<lambda>s. Inr 0)"

abbreviation pairRun :: "nat \<Rightarrow> (nat, nat) testRun" where
  "pairRun i \<equiv> bitswap1toN pairAddr AtTheEnd (pairSetup i) demoServer demoClient"

lemma pair_peers:
  "\<exists>peers. setupBaseLibp2pTest pairAddr (pairSetup i) = (Some (Inr \<lparr>tiSeq = int i + 1, tiPeers = peers\<rparr>),
     snd (setupBaseLibp2pTest pairAddr (pairSetup i)))"
  by (simp add: setupBaseLibp2pTest_def pairSetup_def demoSetup_def collectPeers.simps)

lemma pair_ends: "endsWell (pairRun i)"
proof -
  obtain peers t where "setupBaseLibp2pTest pairAddr (pairSetup i) = (Some (Inr \<lparr>tiSeq = int i + 1, tiPeers = peers\<rparr>), t)"
    using pair_peers by blast
  then show ?thesis
    by (simp add: endsWell_def bitswap1toN_def afterSetup_def prefixed_def bitswapServer_def demoServer_def bitswapClient_def
        demoClient_def basicDAGWalker_def split_beta)
qed

theorem bitswapN_instances_finish_witness:
  "\<exists>c. (syncStep bumpCounter counterReady)\<^sup>*\<^sup>* (map (\<lambda>i. traceOps 2 (snd (pairRun i))) [0..<2], \<lambda>_. 0) c \<and> fst c = replicate 2 []"
proof -
  let ?ps = "map (\<lambda>i. traceOps 2 (snd (pairRun i))) [0..<2]"
  have "\<forall>c. counters.steps (?ps, \<lambda>_. 0) c \<longrightarrow> (\<nexists>c'. syncStep bumpCounter counterReady c c') \<longrightarrow> fst c = replicate 2 []"
    by (rule bitswapN_instances_finish [OF counters.sync_service_axioms, where n = 2 and env = pairSetup and late = "\<lambda>_. AtTheEnd"
          and senv = "\<lambda>_. demoServer" and cenv = "\<lambda>_. demoClient" and newMultiaddr = pairAddr, THEN conjunct2])
      (simp_all add: pair_ends, simp add: pairSetup_def)
  then show ?thesis using counters.comes_to_rest by blast
qed

text \<open>
  C40: One failure stops the whole test: when one instance returns an error, no instance whose
  own answers are good ever finishes, in any schedule. It stays before the barrier "test-done",
  for which one signal is missing.
\<close>

theorem bitswapN_failure_blocks_all:
  assumes "sync_service bump ready fresh cnt"
    and "ps = map (\<lambda>i. traceOps n (snd (bitswap1toN newMultiaddr (late i) (env i) (senv i) (cenv i)))) [0..<n]"
    and "m < n" and "fst (bitswap1toN newMultiaddr (late m) (env m) (senv m) (cenv m)) = Some (Ret (Some err))"
    and "i < n" and "seSeq (env i) = int i + 1" and "endsWell (bitswap1toN newMultiaddr (late i) (env i) (senv i) (cenv i))"
    and "(syncStep bump ready)\<^sup>*\<^sup>* (ps, fresh) c"
  shows "\<exists>w. fst c ! i = w @ [Await (State ''test-done'') n]"
proof -
  let ?k = "State ''test-done''"
  let ?ops = "\<lambda>j. traceOps n (snd (bitswap1toN newMultiaddr (late j) (env j) (senv j) (cenv j)))"
  have once: "bumps ?k (?ops j) \<le> 1" for j using bitswap_doneOnce unfolding doneOnce_def by blast
  have "bumps ?k (?ops m) = 0" using bitswap_doneOnce assms(4) unfolding doneOnce_def by blast
  then have "(\<Sum>j<n. bumps ?k (?ops j)) < (\<Sum>j<n. 1)"
    using assms(3) once by (intro sum_strict_mono_ex1) auto
  then have total: "totalBumps ?k ps < n" by (simp add: assms(2) totalBumps_map)
  have "ps ! i = bitswapProgram n i" using assms(5) bitswap_ops [OF assms(7,6)] by (simp add: assms(2))
  then obtain u where "ps ! i = u @ [Await ?k n]" by (simp add: bitswapProgram_def signalAndWait_def)
  then show ?thesis
    using sync_service.never_passed [OF assms(1,8) _ _ total, of i u "[]"] assms(5) by (simp add: assms(2))
qed

theorem bitswapN_failure_blocks_all_witness:
  "\<exists>w. [traceOps 2 (snd (pairRun 0)), []] ! 0 = w @ [Await (State ''test-done'') 2]"
proof -
  let ?env = "\<lambda>i. if i = 0 then pairSetup 0 else demoSetup\<lparr>seLatency := Inl ErrEOF\<rparr>"
  let ?run = "\<lambda>i :: nat. bitswap1toN pairAddr AtTheEnd (?env i) demoServer demoClient"
  have fails: "?run 1 = (Some (Ret (Some ErrEOF)), [])"
    by (simp add: bitswap1toN_def afterSetup_def setupBaseLibp2pTest_def demoSetup_def)
  have "\<exists>w. fst ([traceOps 2 (snd (pairRun 0)), []], (\<lambda>_. 0) :: syncKey \<Rightarrow> nat) ! 0 = w @ [Await (State ''test-done'') 2]"
  proof (rule bitswapN_failure_blocks_all [OF counters.sync_service_axioms, where n = 2 and m = 1 and env = ?env and i = 0
        and late = "\<lambda>_. AtTheEnd" and senv = "\<lambda>_. demoServer" and cenv = "\<lambda>_. demoClient" and newMultiaddr = pairAddr
        and ps = "[traceOps 2 (snd (pairRun 0)), []]" and err = ErrEOF])
    show "[traceOps 2 (snd (pairRun 0)), []] = map (\<lambda>i. traceOps 2 (snd (?run i))) [0..<2]"
      using fails by (simp add: numeral_2_eq_2)
    show "endsWell (?run 0)" using pair_ends [of 0] by simp
    show "fst (?run 1) = Some (Ret (Some ErrEOF))" using fails by simp
  qed (simp_all add: pairSetup_def)
  then show ?thesis by simp
qed

text \<open>
  C26: The instances of the speed test do not deadlock. With at least one provider, the same
  count everywhere and answers with which every instance succeeds, no schedule of all
  providers and requestors is infinite, and when no instance can move all have finished: they
  have passed the wait for the configuration of the network and all barriers, and the
  requestors got as many addresses and blocks as they waited for.
\<close>

theorem kubo_instances_finish:
  assumes "sync_service bump ready fresh cnt" and "0 < np"
    and "\<And>i. i < np + nr \<Longrightarrow> fst (kuboInstance blocks (if i < np then ''providers'' else ''requestors'') (env i)) = Some None"
    and "\<And>i. i < np + nr \<Longrightarrow> rqInstances (keRequest (env i)) = int (np + nr) \<and> rqGroupInstances (keRequest (env i)) = int nr
           \<and> rqCount (keRequest (env i)) = blocks"
    and "ps = map (\<lambda>i. kuboOps (np + nr) 0 0 (snd (kuboInstance blocks (if i < np then ''providers'' else ''requestors'') (env i)))) [0..<np + nr]"
  shows "(\<nexists>f. f 0 = (ps, fresh) \<and> (\<forall>j. syncStep bump ready (f j) (f (Suc j)))) \<and>
    (\<forall>c. (syncStep bump ready)\<^sup>*\<^sup>* (ps, fresh) c \<longrightarrow> (\<nexists>c'. syncStep bump ready c c') \<longrightarrow> fst c = replicate (np + nr) [])"
proof -
  have "kuboOps (np + nr) 0 0 (snd (kuboInstance blocks (if i < np then ''providers'' else ''requestors'') (env i))) =
      (if i < np then providerProgram (np + nr) blocks else requestorProgram (np + nr) np blocks)" if i: "i < np + nr" for i
    using kubo_ops [of blocks "if i < np then ''providers'' else ''requestors''" "env i" _ np "np + nr"] assms(3,4) [OF i]
    by (simp add: prod_eq_iff)
  then have ps: "ps = kuboPrograms np nr blocks" by (simp add: assms(5) kuboPrograms_def)
  have "sync_service.completes bump ready fresh ps"
    unfolding ps by (rule sync_service.runs_complete [OF assms(1) kubo_supplied [OF assms(2)]])
  then show ?thesis unfolding sync_service.completes_def [OF assms(1)] by (simp add: ps kuboPrograms_def)
qed

definition demoKubo :: "int kuboEnv" where
  "demoKubo = \<lparr>keLatency = Inr 1, keBandwidth = Inr 1, kePrepErr = None, keBlk = (\<lambda>i. i), kePutErr = (\<lambda>c. None),
     keRequest = \<lparr>rqProviderSubErr = None, rqInstances = 2, rqGroupInstances = 1, rqConnects = [None], rqBlockSubErr = None,
       rqBlocks = [0, 1], rqGetErr = (\<lambda>c. None), rqCount = 1\<rparr>\<rparr>"

theorem kubo_instances_finish_witness:
  "\<exists>c. (syncStep bumpCounter counterReady)\<^sup>*\<^sup>*
      (map (\<lambda>i. kuboOps (1 + 1) 0 0 (snd (kuboInstance 1 (if i < 1 then ''providers'' else ''requestors'') demoKubo))) [0..<1 + 1], \<lambda>_. 0) c
     \<and> fst c = replicate (1 + 1) []"
proof -
  have "fst (kuboInstance 1 g demoKubo) = Some None" if "g \<in> {''providers'', ''requestors''}" for g
    using that by (auto simp: kuboInstance_def demoKubo_def runSpeedTest_def runProvide_def provideLoop.simps runRequest_def)
  then have "\<forall>c. counters.steps (map (\<lambda>i. kuboOps (1 + 1) 0 0 (snd (kuboInstance 1 (if i < 1 then ''providers'' else ''requestors'') demoKubo)))
        [0..<1 + 1], \<lambda>_. 0) c \<longrightarrow> (\<nexists>c'. syncStep bumpCounter counterReady c c') \<longrightarrow> fst c = replicate (1 + 1) []"
    by (intro kubo_instances_finish [OF counters.sync_service_axioms, where env = "\<lambda>_. demoKubo", THEN conjunct2])
      (simp_all add: demoKubo_def)
  then show ?thesis using counters.comes_to_rest by blast
qed

end
