(* ===== verification/Tglog.thy ===== *)
theory Tglog
  imports Prelude
begin

text \<open>
  The logger of tglog/log.go, which passes every message on to the test environment with its
  level in front; two of its levels end the process. The state is the list of formats
  recorded.
\<close>

datatype logLevel = LDebug | LError | LFatal | LInfo | LPanic | LWarn

fun levelPrefix :: "logLevel \<Rightarrow> string" where
  "levelPrefix LDebug = ''debug:''"
| "levelPrefix LError = ''error:''"
| "levelPrefix LFatal = ''fatal:''"
| "levelPrefix LInfo = ''info:''"
| "levelPrefix LPanic = ''panic:''"
| "levelPrefix LWarn = ''warn:''"

text \<open>How a call ends: it returns, the process exits with a status, or it panics with a text.\<close>

datatype logEnd = Returns | Exits int | Panics string

text \<open>
  The methods without a format (\<open>Debug\<close>, \<open>Error\<close> and so on) and those with one. \<open>sprintf\<close>
  is \<open>fmt.Sprintf\<close> with the arguments of the call.
\<close>

definition logPlain :: "(string \<Rightarrow> string) \<Rightarrow> logLevel \<Rightarrow> string list \<Rightarrow> logEnd \<times> string list" where
  "logPlain sprintf level recorded =
     (case level of LFatal \<Rightarrow> Exits 1 | LPanic \<Rightarrow> Panics (sprintf ''panic'') | _ \<Rightarrow> Returns,
      recorded @ [levelPrefix level])"

definition logFormat :: "(string \<Rightarrow> string) \<Rightarrow> logLevel \<Rightarrow> string \<Rightarrow> string list \<Rightarrow> logEnd \<times> string list" where
  "logFormat sprintf level format recorded =
     (case level of LFatal \<Rightarrow> Exits 1 | LPanic \<Rightarrow> Panics (sprintf (''panic:'' @ format)) | _ \<Rightarrow> Returns,
      recorded @ [levelPrefix level @ format])"

lemma log_returns_iff:
  "fst (logFormat sprintf level format recorded) = Returns \<longleftrightarrow> level \<notin> {LFatal, LPanic}"
  "fst (logPlain sprintf level recorded) = Returns \<longleftrightarrow> level \<notin> {LFatal, LPanic}"
  by (cases level; simp add: logFormat_def logPlain_def)+

end
