(* ===== verification/Spec2Isabelle.thy ===== *)
theory Spec2Isabelle
  imports WalkProps BlockServiceProps Sessions Download Walk2Props TcpProps GenerateProps CarFiles Manifetch SyncRuns Tglog
    "HOL-Library.Countable"
begin

text \<open>
  A verification of the Go programs of the data transfer test plans: the directory
  movethebytes/data-transfer/protocol_comparison (called PC below), which compares ways to
  move a DAG of blocks between test instances, and movethebytes/data-transfer/kubo (KB).

  \<^bold>\<open>The program and its parts.\<close> A run of PC starts many instances of one binary. Each takes a
  test case from the table of main.go, brings up its network, meets the others at the barriers
  of a sync service, and takes a role from its number. Instance 1 is the server: it generates
  a data set (generate.go, car.go), puts it into a block store with an artificial delay and
  serves it. The other instances fetch it. For Bitswap the client walks the DAG from the root
  (bitswap/mdag/mdag.go); each node the walk needs is asked for through a DAG service, which
  asks a block service (bitswap/bservice/bserv.go), which looks into the local store and then
  asks the exchange, a Bitswap client (bitswap/client.go) talking to a Bitswap server
  (bitswap/server.go). A second walk (bitswap/mdag/walk2.go) fetches a manifest first
  (manifetch.go) and requests blocks ahead of the walk, as far as its credit allows. The other
  test cases send one file over TCP (tcp.go) or over a libp2p stream (libp2p.go), or use
  Graphsync (graphsync.go). KB times block transfers between providers and a requestor
  (main.go) and counts the messages (tracer.go).

  \<^bold>\<open>How code becomes definitions.\<close> An operation on state is a function \<open>'s \<Rightarrow> 'a \<times> 's\<close>; a
  result with a Go error is \<open>error + 'a\<close> or \<open>error option\<close>; code that can panic returns
  \<open>outcome\<close> (all in theory Prelude). Code that goroutines run together is a step relation or
  a step function run by an explicit schedule, one step per section under a lock or per
  channel operation. Code outside the repository (block stores, exchanges, link decoding, CID
  hashing, the sync service, map iteration order, varint coding) is an argument; what the
  program relies on is a locale where there are laws to rely on, and each locale is
  interpreted on definitions that run.

  \<^bold>\<open>Theories, in the order of the data flow.\<close>

  \<^item> \<open>Generate\<close>, \<open>GenerateProps\<close>: generate.go. \<open>GenerateDeepDagCarFile\<close> with its
    loop \<open>deepLevels\<close>, the choice of a data set \<open>GetCARFileFromConfig\<close>, the server's store
    \<open>GetBlockstoreFromConfig\<close>. The deep DAG is a chain of the requested depth and a walk from its
    root counts all of it.

  \<^item> \<open>CarFiles\<close>: car.go. The link system that \<open>writeFiles\<close> puts between the UnixFS builder and the
    store, and the file that \<open>UnixFSCARBlockstore\<close> writes. What is committed is read back, and a
    file written without an error holds its root, unless the root is undefined, which the lost
    error of the directory makes possible.

  \<^item> \<open>WalkOptions\<close>, \<open>SeqWalk\<close>, \<open>Visitors\<close>, \<open>ParWalk\<close>, \<open>ParWalkInv\<close>, \<open>ParWalkCorrect\<close>,
    \<open>ParWalkLive\<close>, \<open>FetchGraph\<close>, \<open>WalkProps\<close>: the walks of mdag.go (lines 166 to 229 and
    302 to 596) and the visit function of \<open>basicDAGWalker\<close> in bitswap.go. \<open>sequentialWalkDepth\<close>
    is the recursion of the code; \<open>parStep\<close> is \<open>parallelWalkDepth\<close> with its feed and output
    channels, its in-progress count, its queue, its workers and its context. The invariants
    are proved for every visit function that keeps the contract \<open>coverage\<close>, and the visit
    functions of the code are shown to keep it. Results: the sequential walk is depth-first
    search; under every schedule the concurrent walk returns, also when nodes are missing or
    its context is cancelled, and a nil result on a complete DAG means that it has visited what
    the root reaches, at the right distances when there is a depth limit.

  \<^item> \<open>Blockstores\<close>, \<open>BlockService\<close>, \<open>BlockServiceProps\<close>: \<open>CountingBS\<close> (bitswap.go),
    \<open>DelayedBlockstore\<close> (generate.go) and bserv.go. The wrappers keep the contract
    \<open>block_store\<close>; over that contract adding, getting and deleting behave as expected, and a
    session is opened once. The package variable \<open>RunEnv\<close> of bserv.go is an argument that says
    whether it is set; the repository never sets it, and then a read that misses the local store
    panics, which the theorems about reads have as a branch.

  \<^item> \<open>DagService\<close>: the node operations of mdag.go (lines 29 to 164 and 231 to 300). A batch
    request never blocks on its own channel and reports a missing node last; a walk that
    ignores missing nodes returns nil on a partial DAG.

  \<^item> \<open>Sessions\<close>: the node getters of mdag.go with the sessions they make, the context of a fetch,
    and the Bitswap client as an exchange that makes sessions. A session over the client is
    equivalent to the service over it, for every sequence of requests.

  \<^item> \<open>BitswapClient\<close>, \<open>ClientRuns\<close>, \<open>ClientProps\<close>: client.go, with the table of wants, the
    channels and the lock that a stream handler holds while it sends. A select with several
    ready cases takes either. In every run without a repeated outstanding request a handler never waits and deletes the wants it answers; the
    theorems named in the findings show what a repeated request leads to.

  \<^item> \<open>BitswapServer\<close>, \<open>ExchangeProps\<close>: server.go, with the retry loops of all goroutines of a
    message over the error variable that they share. Reading the variable for the log, assigning
    it and testing it are three steps. Every schedule of them is bounded, by ten turns for each
    goroutine; and the round trip of client and server.

  \<^item> \<open>ExchangeSystem\<close>, \<open>ExchangeSpec\<close>, \<open>SystemProps\<close>: client, wire, server goroutines and replies as
    one machine \<open>exStep\<close>. The specification \<open>remoteStep\<close> is a remote store with a set of pending
    requests, each answered once and with the stored block; the machine refines it. A panic of
    the server (\<open>xsPanic\<close>) and one of the client (\<open>xsCrash\<close>) end their own process only; an
    attempt that fails, or that a panic cuts off, may leave nothing, a broken or a whole message
    at the client. Whatever attempts fail, the work that is under way ends after at most
    \<open>exWeight\<close> steps; when first attempts succeed, it ends with every request answered.

  \<^item> \<open>Download\<close>: a call of \<open>Client.GetBlock\<close> in that machine, a node getter over it, and the walk of
    \<open>basicDAGWalker\<close> over the getter: the whole download is complete under every schedule.

  \<^item> \<open>Walk2\<close>, \<open>Walk2Props\<close>, \<open>Manifetch\<close>: the manifest protocol and the walk that uses it. No
    wake-up of the cache getter is lost; the credit is conserved; the requester has a lost
    wake-up of its own.

  \<^item> \<open>TcpTransfer\<close>, \<open>TcpProps\<close>, \<open>TestSetup\<close>, \<open>TestCases\<close>, \<open>Tglog\<close>, \<open>Kubo\<close>: the plain transfer
    with its 64-bit length and the address arithmetic at its widths, the set-up of libp2p, the
    test cases as results with the trace of barriers and messages, the logger, and KB.

  \<^item> \<open>SyncService\<close>, \<open>SyncRuns\<close>: all instances of a test together. The traces of the instances become
    programs over the sync service, with the waits for the configuration of the network. Programs
    that wait at each key for no more than is added to it before any wait of the same or a higher
    rank never deadlock, and those of \<open>bitswap1toN\<close> and of the speed test are such
    programs. One instance that returns an error keeps all others at the last barrier.

  This theory ties the data set, the server and the client together. The contracts between the
  parts are locales: \<open>coverage\<close>, \<open>visitor\<close>, \<open>partial_dag\<close> and \<open>rooted_dag\<close> for the walks, \<open>block_store\<close> and \<open>block_service\<close>,
  \<open>session_getter\<close> for what the walk's getter does with the exchange, \<open>reliable_exchange\<close> for the
  system, \<open>unixfs_builder\<close> and \<open>car_store\<close> for CAR files, \<open>sync_service\<close> for the instances.

  \<^bold>\<open>Fuel and bounds.\<close> \<open>sequentialWalkDepth\<close> has a bound on the depth of its recursion; the
  theorems give it one more than the number of nodes of a finite graph, since a set-based
  visit function accepts no CID twice, and prove that the walk then returns. A run of server
  goroutines is a finite schedule (the list of the goroutines that move), over which the
  theorems quantify. Everything else is total: the concurrent walk, the system of client and
  server and the runs of instances have no fuel, and that their runs end is proved with
  measures (\<open>turnsLeft\<close>, \<open>exWeight\<close> and the length of what is left of the programs).

  \<^bold>\<open>Not modelled.\<close> bitswap/sessionclient.go, which is commented out; the bytes that the CAR
  library writes; tickers and log lines without effect; package variables, interface
  declarations and methods that only return a field (\<open>Blockstore\<close> and \<open>Exchange\<close> of bserv.go); time,
  apart from the fact that a delay or a timeout may happen; memory, apart from the bound
  \<open>maxAlloc\<close> above which the client of tcp.go panics when it allocates its buffer; the libraries (libp2p, Bitswap
  messages, Graphsync, UnixFS, the sync service), of which only results are arguments; and the
  Rust programs of the repository.

  \<^bold>\<open>Continuation.\<close> Open ends worth closing: \<open>GetBlocksCh\<close> inside the runs of the client, and
  the parts of \<open>Walk2\<close> (two getters, cache, credit) as one machine under its walk.
\<close>

section \<open>From the generated data to the client\<close>

instance ddNode :: (countable) countable
  by countable_datatype

instance termCid :: countable
  by countable_datatype


definition termString :: "termCid \<Rightarrow> string" where
  "termString c = demoString (to_nat c)"

lemma termString_inj: "inj termString"
  unfolding termString_def by (rule injI) (use demoString_inj in \<open>auto dest!: injD\<close>)

abbreviation termGet :: "(termCid, termCid ddNode, (termCid \<rightharpoonup> termCid ddNode) \<times>
    (termCid, termCid ddNode, termCid \<rightharpoonup> termCid ddNode) exSystem) nodeGet" where
  "termGet \<equiv> dagGet Inr (Some (serviceDag CidOf (exGet termString demoString CidOf demoIter (memBS CidOf) (\<lambda>_ _ _. None))))"


end
